(* ===== verification/Casper_Prelude.thy ===== *)
theory Casper_Prelude
  imports Main "HOL-Library.Char_ord" "HOL-Library.Word"
begin

text \<open>
  Shared vocabulary of the development.

  A Rust \<open>u8\<close> is a HOL \<^typ>\<open>char\<close> (HOL characters are exactly the 256 byte values) and both
  \<open>Vec<u8>\<close>/\<open>&[u8]\<close> and \<open>String\<close>/\<open>&str\<close> are \<^typ>\<open>string\<close>: a Rust \<open>str\<close> is its UTF-8 bytes, and
  \<open>len()\<close> counts those bytes.  A \<open>Result\<close> is a sum whose left side is the error.  Instants and
  durations are natural numbers of nanoseconds.
\<close>

section \<open>Types and collections\<close>

type_synonym byte = char
type_synonym bytes = string
type_synonym instant = nat
type_synonym duration = nat

named_theorems result_simps \<open>how the error monad and its guards reduce\<close>
named_theorems byte_simps \<open>numeric and character facts about single bytes\<close>
named_theorems codec_simps \<open>round trips of the fixed-width codecs\<close>

section \<open>Errors as values\<close>

text \<open>The \<open>std::io::ErrorKind\<close> values the modelled code produces or tests for.\<close>

datatype io_kind =
    UnexpectedEof | InvalidData | InvalidInput | FileTooLarge | TimedOut | WouldBlock
  | Interrupted | WriteZero | PermissionDenied | NotFound | AlreadyExists | StorageFull
  | BrokenPipe | OtherKind

type_synonym 'a io_result = "io_kind + 'a"

text \<open>A \<open>std::io::Error\<close> where the code composes or tests its message: the kind and the text.\<close>

type_synonym error = "io_kind \<times> string"

definition rbind :: "'e + 'a \<Rightarrow> ('a \<Rightarrow> 'e + 'b) \<Rightarrow> 'e + 'b" where
  "rbind r f = (case r of Inl e \<Rightarrow> Inl e | Inr a \<Rightarrow> f a)"

definition ensure :: "bool \<Rightarrow> 'e \<Rightarrow> 'e + unit" where
  "ensure ok e = (if ok then Inr () else Inl e)"

definition ok_or :: "'a option \<Rightarrow> 'e \<Rightarrow> 'e + 'a" where
  "ok_or opt e = (case opt of None \<Rightarrow> Inl e | Some a \<Rightarrow> Inr a)"

definition map_err :: "('e \<Rightarrow> 'f) \<Rightarrow> 'e + 'a \<Rightarrow> 'f + 'a" where
  "map_err g r = (case r of Inl e \<Rightarrow> Inl (g e) | Inr a \<Rightarrow> Inr a)"

definition is_ok :: "'e + 'a \<Rightarrow> bool" where
  "is_ok r = (case r of Inl _ \<Rightarrow> False | Inr _ \<Rightarrow> True)"

lemma rbind_simps [simp, result_simps]:
  "rbind (Inl e) f = Inl e"
  "rbind (Inr a) f = f a"
  by (simp_all add: rbind_def)

lemma rbind_eq_Inr [result_simps]:
  "rbind r f = Inr b \<longleftrightarrow> (\<exists>a. r = Inr a \<and> f a = Inr b)"
  by (cases r) simp_all

lemma rbind_eq_Inl [result_simps]:
  "rbind r f = Inl e \<longleftrightarrow> r = Inl e \<or> (\<exists>a. r = Inr a \<and> f a = Inl e)"
  by (cases r) auto

lemma ensure_simps [simp, result_simps]:
  "ensure True e = Inr ()"
  "ensure False e = Inl e"
  "ensure ok e = Inr u \<longleftrightarrow> ok"
  "ensure ok e = Inl d \<longleftrightarrow> \<not> ok \<and> d = e"
  by (auto simp: ensure_def)

lemma rbind_ensure [result_simps]:
  "rbind (ensure ok e) f = (if ok then f () else Inl e)"
  by (simp add: ensure_def)

lemma ok_or_simps [simp, result_simps]:
  "ok_or None e = Inl e"
  "ok_or (Some a) e = Inr a"
  "ok_or opt e = Inr b \<longleftrightarrow> opt = Some b"
  "ok_or opt e = Inl d \<longleftrightarrow> opt = None \<and> d = e"
  by (auto simp: ok_or_def split: option.splits)

lemma map_err_simps [simp, result_simps]:
  "map_err g (Inl e) = Inl (g e)"
  "map_err g (Inr a) = Inr a"
  "map_err g r = Inr b \<longleftrightarrow> r = Inr b"
  by (auto simp: map_err_def split: sum.splits)

lemma is_ok_simps [simp, result_simps]:
  "is_ok (Inl e) = False"
  "is_ok (Inr a) = True"
  by (simp_all add: is_ok_def)

lemma is_ok_iff: "is_ok r \<longleftrightarrow> (\<exists>a. r = Inr a)"
  by (cases r) simp_all

lemma map_sum_eq_Inr: "map_sum f g x = Inr b \<longleftrightarrow> (\<exists>a. x = Inr a \<and> b = g a)"
  by (cases x) auto

section \<open>Bytes\<close>

definition code :: "byte \<Rightarrow> nat" where
  "code b = of_char b"

lemma code_less [simp, byte_simps]: "code b < 256"
  by (simp add: code_def)

lemma code_char_of [simp, byte_simps]: "code (char_of n) = n mod 256"
  by (simp add: code_def)

lemma char_of_code [simp, byte_simps]: "char_of (code b) = b"
  by (simp add: code_def)

lemma code_inject [simp, byte_simps]: "code a = code b \<longleftrightarrow> a = b"
  by (metis char_of_code)

text \<open>\<open>u8::is_ascii_whitespace\<close>: space, tab, line feed, form feed, carriage return.\<close>

definition is_ascii_whitespace :: "byte \<Rightarrow> bool" where
  "is_ascii_whitespace b \<longleftrightarrow> code b \<in> {9, 10, 12, 13, 32}"

definition is_ascii_digit :: "byte \<Rightarrow> bool" where
  "is_ascii_digit b \<longleftrightarrow> 48 \<le> code b \<and> code b \<le> 57"

definition is_ascii_lowercase :: "byte \<Rightarrow> bool" where
  "is_ascii_lowercase b \<longleftrightarrow> 97 \<le> code b \<and> code b \<le> 122"

definition is_ascii_uppercase :: "byte \<Rightarrow> bool" where
  "is_ascii_uppercase b \<longleftrightarrow> 65 \<le> code b \<and> code b \<le> 90"

definition is_ascii_alphanumeric :: "byte \<Rightarrow> bool" where
  "is_ascii_alphanumeric b \<longleftrightarrow> is_ascii_digit b \<or> is_ascii_lowercase b \<or> is_ascii_uppercase b"

text \<open>The source's \<open>matches!(b, b'0'..=b'9' | b'a'..=b'f')\<close>.\<close>

definition lower_hex :: "byte \<Rightarrow> bool" where
  "lower_hex b \<longleftrightarrow> is_ascii_digit b \<or> (97 \<le> code b \<and> code b \<le> 102)"

definition NUL :: byte where "NUL = CHR 0x00"
definition newline :: byte where "newline = CHR 0x0A"

section \<open>Hexadecimal\<close>

text \<open>The digits of \<open>{:x}\<close>: lowercase, no leading zeros.\<close>

definition hex_digit :: "nat \<Rightarrow> byte" where
  "hex_digit d = (if d < 10 then char_of (48 + d) else char_of (87 + d))"

fun hex_text :: "nat \<Rightarrow> string" where
  "hex_text n = (if n < 16 then [hex_digit n] else hex_text (n div 16) @ [hex_digit (n mod 16)])"

declare hex_text.simps [simp del]

lemma lower_hex_digit: "d < 16 \<Longrightarrow> lower_hex (hex_digit d)"
  by (auto simp: hex_digit_def lower_hex_def is_ascii_digit_def)

lemma hex_text_lower: "list_all lower_hex (hex_text n)"
  by (induction n rule: hex_text.induct) (simp add: hex_text.simps lower_hex_digit)

section \<open>Decimal\<close>

text \<open>The digits of \<open>{}\<close> for an unsigned number.\<close>

fun dec_text :: "nat \<Rightarrow> string" where
  "dec_text n = (if n < 10 then [char_of (48 + n)] else dec_text (n div 10) @ [char_of (48 + n mod 10)])"

declare dec_text.simps [simp del]

section \<open>Fixed-width integers on the wire\<close>

text \<open>
  \<open>to_le_bytes\<close>/\<open>from_le_bytes\<close> of a \<open>k\<close>-byte unsigned integer and, reversed, the big-endian pair.
\<close>

primrec to_le_bytes :: "nat \<Rightarrow> nat \<Rightarrow> bytes" where
  "to_le_bytes 0 n = []"
| "to_le_bytes (Suc k) n = char_of n # to_le_bytes k (n div 256)"

primrec from_le_bytes :: "bytes \<Rightarrow> nat" where
  "from_le_bytes [] = 0"
| "from_le_bytes (b # bs) = code b + 256 * from_le_bytes bs"

definition to_be_bytes :: "nat \<Rightarrow> nat \<Rightarrow> bytes" where
  "to_be_bytes k n = rev (to_le_bytes k n)"

definition from_be_bytes :: "bytes \<Rightarrow> nat" where
  "from_be_bytes bs = from_le_bytes (rev bs)"

lemma length_to_le_bytes [simp, codec_simps]: "length (to_le_bytes k n) = k"
  by (induction k arbitrary: n) simp_all

lemma length_to_be_bytes [simp, codec_simps]: "length (to_be_bytes k n) = k"
  by (simp add: to_be_bytes_def)

lemma to_le_bytes_numeral:
  "to_le_bytes (numeral k) n = char_of n # to_le_bytes (pred_numeral k) (n div 256)"
  by (subst numeral_eq_Suc) simp

lemma from_to_le_bytes [simp, codec_simps]: "from_le_bytes (to_le_bytes k n) = n mod 256 ^ k"
proof (induction k arbitrary: n)
  case (Suc k)
  then show ?case
    by (simp add: mod_mult2_eq)
qed simp

lemma from_to_be_bytes [simp, codec_simps]: "from_be_bytes (to_be_bytes k n) = n mod 256 ^ k"
  by (simp add: from_be_bytes_def to_be_bytes_def)

lemma to_le_bytes_inject:
  assumes "x < 256 ^ k" "y < 256 ^ k"
  shows "to_le_bytes k x = to_le_bytes k y \<longleftrightarrow> x = y"
  using assms by (metis from_to_le_bytes mod_less)

lemma to_from_le_bytes [simp, codec_simps]: "to_le_bytes (length bs) (from_le_bytes bs) = bs"
proof (induction bs)
  case (Cons b bs)
  have "char_of (code b + 256 * from_le_bytes bs) = b"
    by (metis char_of_code char_of_mod_256 mod_mult_self2)
  moreover have "(code b + 256 * from_le_bytes bs) div 256 = from_le_bytes bs"
    by simp
  ultimately show ?case
    using Cons.IH by simp
qed simp

lemma to_from_be_bytes [simp, codec_simps]: "to_be_bytes (length bs) (from_be_bytes bs) = bs"
  using to_from_le_bytes [of "rev bs"]
  by (simp add: from_be_bytes_def to_be_bytes_def)

lemma from_le_bytes_less: "from_le_bytes bs < 256 ^ length bs"
proof (induction bs)
  case (Cons b bs)
  have "code b + 256 * from_le_bytes bs < 256 + 256 * from_le_bytes bs"
    by simp
  also have "\<dots> \<le> 256 * 256 ^ length bs"
    using Cons.IH by simp
  finally show ?case by simp
qed simp

lemma from_be_bytes_less: "from_be_bytes bs < 256 ^ length bs"
  using from_le_bytes_less [of "rev bs"] by (simp add: from_be_bytes_def)

section \<open>Wire formats\<close>

text \<open>
  What every fixed wire format of the program promises: a valid value survives the trip, and nothing
  but its own encoding is ever accepted for it.
\<close>

locale wire_format =
  fixes encode :: "'a \<Rightarrow> bytes"
    and decode :: "bytes \<Rightarrow> 'e + 'a"
    and valid :: "'a \<Rightarrow> bool"
  assumes round_trip: "valid a \<Longrightarrow> decode (encode a) = Inr a"
    and exact: "decode bs = Inr a \<Longrightarrow> valid a \<and> bs = encode a"
begin

lemma decode_iff: "decode bs = Inr a \<longleftrightarrow> valid a \<and> bs = encode a"
  using round_trip exact by blast

lemma encode_inject: "valid a \<Longrightarrow> valid b \<Longrightarrow> encode a = encode b \<longleftrightarrow> a = b"
  using round_trip by (metis Inr_inject)

lemma one_encoding: "decode bs = Inr a \<Longrightarrow> decode cs = Inr a \<Longrightarrow> bs = cs"
  using exact by blast

lemma refuses: "(\<nexists>a. valid a \<and> bs = encode a) \<Longrightarrow> \<exists>e. decode bs = Inl e"
  using exact by (cases "decode bs") blast+

end

section \<open>Transition systems\<close>

inductive reachable :: "('s \<Rightarrow> bool) \<Rightarrow> ('s \<Rightarrow> 's \<Rightarrow> bool) \<Rightarrow> 's \<Rightarrow> bool"
  for start step where
  reach_start: "start s \<Longrightarrow> reachable start step s"
| reach_step: "reachable start step s \<Longrightarrow> step s t \<Longrightarrow> reachable start step t"

text \<open>What a component with concurrent callers promises: an invariant every step keeps.\<close>

locale inductive_invariant =
  fixes start :: "'s \<Rightarrow> bool"
    and step :: "'s \<Rightarrow> 's \<Rightarrow> bool"
    and inv :: "'s \<Rightarrow> bool"
  assumes holds_first: "start s \<Longrightarrow> inv s"
    and kept: "inv s \<Longrightarrow> step s t \<Longrightarrow> inv t"
begin

lemma always: "reachable start step s \<Longrightarrow> inv s"
  by (induction rule: reachable.induct) (auto intro: holds_first kept)

lemma kept_along: "step\<^sup>*\<^sup>* s t \<Longrightarrow> inv s \<Longrightarrow> inv t"
  by (induction rule: rtranclp_induct) (auto intro: kept)

end

end
