(* ===== verification/Utf8.thy ===== *)
theory Utf8
  imports Casper_Prelude
begin

text \<open>
  UTF-8 as Rust's standard library validates it: \<open>str::from_utf8\<close> with \<open>Utf8Error::valid_up_to\<close> and
  \<open>error_len\<close>, and \<open>String::from_utf8_lossy\<close>.  The modelled code decides what it may show, keep or
  cut on these three answers.
\<close>

section \<open>One encoded character\<close>

datatype utf8_head =
    Whole nat       \<comment> \<open>a well-formed character of this many bytes\<close>
  | Broken nat      \<comment> \<open>\<open>error_len() = Some n\<close>\<close>
  | Cut             \<comment> \<open>\<open>error_len() = None\<close>: the input ends inside a character\<close>

definition continuation :: "byte \<Rightarrow> bool" where
  "continuation b \<longleftrightarrow> 0x80 \<le> code b \<and> code b \<le> 0xBF"

definition second3 :: "byte \<Rightarrow> byte \<Rightarrow> bool" where
  "second3 a b \<longleftrightarrow>
     (if code a = 0xE0 then 0xA0 \<le> code b \<and> code b \<le> 0xBF
      else if code a = 0xED then 0x80 \<le> code b \<and> code b \<le> 0x9F
      else continuation b)"

definition second4 :: "byte \<Rightarrow> byte \<Rightarrow> bool" where
  "second4 a b \<longleftrightarrow>
     (if code a = 0xF0 then 0x90 \<le> code b \<and> code b \<le> 0xBF
      else if code a = 0xF4 then 0x80 \<le> code b \<and> code b \<le> 0x8F
      else continuation b)"

text \<open>\<open>tail_bytes n k bs\<close>: after \<open>k\<close> good bytes, \<open>n\<close> further continuation bytes must follow.\<close>

fun tail_bytes :: "nat \<Rightarrow> nat \<Rightarrow> bytes \<Rightarrow> utf8_head" where
  "tail_bytes 0 k _ = Whole k"
| "tail_bytes (Suc n) k [] = Cut"
| "tail_bytes (Suc n) k (b # bs) = (if continuation b then tail_bytes n (Suc k) bs else Broken k)"

definition after_second :: "(byte \<Rightarrow> bool) \<Rightarrow> nat \<Rightarrow> bytes \<Rightarrow> utf8_head" where
  "after_second ok n bs =
     (case bs of [] \<Rightarrow> Cut | b # rest \<Rightarrow> if ok b then tail_bytes n 2 rest else Broken 1)"

definition utf8_head :: "byte \<Rightarrow> bytes \<Rightarrow> utf8_head" where
  "utf8_head a bs =
     (if code a < 0x80 then Whole 1
      else if 0xC2 \<le> code a \<and> code a \<le> 0xDF then after_second continuation 0 bs
      else if 0xE0 \<le> code a \<and> code a \<le> 0xEF then after_second (second3 a) 1 bs
      else if 0xF0 \<le> code a \<and> code a \<le> 0xF4 then after_second (second4 a) 2 bs
      else Broken 1)"

lemma tail_bytes_size:
  "tail_bytes n k bs = Whole m \<Longrightarrow> m = k + n \<and> n \<le> length bs"
  "tail_bytes n k bs = Broken m \<Longrightarrow> k \<le> m \<and> m < k + n \<and> m < k + length bs"
  by (induction n k bs rule: tail_bytes.induct) (auto split: if_splits)

lemma utf8_head_size:
  "utf8_head a bs = Whole m \<Longrightarrow> 1 \<le> m \<and> m \<le> Suc (length bs)"
  "utf8_head a bs = Broken m \<Longrightarrow> 1 \<le> m \<and> m \<le> 3 \<and> m \<le> Suc (length bs)"
  by (auto simp: utf8_head_def after_second_def dest!: tail_bytes_size
      split: if_splits list.splits)

text \<open>Bytes after a decided character do not matter to it.\<close>

lemma tail_bytes_append:
  "tail_bytes n k bs \<noteq> Cut \<Longrightarrow> tail_bytes n k (bs @ xs) = tail_bytes n k bs"
  by (induction n k bs rule: tail_bytes.induct) (auto split: if_splits)

lemma utf8_head_append:
  "utf8_head a bs \<noteq> Cut \<Longrightarrow> utf8_head a (bs @ xs) = utf8_head a bs"
  by (auto simp: utf8_head_def after_second_def tail_bytes_append split: if_splits list.splits)

text \<open>Nor do they have to be there.\<close>

lemma tail_bytes_take:
  "tail_bytes n k bs = Whole m \<Longrightarrow> tail_bytes n k (take n bs) = Whole m"
  by (induction n k bs rule: tail_bytes.induct) (auto split: if_splits)

lemma utf8_head_take:
  assumes "utf8_head a bs = Whole m"
  shows "utf8_head a (take (m - 1) bs @ xs) = Whole m"
proof -
  have step: "after_second ok n (take (m - Suc 0) bs) = Whole m" if "after_second ok n bs = Whole m" for ok n
  proof (cases bs)
    case Nil
    then show ?thesis using that by (simp add: after_second_def)
  next
    case (Cons b rest)
    then have "ok b" "tail_bytes n 2 rest = Whole m" "m = Suc (Suc n)"
      using that tail_bytes_size(1) [of n 2 rest m]
      by (auto simp: after_second_def split: if_splits)
    then show ?thesis
      using Cons tail_bytes_take [of n 2 rest m] by (simp add: after_second_def)
  qed
  have "utf8_head a (take (m - 1) bs) = Whole m"
    using assms by (auto simp: utf8_head_def dest: step split: if_splits)
  then show ?thesis
    by (simp add: utf8_head_append)
qed

section \<open>Validation\<close>

text \<open>
  \<open>utf8_error bs\<close> is \<open>None\<close> where \<open>from_utf8 bs\<close> is \<open>Ok\<close>, and otherwise the pair
  \<open>(valid_up_to, error_len)\<close>.
\<close>

function utf8_error :: "bytes \<Rightarrow> (nat \<times> nat option) option" where
  "utf8_error [] = None"
| "utf8_error (a # bs) =
     (case utf8_head a bs of
        Whole n \<Rightarrow> map_option (apfst ((+) n)) (utf8_error (drop (n - 1) bs))
      | Broken n \<Rightarrow> Some (0, Some n)
      | Cut \<Rightarrow> Some (0, None))"
  by pat_completeness auto
termination
  by (relation "measure length") (auto dest: utf8_head_size)

declare utf8_error.simps(2) [simp del]

definition from_utf8 :: "bytes \<Rightarrow> bool" where
  "from_utf8 bs \<longleftrightarrow> utf8_error bs = None"

text \<open>\<open>String::from_utf8_lossy\<close>: U+FFFD for each broken sequence and one for a cut tail.\<close>

definition replacement :: bytes where
  "replacement = [CHR 0xEF, CHR 0xBF, CHR 0xBD]"

function from_utf8_lossy :: "bytes \<Rightarrow> bytes" where
  "from_utf8_lossy [] = []"
| "from_utf8_lossy (a # bs) =
     (case utf8_head a bs of
        Whole n \<Rightarrow> a # take (n - 1) bs @ from_utf8_lossy (drop (n - 1) bs)
      | Broken n \<Rightarrow> replacement @ from_utf8_lossy (drop (n - 1) bs)
      | Cut \<Rightarrow> replacement)"
  by pat_completeness auto
termination
  by (relation "measure length") (auto dest: utf8_head_size)

declare from_utf8_lossy.simps(2) [simp del]

lemma utf8_error_bound:
  "utf8_error bs = Some (v, e) \<Longrightarrow> v < length bs \<and> (\<forall>n. e = Some n \<longrightarrow> 1 \<le> n \<and> v + n \<le> length bs)"
proof (induction bs arbitrary: v rule: utf8_error.induct)
  case (2 a bs)
  show ?case
  proof (cases "utf8_head a bs")
    case (Whole n)
    then obtain w where w: "utf8_error (drop (n - 1) bs) = Some (w, e)" "v = n + w"
      using "2.prems" by (auto simp: utf8_error.simps)
    then show ?thesis
      using "2.IH" [OF Whole w(1)] utf8_head_size(1) [OF Whole] by auto
  next
    case (Broken n)
    then show ?thesis
      using "2.prems" utf8_head_size(2) [OF Broken] by (auto simp: utf8_error.simps)
  next
    case Cut
    then show ?thesis
      using "2.prems" by (auto simp: utf8_error.simps)
  qed
qed simp

lemma utf8_error_Whole:
  "utf8_head a bs = Whole n \<Longrightarrow>
     utf8_error (a # take (n - 1) bs @ xs) = map_option (apfst ((+) n)) (utf8_error xs)"
  using utf8_head_take [of a bs n xs] utf8_head_size(1) [of a bs n]
  by (auto simp: utf8_error.simps min_def not_le)

text \<open>The bytes before \<open>valid_up_to\<close> are themselves valid.\<close>

lemma from_utf8_valid_up_to:
  "utf8_error bs = Some (v, e) \<Longrightarrow> from_utf8 (take v bs)"
proof (induction bs arbitrary: v rule: utf8_error.induct)
  case (2 a bs)
  show ?case
  proof (cases "utf8_head a bs")
    case (Whole n)
    then obtain w where w: "utf8_error (drop (n - 1) bs) = Some (w, e)" "v = n + w"
      using "2.prems" by (auto simp: utf8_error.simps)
    have "take v (a # bs) = a # take (n - 1) bs @ take w (drop (n - 1) bs)"
      using utf8_head_size(1) [OF Whole] w(2) by (cases n) (simp_all add: take_add)
    then show ?thesis
      using "2.IH" [OF Whole w(1)] utf8_error_Whole [OF Whole] by (simp add: from_utf8_def)
  qed (use "2.prems" in \<open>auto simp: utf8_error.simps from_utf8_def\<close>)
qed simp

text \<open>A prefix of valid text is valid, or cut inside its last character.\<close>

lemma from_utf8_prefix:
  "from_utf8 (xs @ ys) \<Longrightarrow> utf8_error xs = None \<or> (\<exists>v. utf8_error xs = Some (v, None))"
proof (induction xs rule: utf8_error.induct)
  case (2 a bs)
  show ?case
  proof (cases "utf8_head a bs")
    case (Whole n)
    have "utf8_head a (bs @ ys) = Whole n" "n - 1 \<le> length bs"
      using Whole utf8_head_append [of a bs ys] utf8_head_size(1) [OF Whole] by auto
    then have "from_utf8 (drop (n - 1) bs @ ys)"
      using "2.prems" by (simp add: from_utf8_def utf8_error.simps)
    then show ?thesis
      using "2.IH" [OF Whole] Whole by (auto simp: utf8_error.simps)
  next
    case (Broken n)
    then have "utf8_head a (bs @ ys) = Broken n"
      using utf8_head_append [of a bs ys] by simp
    then show ?thesis
      using "2.prems" by (simp add: from_utf8_def utf8_error.simps)
  next
    case Cut
    then show ?thesis
      by (simp add: utf8_error.simps)
  qed
qed simp

lemma from_utf8_append:
  "from_utf8 xs \<Longrightarrow> from_utf8 (xs @ ys) = from_utf8 ys"
proof (induction xs rule: utf8_error.induct)
  case (2 a bs)
  show ?case
  proof (cases "utf8_head a bs")
    case (Whole n)
    have "utf8_head a (bs @ ys) = Whole n" "n - 1 \<le> length bs"
      using Whole utf8_head_append [of a bs ys] utf8_head_size(1) [OF Whole] by auto
    then show ?thesis
      using "2.IH" [OF Whole] "2.prems" Whole by (simp add: from_utf8_def utf8_error.simps)
  qed (use "2.prems" in \<open>auto simp: utf8_error.simps from_utf8_def\<close>)
qed simp

section \<open>Lossy decoding\<close>

lemma from_utf8_lossy_valid: "from_utf8 bs \<Longrightarrow> from_utf8_lossy bs = bs"
proof (induction bs rule: utf8_error.induct)
  case (2 a bs)
  show ?case
  proof (cases "utf8_head a bs")
    case (Whole n)
    then show ?thesis
      using "2.IH" [OF Whole] "2.prems" by (simp add: from_utf8_def utf8_error.simps from_utf8_lossy.simps)
  qed (use "2.prems" in \<open>auto simp: utf8_error.simps from_utf8_def\<close>)
qed simp

lemma from_utf8_replacement: "from_utf8 replacement"
  by (simp add: from_utf8_def replacement_def utf8_error.simps utf8_head_def after_second_def
      second3_def continuation_def code_def eval_nat_numeral(3) [of One])

lemma from_utf8_lossy_is_text: "from_utf8 (from_utf8_lossy bs)"
proof (induction bs rule: from_utf8_lossy.induct)
  case (2 a bs)
  show ?case
  proof (cases "utf8_head a bs")
    case (Whole n)
    then show ?thesis
      using "2.IH"(1) [OF Whole] utf8_error_Whole [OF Whole]
      by (simp add: from_utf8_lossy.simps from_utf8_def)
  next
    case (Broken n)
    then show ?thesis
      using "2.IH"(2) [OF Broken] by (simp add: from_utf8_lossy.simps from_utf8_append from_utf8_replacement)
  next
    case Cut
    then show ?thesis
      by (simp add: from_utf8_lossy.simps from_utf8_replacement)
  qed
qed (simp add: from_utf8_def)

lemma from_utf8_lossy_length: "length (from_utf8_lossy bs) \<le> 3 * length bs"
proof (induction bs rule: from_utf8_lossy.induct)
  case (2 a bs)
  show ?case
  proof (cases "utf8_head a bs")
    case (Whole n)
    then show ?thesis
      using "2.IH"(1) [OF Whole] utf8_head_size(1) [OF Whole]
      by (auto simp: from_utf8_lossy.simps min_def)
  next
    case (Broken n)
    then show ?thesis
      using "2.IH"(2) [OF Broken] utf8_head_size(2) [OF Broken]
      by (auto simp: from_utf8_lossy.simps replacement_def)
  next
    case Cut
    then show ?thesis
      by (simp add: from_utf8_lossy.simps replacement_def)
  qed
qed simp

end
