(* ===== verification/File_Protocol.thy ===== *)
theory File_Protocol
  imports Utf8 "HOL-Library.Sublist"
begin

text \<open>
  \<open>src/files/worker/protocol.rs\<close> and the binding key of \<open>src/files/locking.rs\<close>: the request a
  coordinator hands the file worker, what makes one valid, and the text a mutation would leave.
  Errors carry their \<open>ErrorKind\<close> and message.
\<close>

section \<open>Searching text\<close>

text \<open>
  \<open>str::find\<close>, \<open>str::rfind\<close> and \<open>str::replacen(_, _, 1)\<close> on the bytes of valid UTF-8 text.
\<close>

definition occurs_at :: "bytes \<Rightarrow> bytes \<Rightarrow> nat \<Rightarrow> bool" where
  "occurs_at pat s i \<longleftrightarrow> i \<le> length s \<and> prefix pat (drop i s)"

fun str_find :: "bytes \<Rightarrow> bytes \<Rightarrow> nat option" where
  "str_find pat [] = (if pat = [] then Some 0 else None)"
| "str_find pat (c # cs) =
     (if prefix pat (c # cs) then Some 0 else map_option Suc (str_find pat cs))"

fun str_rfind :: "bytes \<Rightarrow> bytes \<Rightarrow> nat option" where
  "str_rfind pat [] = (if pat = [] then Some 0 else None)"
| "str_rfind pat (c # cs) =
     (case str_rfind pat cs of
        Some i \<Rightarrow> Some (Suc i)
      | None \<Rightarrow> if prefix pat (c # cs) then Some 0 else None)"

definition replace_first :: "bytes \<Rightarrow> bytes \<Rightarrow> bytes \<Rightarrow> bytes" where
  "replace_first pat new s =
     (case str_find pat s of
        None \<Rightarrow> s
      | Some i \<Rightarrow> take i s @ new @ drop (i + length pat) s)"

lemma occurs_at_Nil: "occurs_at pat [] i \<longleftrightarrow> i = 0 \<and> pat = []"
  by (auto simp: occurs_at_def)

lemma occurs_at_Cons:
  "occurs_at pat (c # cs) i \<longleftrightarrow>
     (i = 0 \<and> prefix pat (c # cs)) \<or> (\<exists>j. i = Suc j \<and> occurs_at pat cs j)"
  by (cases i) (auto simp: occurs_at_def)

lemma str_find_least:
  "str_find pat s = Some i \<longleftrightarrow> occurs_at pat s i \<and> (\<forall>j < i. \<not> occurs_at pat s j)"
proof (induction s arbitrary: i)
  case (Cons c cs)
  then show ?case
    by (cases i) (auto simp: occurs_at_Cons less_Suc_eq_0_disj split: if_splits)
qed (auto simp: occurs_at_Nil)

lemma str_find_None: "str_find pat s = None \<longleftrightarrow> (\<forall>i. \<not> occurs_at pat s i)"
  by (induction s) (auto simp: occurs_at_Nil occurs_at_Cons)

lemma str_rfind_None: "str_rfind pat s = None \<longleftrightarrow> (\<forall>i. \<not> occurs_at pat s i)"
  by (induction s) (auto simp: occurs_at_Nil occurs_at_Cons split: option.splits)

lemma str_rfind_greatest:
  "str_rfind pat s = Some i \<longleftrightarrow> occurs_at pat s i \<and> (\<forall>j > i. \<not> occurs_at pat s j)"
proof (induction s arbitrary: i)
  case Nil
  then show ?case by (auto simp: occurs_at_Nil)
next
  case (Cons c cs)
  show ?case
  proof (cases "str_rfind pat cs")
    case None
    then have "\<not> occurs_at pat cs j" for j
      by (simp add: str_rfind_None)
    then show ?thesis
      using None by (auto simp: occurs_at_Cons)
  next
    case (Some k)
    then have k: "occurs_at pat cs k" "\<forall>j > k. \<not> occurs_at pat cs j"
      using Cons.IH [of k] by auto
    then have "i = Suc k \<longleftrightarrow> (\<exists>j. i = Suc j \<and> occurs_at pat cs j \<and> (\<forall>m > j. \<not> occurs_at pat cs m))"
      by (metis linorder_neqE_nat)
    moreover have "occurs_at pat (c # cs) i \<and> (\<forall>j > i. \<not> occurs_at pat (c # cs) j) \<longleftrightarrow>
        (\<exists>j. i = Suc j \<and> occurs_at pat cs j \<and> (\<forall>m > j. \<not> occurs_at pat cs m))"
      using k(1) by (cases i) (auto simp: occurs_at_Cons)
    ultimately show ?thesis
      using Some by auto
  qed
qed

lemma occurs_at_iff_split:
  "occurs_at pat s i \<longleftrightarrow> (\<exists>pre post. s = pre @ pat @ post \<and> length pre = i)"
proof
  assume "occurs_at pat s i"
  then obtain post where "i \<le> length s" "drop i s = pat @ post"
    by (auto simp: occurs_at_def prefix_def)
  then have "s = take i s @ pat @ post" "length (take i s) = i"
    by (metis append_take_drop_id, simp)
  then show "\<exists>pre post. s = pre @ pat @ post \<and> length pre = i"
    by blast
qed (auto simp: occurs_at_def)

lemma one_occurrence:
  "str_find pat s = Some i \<and> str_rfind pat s = Some i \<longleftrightarrow> (\<forall>j. occurs_at pat s j \<longleftrightarrow> j = i)"
  unfolding str_find_least str_rfind_greatest using linorder_neqE_nat by blast

section \<open>Requests\<close>

definition EDIT_BYTES :: nat where "EDIT_BYTES = 1024 * 1024"

datatype operation =
    Observe
  | Presence_of
  | Read_lines (read_offset: nat) (read_limit: nat)
  | Replace (op_content: string)
  | Edit (old_text: string) (new_text: string)
  | Create (op_content: string)

record guard =
  revision_contract :: nat
  expected_revision :: string
  mutation_id :: string

record request =
  path :: string
  operation :: operation
  request_guard :: "guard option"

definition bad_input :: "string \<Rightarrow> error" where
  "bad_input message = (InvalidInput, message)"

definition bad_data :: "string \<Rightarrow> error" where
  "bad_data message = (InvalidData, message)"

definition other_error :: "string \<Rightarrow> error" where
  "other_error message = (OtherKind, message)"

text \<open>\<open>locking::Key::from_wire\<close>: a key is its 64 lowercase hexadecimal digits.\<close>

definition wire_key :: "string \<Rightarrow> bool" where
  "wire_key v \<longleftrightarrow> length v = 64 \<and> list_all lower_hex v"

definition Key_from_wire :: "string \<Rightarrow> error + string" where
  "Key_from_wire v =
     (if wire_key v then Inr v else Inl (bad_data ''unsupported file binding key''))"

definition strip_prefix :: "string \<Rightarrow> string \<Rightarrow> string option" where
  "strip_prefix p v = (if prefix p v then Some (drop (length p) v) else None)"

definition revision_text :: "string \<Rightarrow> error + unit" where
  "revision_text v =
     (case strip_prefix ''cfr1:'' v of
        None \<Rightarrow> Inl (bad_input ''unsupported native revision algorithm'')
      | Some digest \<Rightarrow> rbind (Key_from_wire digest) (\<lambda>_. Inr ()))"

definition text_ok :: "string \<Rightarrow> bool" where
  "text_ok v \<longleftrightarrow> length v < EDIT_BYTES \<and> NUL \<notin> set v"

definition mutation_text :: "string \<Rightarrow> error + unit" where
  "mutation_text v =
     ensure (text_ok v)
       (bad_input ''native mutation text must be UTF-8 without NUL and smaller than 1 MiB'')"

definition identity_char :: "byte \<Rightarrow> bool" where
  "identity_char b \<longleftrightarrow> is_ascii_alphanumeric b \<or> b = CHR ''-'' \<or> b = CHR ''_''"

definition identity_ok :: "string \<Rightarrow> bool" where
  "identity_ok v \<longleftrightarrow> v \<noteq> [] \<and> length v \<le> 128 \<and> list_all identity_char v"

fun observing :: "operation \<Rightarrow> bool" where
  "observing Observe = True"
| "observing Presence_of = True"
| "observing (Read_lines _ _) = True"
| "observing _ = False"

fun creating :: "operation \<Rightarrow> bool" where
  "creating (Create _) = True"
| "creating _ = False"

fun operation_text :: "operation \<Rightarrow> error + unit" where
  "operation_text (Replace content) = mutation_text content"
| "operation_text (Create content) = mutation_text content"
| "operation_text (Edit old new) =
     rbind (mutation_text old) (\<lambda>_. rbind (mutation_text new) (\<lambda>_.
       ensure (old \<noteq> []) (bad_input ''native edit requires nonempty exact old_text'')))"
| "operation_text _ = Inr ()"

fun read_range_ok :: "operation \<Rightarrow> bool" where
  "read_range_ok (Read_lines off limit) = (off \<noteq> 0 \<and> limit \<noteq> 0 \<and> limit \<le> 5000)"
| "read_range_ok _ = True"

definition path_ok :: "string \<Rightarrow> bool" where
  "path_ok p \<longleftrightarrow> p \<noteq> [] \<and> length p \<le> 4096 \<and> NUL \<notin> set p \<and> last p \<noteq> CHR ''/''"

definition guard_ok :: "guard \<Rightarrow> bool" where
  "guard_ok g \<longleftrightarrow> revision_contract g = 1 \<and> identity_ok (mutation_id g)"

definition request_validate :: "request \<Rightarrow> error + unit" where
  "request_validate r =
     rbind (ensure (path_ok (path r))
              (bad_input ''native file path must be one bounded file path'')) (\<lambda>_.
     rbind (ensure (read_range_ok (operation r))
              (bad_input ''native read range is outside its bounds'')) (\<lambda>_.
     if observing (operation r) then
       ensure (request_guard r = None)
         (bad_input ''observation cannot carry a mutation guard'')
     else
       rbind (ok_or (request_guard r)
                (bad_input ''native mutation needs a complete guard'')) (\<lambda>g.
       rbind (ensure (guard_ok g)
                (bad_input ''unsupported native mutation guard or identity'')) (\<lambda>_.
       rbind (if creating (operation r)
              then ensure (expected_revision g = ''absent'')
                     (bad_input ''creation requires an absent precondition'')
              else revision_text (expected_revision g)) (\<lambda>_.
       operation_text (operation r))))))"

fun operation_content :: "operation \<Rightarrow> string option \<Rightarrow> error + string" where
  "operation_content (Replace content) _ = Inr content"
| "operation_content (Create content) _ = Inr content"
| "operation_content (Edit old new) source =
     rbind (ok_or source (bad_input ''native edit needs an existing snapshot'')) (\<lambda>src.
     rbind (ok_or (str_find old src)
              (bad_input ''old_text does not match the complete source'')) (\<lambda>first.
     rbind (ensure (str_rfind old src = Some first)
              (bad_input ''old_text is not unique in the complete source'')) (\<lambda>_.
     Inr (replace_first old new src))))"
| "operation_content _ _ = Inl (bad_input ''observation is not a mutation'')"

definition request_content :: "request \<Rightarrow> string option \<Rightarrow> error + string" where
  "request_content r source =
     rbind (operation_content (operation r) source) (\<lambda>v.
     rbind (mutation_text v) (\<lambda>_. Inr v))"

section \<open>What a valid request and its content are\<close>

lemma revision_text_ok:
  "revision_text v = Inr u \<longleftrightarrow> (\<exists>digest. v = ''cfr1:'' @ digest \<and> wire_key digest)"
  by (auto simp: revision_text_def strip_prefix_def Key_from_wire_def prefix_def wire_key_def
      split: option.splits)

lemma request_content_text: "request_content r source = Inr v \<Longrightarrow> text_ok v"
  by (auto simp: request_content_def mutation_text_def result_simps split: if_splits)

text \<open>Every refusal of \<open>Request::validate\<close>, and nothing else, is one of these conditions.\<close>

definition mutation_admitted :: "operation \<Rightarrow> guard \<Rightarrow> bool" where
  "mutation_admitted opn g \<longleftrightarrow>
     guard_ok g
     \<and> (if creating opn then expected_revision g = ''absent''
        else \<exists>digest. expected_revision g = ''cfr1:'' @ digest \<and> wire_key digest)
     \<and> (case opn of
          Replace c \<Rightarrow> text_ok c
        | Create c \<Rightarrow> text_ok c
        | Edit old new \<Rightarrow> text_ok old \<and> text_ok new \<and> old \<noteq> []
        | _ \<Rightarrow> False)"

lemma request_validate_iff:
  "request_validate r = Inr u \<longleftrightarrow>
     path_ok (path r) \<and> read_range_ok (operation r)
     \<and> (if observing (operation r) then request_guard r = None
        else \<exists>g. request_guard r = Some g \<and> mutation_admitted (operation r) g)"
  by (cases "operation r")
     (auto simp: request_validate_def mutation_admitted_def result_simps revision_text_ok
        mutation_text_def split: if_splits)

lemma request_validate_mutation:
  assumes "request_validate r = Inr u" "request_guard r = Some g"
  shows "\<not> observing (operation r)" "mutation_admitted (operation r) g"
  using assms by (auto simp: request_validate_iff split: if_splits)

lemma edit_exact:
  assumes "operation r = Edit old new"
  shows "request_content r (Some src) = Inr out \<longleftrightarrow>
    (\<exists>pre post. src = pre @ old @ post
       \<and> (\<forall>pre' post'. src = pre' @ old @ post' \<longrightarrow> pre' = pre \<and> post' = post)
       \<and> out = pre @ new @ post \<and> text_ok out)"
proof -
  have lhs: "request_content r (Some src) = Inr out \<longleftrightarrow> (\<exists>i. (\<forall>j. occurs_at old src j \<longleftrightarrow> j = i)
      \<and> out = take i src @ new @ drop (i + length old) src \<and> text_ok out)"
    unfolding one_occurrence [symmetric]
    using assms
    by (auto simp: request_content_def result_simps mutation_text_def replace_first_def)
  show ?thesis
    unfolding lhs occurs_at_iff_split
  proof (intro iffI; elim exE conjE)
    fix i
    assume only: "\<forall>j. (\<exists>pre post. src = pre @ old @ post \<and> length pre = j) = (j = i)"
      and out: "out = take i src @ new @ drop (i + length old) src" "text_ok out"
    then obtain pre post where at: "src = pre @ old @ post" "length pre = i"
      by blast
    have "pre' = pre \<and> post' = post" if "src = pre' @ old @ post'" for pre' post'
    proof -
      have "length pre' = length pre"
        using only that at(2) by blast
      then show ?thesis
        using that at(1) by simp
    qed
    then show "\<exists>pre post. src = pre @ old @ post
       \<and> (\<forall>pre' post'. src = pre' @ old @ post' \<longrightarrow> pre' = pre \<and> post' = post)
       \<and> out = pre @ new @ post \<and> text_ok out"
      using at out by auto
  next
    fix pre post
    assume at: "src = pre @ old @ post" "out = pre @ new @ post" "text_ok out"
      and only: "\<forall>pre' post'. src = pre' @ old @ post' \<longrightarrow> pre' = pre \<and> post' = post"
    have "(\<exists>pre post. src = pre @ old @ post \<and> length pre = j) = (j = length pre)" for j
      using at(1) only by blast
    moreover have "out = take (length pre) src @ new @ drop (length pre + length old) src"
      using at by simp
    ultimately show "\<exists>i. (\<forall>j. (\<exists>pre post. src = pre @ old @ post \<and> length pre = j) = (j = i))
        \<and> out = take i src @ new @ drop (i + length old) src \<and> text_ok out"
      using at(3) by blast
  qed
qed

text \<open>
  C12: an exact edit succeeds precisely when \<open>old_text\<close> occurs once in the whole source, counting
  overlapping occurrences, and then it changes that occurrence and nothing around it; the result is
  again below the size cap and free of NUL.
\<close>

theorem edit_content_exact:
  assumes "operation r = Edit old new"
  shows "request_content r (Some src) = Inr out \<longleftrightarrow>
    (\<exists>pre post. src = pre @ old @ post
       \<and> (\<forall>pre' post'. src = pre' @ old @ post' \<longrightarrow> pre' = pre \<and> post' = post)
       \<and> out = pre @ new @ post \<and> text_ok out)"
  using assms by (rule edit_exact)

definition demo_edit :: request where
  "demo_edit = \<lparr>path = ''a/b'', operation = Edit ''cd'' ''X'',
     request_guard = Some \<lparr>revision_contract = 1,
       expected_revision = ''cfr1:'' @ replicate 64 (CHR ''0''), mutation_id = ''m-1''\<rparr>\<rparr>"

theorem edit_content_exact_witness:
  "request_content demo_edit (Some ''abcde'') = Inr ''abXe''
   \<and> (\<exists>pre post. ''abcde'' = pre @ ''cd'' @ post \<and> ''abXe'' = pre @ ''X'' @ post)"
proof -
  have run: "request_content demo_edit (Some ''abcde'') = Inr ''abXe''"
    by (simp add: demo_edit_def request_content_def replace_first_def mutation_text_def text_ok_def
        EDIT_BYTES_def NUL_def)
  have "operation demo_edit = Edit ''cd'' ''X''"
    by (simp add: demo_edit_def)
  from edit_content_exact [OF this, of "''abcde''" "''abXe''"] run show ?thesis
    by blast
qed

end
