(* ===== verification/Kernel.thy ===== *)
theory Kernel
  imports File_Protocol
begin

text \<open>
  The operating system as the file worker sees it.  The kernel is not part of the program, so it is a
  parameter: a record of answers, each an arbitrary function of the whole history of calls made so
  far.  Nothing is assumed of it here, so other processes may change any file between any two calls;
  a theorem that needs a documented behaviour of a call names it as a hypothesis.  The history itself
  (each call with whether it succeeded) is what the safety theorems speak about.
\<close>

unbundle bit_operations_syntax

section \<open>Metadata\<close>

record stat =
  st_dev :: "64 word"
  st_ino :: "64 word"
  st_size :: "64 word"
  st_mode :: "32 word"
  st_uid :: "32 word"
  st_gid :: "32 word"
  st_nlink :: "64 word"
  st_mtime :: "64 word"
  st_mtime_nsec :: "64 word"
  st_ctime :: "64 word"
  st_ctime_nsec :: "64 word"

text \<open>
  The fields keep their width; \<open>st_size\<close> is the signed one the code compares with zero, read with
  \<^const>\<open>sint\<close>.  \<open>FileType::from_raw_mode\<close> masks a mode with \<open>S_IFMT\<close>, \<open>0o170000\<close>.
\<close>

definition regular_mode :: "32 word \<Rightarrow> bool" where
  "regular_mode mode \<longleftrightarrow> mode AND 0xF000 = 0x8000"

definition directory_mode :: "32 word \<Rightarrow> bool" where
  "directory_mode mode \<longleftrightarrow> mode AND 0xF000 = 0x4000"

text \<open>The masks the code applies: \<open>0o777\<close>, \<open>0o7777\<close>, \<open>0o7000\<close> and \<open>0o200\<close>.\<close>

definition permission_bits :: "32 word \<Rightarrow> 32 word" where "permission_bits mode = mode AND 0x1FF"
definition all_mode_bits :: "32 word \<Rightarrow> 32 word" where "all_mode_bits mode = mode AND 0xFFF"
definition privileged_bits :: "32 word \<Rightarrow> 32 word" where "privileged_bits mode = mode AND 0xE00"
definition owner_writable :: "32 word \<Rightarrow> bool" where "owner_writable mode \<longleftrightarrow> mode AND 0x80 \<noteq> 0"

definition same_object :: "stat \<Rightarrow> stat \<Rightarrow> bool" where
  "same_object a b \<longleftrightarrow> st_dev a = st_dev b \<and> st_ino a = st_ino b"

section \<open>Calls, answers and the history\<close>

datatype errno = NOENT | NODATA | EXIST | WOULDBLOCK | INTR | Errno nat

type_synonym fd = nat

datatype sys_call =
    Open_dir string
  | Open_proc_fd fd
  | Fstat fd
  | Statat fd string bool
  | Openat fd string bool bool
  | Open_path fd string
  | Open_root string
  | Open_subdir fd string
  | Open_new fd string
  | Open_self fd
  | Dup fd
  | Get_fd_flags fd
  | Read_to_end fd nat
  | Read_chunks fd
  | Fstatfs fd
  | Default_acl fd
  | List_xattr fd
  | Tmpfile fd "32 word"
  | Write_all fd bytes
  | Fchown fd "32 word"
  | Fchmod fd "32 word"
  | Sync_all fd
  | Linkat fd fd string
  | Renameat fd string string
  | Unlinkat fd string
  | Fsync fd
  | Read_dir fd
  | Read_entry fd
  | Flock fd
  | Mkdirat fd string
  | Sleep duration
  | Close fd

type_synonym event = "sys_call \<times> bool"
type_synonym history = "event list"

record kernel =
  k_open_dir :: "history \<Rightarrow> string \<Rightarrow> errno + fd"
  k_open_proc_fd :: "history \<Rightarrow> fd \<Rightarrow> errno + fd"
  k_fstat :: "history \<Rightarrow> fd \<Rightarrow> errno + stat"
  k_statat :: "history \<Rightarrow> fd \<Rightarrow> string \<Rightarrow> bool \<Rightarrow> errno + stat"
  k_openat :: "history \<Rightarrow> fd \<Rightarrow> string \<Rightarrow> bool \<Rightarrow> bool \<Rightarrow> errno + fd"
  k_open_path :: "history \<Rightarrow> fd \<Rightarrow> string \<Rightarrow> errno + fd"
  k_open_root :: "history \<Rightarrow> string \<Rightarrow> errno + fd"
  k_open_subdir :: "history \<Rightarrow> fd \<Rightarrow> string \<Rightarrow> errno + fd"
  k_open_new :: "history \<Rightarrow> fd \<Rightarrow> string \<Rightarrow> errno + fd"
  k_open_self :: "history \<Rightarrow> fd \<Rightarrow> errno + fd"
  k_dup :: "history \<Rightarrow> fd \<Rightarrow> errno + fd"
  k_cloexec :: "history \<Rightarrow> fd \<Rightarrow> errno + bool"
  k_read_to_end :: "history \<Rightarrow> fd \<Rightarrow> nat \<Rightarrow> errno + bytes"
  k_reads :: "history \<Rightarrow> fd \<Rightarrow> (errno + bytes) list"
  k_fstatfs :: "history \<Rightarrow> fd \<Rightarrow> errno + nat"
  k_default_acl :: "history \<Rightarrow> fd \<Rightarrow> errno + nat"
  k_list_xattr :: "history \<Rightarrow> fd \<Rightarrow> errno + nat"
  k_tmpfile :: "history \<Rightarrow> fd \<Rightarrow> 32 word \<Rightarrow> errno + fd"
  k_write_all :: "history \<Rightarrow> fd \<Rightarrow> bytes \<Rightarrow> errno + unit"
  k_fchown :: "history \<Rightarrow> fd \<Rightarrow> 32 word \<Rightarrow> errno + unit"
  k_fchmod :: "history \<Rightarrow> fd \<Rightarrow> 32 word \<Rightarrow> errno + unit"
  k_sync_all :: "history \<Rightarrow> fd \<Rightarrow> errno + unit"
  k_linkat :: "history \<Rightarrow> fd \<Rightarrow> fd \<Rightarrow> string \<Rightarrow> errno + unit"
  k_renameat :: "history \<Rightarrow> fd \<Rightarrow> string \<Rightarrow> string \<Rightarrow> errno + unit"
  k_unlinkat :: "history \<Rightarrow> fd \<Rightarrow> string \<Rightarrow> errno + unit"
  k_fsync :: "history \<Rightarrow> fd \<Rightarrow> errno + unit"
  k_read_dir :: "history \<Rightarrow> fd \<Rightarrow> errno + (errno + string) list"
  k_flock :: "history \<Rightarrow> fd \<Rightarrow> errno + unit"
  k_mkdirat :: "history \<Rightarrow> fd \<Rightarrow> string \<Rightarrow> errno + unit"
  k_now :: "history \<Rightarrow> instant"
  k_cancelled :: "history \<Rightarrow> bool"
  k_euid :: "32 word"
  k_pid :: nat
  k_strerror :: "errno \<Rightarrow> string"
  k_sha256 :: "bytes \<Rightarrow> string"

record world =
  history :: history
  names :: nat

text \<open>\<open>io::Error::from(Errno)\<close>.\<close>

fun errno_kind :: "errno \<Rightarrow> io_kind" where
  "errno_kind NOENT = NotFound"
| "errno_kind EXIST = AlreadyExists"
| "errno_kind WOULDBLOCK = WouldBlock"
| "errno_kind INTR = Interrupted"
| "errno_kind _ = OtherKind"

definition errno_error :: "kernel \<Rightarrow> errno \<Rightarrow> error" where
  "errno_error K e = (errno_kind e, k_strerror K e)"

text \<open>Calls that can change what a directory entry names or what a file holds.\<close>

fun mutates :: "sys_call \<Rightarrow> bool" where
  "mutates (Open_new _ _) = True"
| "mutates (Tmpfile _ _) = True"
| "mutates (Write_all _ _) = True"
| "mutates (Fchown _ _) = True"
| "mutates (Fchmod _ _) = True"
| "mutates (Linkat _ _ _) = True"
| "mutates (Renameat _ _ _) = True"
| "mutates (Unlinkat _ _) = True"
| "mutates (Mkdirat _ _) = True"
| "mutates _ = False"

definition harmless :: "event \<Rightarrow> bool" where
  "harmless e \<longleftrightarrow> \<not> mutates (fst e)"

section \<open>Programs over the kernel\<close>

text \<open>
  A fallible program over a state: it returns its \<open>Result\<close> and the state it leaves.  The file worker's
  programs run over the kernel and fail with an \<open>io::Error\<close>; other components have their own state
  or their own error type.
\<close>

type_synonym ('s, 'e, 'a) prog = "'s \<Rightarrow> ('e + 'a) \<times> 's"
type_synonym 'a sys = "(world, error, 'a) prog"

definition sreturn :: "'a \<Rightarrow> ('s, 'e, 'a) prog" where
  "sreturn a w = (Inr a, w)"

definition sfail :: "'e \<Rightarrow> ('s, 'e, 'a) prog" where
  "sfail e w = (Inl e, w)"

definition sbind :: "('s, 'e, 'a) prog \<Rightarrow> ('a \<Rightarrow> ('s, 'e, 'b) prog) \<Rightarrow> ('s, 'e, 'b) prog" where
  "sbind m f w = (case m w of (Inl e, w') \<Rightarrow> (Inl e, w') | (Inr a, w') \<Rightarrow> f a w')"

text \<open>\<open>stry m f\<close> runs \<open>m\<close> and hands \<open>f\<close> its \<open>Result\<close>: where the code matches instead of using \<open>?\<close>.\<close>

definition stry :: "('s, 'e, 'a) prog \<Rightarrow> ('e + 'a \<Rightarrow> ('s, 'f, 'b) prog) \<Rightarrow> ('s, 'f, 'b) prog" where
  "stry m f w = (case m w of (r, w') \<Rightarrow> f r w')"

definition slift :: "'e + 'a \<Rightarrow> ('s, 'e, 'a) prog" where
  "slift r w = (r, w)"

definition scheck :: "bool \<Rightarrow> 'e \<Rightarrow> ('s, 'e, unit) prog" where
  "scheck ok e = slift (ensure ok e)"

text \<open>A call whose errno the code inspects, and one it converts with \<open>?\<close>.\<close>

definition ask :: "sys_call \<Rightarrow> (history \<Rightarrow> errno + 'a) \<Rightarrow> (world, 'e, errno + 'a) prog" where
  "ask c answer w =
     (let r = answer (history w) in (Inr r, w\<lparr>history := history w @ [(c, is_ok r)]\<rparr>))"

definition call :: "kernel \<Rightarrow> sys_call \<Rightarrow> (history \<Rightarrow> errno + 'a) \<Rightarrow> 'a sys" where
  "call K c answer w =
     (let r = answer (history w) in
        (map_err (errno_error K) r, w\<lparr>history := history w @ [(c, is_ok r)]\<rparr>))"

text \<open>A call whose errno the code converts with a function of its own, \<open>map_err(f)?\<close>.\<close>

definition call_as ::
  "(errno \<Rightarrow> 'e) \<Rightarrow> sys_call \<Rightarrow> (history \<Rightarrow> errno + 'a) \<Rightarrow> (world, 'e, 'a) prog" where
  "call_as g c answer w =
     (let r = answer (history w) in (map_err g r, w\<lparr>history := history w @ [(c, is_ok r)]\<rparr>))"

definition sys_fstat :: "kernel \<Rightarrow> fd \<Rightarrow> stat sys" where
  "sys_fstat K f = call K (Fstat f) (\<lambda>h. k_fstat K h f)"

definition sys_open_dir :: "kernel \<Rightarrow> string \<Rightarrow> fd sys" where
  "sys_open_dir K p = call K (Open_dir p) (\<lambda>h. k_open_dir K h p)"

lemma sbind_sreturn [simp]: "sbind (sreturn a) f = f a"
  by (rule ext) (simp add: sbind_def sreturn_def)

lemma sbind_sfail [simp]: "sbind (sfail e) f = sfail e"
  by (rule ext) (simp add: sbind_def sfail_def)

lemma sbind_assoc: "sbind (sbind m f) g = sbind m (\<lambda>a. sbind (f a) g)"
  by (rule ext) (auto simp: sbind_def split: prod.splits sum.splits)

section \<open>Reasoning about runs\<close>

named_theorems sys_ok \<open>what a successful run of a program says about its parts\<close>

lemma sbind_ok [sys_ok]:
  "sbind m f w = (Inr b, w') \<longleftrightarrow> (\<exists>a u. m w = (Inr a, u) \<and> f a u = (Inr b, w'))"
  by (auto simp: sbind_def split: prod.splits sum.splits)

lemma sreturn_ok [sys_ok]: "sreturn a w = (r, w') \<longleftrightarrow> r = Inr a \<and> w' = w"
  by (auto simp: sreturn_def)

lemma sfail_ok [sys_ok]: "sfail e w = (r, w') \<longleftrightarrow> r = Inl e \<and> w' = w"
  by (auto simp: sfail_def)

lemma slift_ok [sys_ok]: "slift x w = (r, w') \<longleftrightarrow> x = r \<and> w' = w"
  by (auto simp: slift_def)

lemma scheck_ok [sys_ok]: "scheck c e w = (Inr u, w') \<longleftrightarrow> c \<and> w' = w"
  by (auto simp: scheck_def slift_def)

lemma stry_ok [sys_ok]:
  "stry m f w = (r, w') \<longleftrightarrow> (\<exists>x u. m w = (x, u) \<and> f x u = (r, w'))"
  by (auto simp: stry_def split: prod.splits)

lemma call_ok [sys_ok]:
  "call K c answer w = (Inr a, w') \<longleftrightarrow>
     answer (history w) = Inr a \<and> w' = w\<lparr>history := history w @ [(c, True)]\<rparr>"
  by (auto simp: call_def Let_def)

lemma call_as_ok [sys_ok]:
  "call_as g c answer w = (Inr a, w') \<longleftrightarrow>
     answer (history w) = Inr a \<and> w' = w\<lparr>history := history w @ [(c, True)]\<rparr>"
  by (auto simp: call_as_def Let_def)

lemma ask_ok [sys_ok]:
  "ask c answer w = (r, w') \<longleftrightarrow>
     r = Inr (answer (history w))
     \<and> w' = w\<lparr>history := history w @ [(c, is_ok (answer (history w)))]\<rparr>"
  by (auto simp: ask_def Let_def)

text \<open>
  \<open>issues P m\<close>: every event a run of \<open>m\<close> adds to the history satisfies \<open>P\<close>.
\<close>

definition issues :: "(event \<Rightarrow> bool) \<Rightarrow> (world, 'e, 'a) prog \<Rightarrow> bool" where
  "issues P m \<longleftrightarrow> (\<forall>w. \<exists>es. history (snd (m w)) = history w @ es \<and> list_all P es)"

named_theorems issues_intros \<open>how \<open>issues\<close> composes\<close>

lemma issuesD:
  assumes "issues P m" "m w = (r, w')"
  obtains es where "history w' = history w @ es" "list_all P es"
  using assms by (metis issues_def snd_conv)

lemma issues_return [issues_intros, simp]: "issues P (sreturn a)"
  by (simp add: issues_def sreturn_def)

lemma issues_fail [issues_intros, simp]: "issues P (sfail e)"
  by (simp add: issues_def sfail_def)

lemma issues_lift [issues_intros, simp]: "issues P (slift r)"
  by (simp add: issues_def slift_def)

lemma issues_check [issues_intros, simp]: "issues P (scheck c e)"
  by (simp add: scheck_def)

lemma issues_try [issues_intros]:
  assumes m: "issues P m" and f: "\<And>x. issues P (f x)"
  shows "issues P (stry m f)"
  unfolding issues_def
proof
  fix w
  obtain x u where run: "m w = (x, u)"
    by fastforce
  obtain es where "history u = history w @ es" "list_all P es"
    using m run by (rule issuesD)
  moreover obtain fs where "history (snd (f x u)) = history u @ fs" "list_all P fs"
    using f [of x] by (auto simp: issues_def)
  ultimately show "\<exists>es. history (snd (stry m f w)) = history w @ es \<and> list_all P es"
    using run by (simp add: stry_def)
qed

lemma sbind_as_stry: "sbind m f = stry m (\<lambda>r. case r of Inl e \<Rightarrow> sfail e | Inr a \<Rightarrow> f a)"
  by (rule ext) (auto simp: sbind_def stry_def sfail_def split: prod.splits sum.splits)

lemma issues_bind [issues_intros]:
  assumes "issues P m" "\<And>a. issues P (f a)"
  shows "issues P (sbind m f)"
  unfolding sbind_as_stry by (rule issues_try) (auto simp: assms split: sum.splits)

lemma issues_ask [issues_intros]:
  "P (c, True) \<Longrightarrow> P (c, False) \<Longrightarrow> issues P (ask c answer)"
  by (auto simp: issues_def ask_def Let_def) (metis (full_types))

lemma issues_call [issues_intros]:
  "P (c, True) \<Longrightarrow> P (c, False) \<Longrightarrow> issues P (call K c answer)"
  by (auto simp: issues_def call_def Let_def) (metis (full_types))

lemma issues_call_as [issues_intros]:
  "P (c, True) \<Longrightarrow> P (c, False) \<Longrightarrow> issues P (call_as g c answer)"
  by (auto simp: issues_def call_as_def Let_def) (metis (full_types))

lemma issues_if [issues_intros]:
  "(b \<Longrightarrow> issues P m) \<Longrightarrow> (\<not> b \<Longrightarrow> issues P n) \<Longrightarrow> issues P (if b then m else n)"
  by simp

lemma issues_option [issues_intros]:
  "(x = None \<Longrightarrow> issues P m) \<Longrightarrow> (\<And>a. x = Some a \<Longrightarrow> issues P (f a)) \<Longrightarrow>
     issues P (case x of None \<Rightarrow> m | Some a \<Rightarrow> f a)"
  by (cases x) auto

lemma issues_sum [issues_intros]:
  "(\<And>e. x = Inl e \<Longrightarrow> issues P (g e)) \<Longrightarrow> (\<And>a. x = Inr a \<Longrightarrow> issues P (f a)) \<Longrightarrow>
     issues P (case x of Inl e \<Rightarrow> g e | Inr a \<Rightarrow> f a)"
  by (cases x) auto

lemma issues_mono: "issues P m \<Longrightarrow> (\<And>e. P e \<Longrightarrow> Q e) \<Longrightarrow> issues Q m"
  unfolding issues_def by (metis list.pred_mono_strong)

end
