(* ===== verification/File_Snapshot.thy ===== *)
theory File_Snapshot
  imports Kernel
begin

text \<open>
  \<open>src/files/worker/snapshot.rs\<close>, \<open>src/files/worker/presence.rs\<close> and the bindings of
  \<open>src/files/locking.rs\<close>: how a worker binds a path to a parent directory and a leaf, acquires a
  consistent snapshot of the leaf and reports it, and what the coordinator demands of the report.
\<close>

section \<open>Fingerprints and revisions\<close>

definition le64 :: "64 word \<Rightarrow> bytes" where
  "le64 v = to_le_bytes 8 (unat v)"

definition le32 :: "32 word \<Rightarrow> bytes" where
  "le32 v = to_le_bytes 4 (unat v)"

definition fingerprint :: "stat \<Rightarrow> bytes" where
  "fingerprint s =
     le64 (st_dev s) @ le64 (st_ino s) @ le64 (st_size s)
     @ le32 (st_mode s) @ le32 (st_uid s) @ le32 (st_gid s)
     @ le64 (st_nlink s) @ le64 (st_mtime s) @ le64 (st_mtime_nsec s)
     @ le64 (st_ctime s) @ le64 (st_ctime_nsec s)"

lemma le_inject [simp, codec_simps]: "le64 a = le64 b \<longleftrightarrow> a = b" "le32 c = le32 d \<longleftrightarrow> c = d"
proof -
  have "unat a < 256 ^ 8" "unat b < 256 ^ 8" "unat c < 256 ^ 4" "unat d < 256 ^ 4"
    by (rule less_le_trans [OF unsigned_less]; simp)+
  then show "le64 a = le64 b \<longleftrightarrow> a = b" "le32 c = le32 d \<longleftrightarrow> c = d"
    unfolding le64_def le32_def by (simp_all only: to_le_bytes_inject word_unat_eq_iff)
qed

lemma le_length [simp, codec_simps]: "length (le64 a) = 8" "length (le32 c) = 4"
  by (simp_all add: le64_def le32_def)

text \<open>Equal fingerprints are equal metadata: the encodings are of fixed width.\<close>

lemma fingerprint_inject [simp]: "fingerprint a = fingerprint b \<longleftrightarrow> a = b"
  by (cases a; cases b) (simp add: fingerprint_def)

definition snapshot_revision :: "kernel \<Rightarrow> string \<Rightarrow> stat \<Rightarrow> bytes \<Rightarrow> string" where
  "snapshot_revision K key meta bs =
     ''cfr1:'' @ k_sha256 K (''casper:source-revision:1'' @ [NUL] @ key @ fingerprint meta @ bs)"

section \<open>Bindings\<close>

definition leaf_ok :: "string \<Rightarrow> bool" where
  "leaf_ok l \<longleftrightarrow> l \<noteq> [] \<and> length l \<le> 255 \<and> l \<noteq> ''.'' \<and> l \<noteq> ''..''
     \<and> CHR ''/'' \<notin> set l \<and> NUL \<notin> set l"

definition cloexec :: "kernel \<Rightarrow> fd \<Rightarrow> unit sys" where
  "cloexec K f =
     sbind (call K (Get_fd_flags f) (\<lambda>h. k_cloexec K h f)) (\<lambda>set.
       scheck set (bad_data ''file lease descriptors must be close-on-exec''))"

definition live_parent :: "kernel \<Rightarrow> fd \<Rightarrow> stat sys" where
  "live_parent K f =
     sbind (sys_fstat K f) (\<lambda>meta.
     sbind (scheck (directory_mode (st_mode meta) \<and> st_nlink meta \<noteq> 0)
              (bad_data ''file binding parent is not a live directory'')) (\<lambda>_.
     sbind (cloexec K f) (\<lambda>_. sreturn meta)))"

record binding =
  bound_parent :: fd
  key :: string

definition Binding_from_parent :: "kernel \<Rightarrow> fd \<Rightarrow> string \<Rightarrow> binding sys" where
  "Binding_from_parent K f leaf =
     sbind (scheck (leaf_ok leaf) (bad_data ''file binding needs one bounded leaf name'')) (\<lambda>_.
     sbind (live_parent K f) (\<lambda>meta.
     sreturn \<lparr>bound_parent = f,
       key = k_sha256 K (''casper:file-binding:1'' @ [NUL]
               @ le64 (st_dev meta) @ le64 (st_ino meta) @ leaf)\<rparr>))"

definition binding_validate :: "kernel \<Rightarrow> binding \<Rightarrow> unit sys" where
  "binding_validate K b = sbind (live_parent K (bound_parent b)) (\<lambda>_. sreturn ())"

section \<open>Resolution\<close>

record resolved =
  binding :: binding
  parent :: fd
  named_parent :: string
  leaf :: string

definition split_path :: "string \<Rightarrow> string \<times> string" where
  "split_path p =
     (case str_rfind ''/'' p of
        None \<Rightarrow> (''.'', p)
      | Some i \<Rightarrow> (if i = 0 then ''/'' else take i p, drop (Suc i) p))"

definition Resolved_bind :: "kernel \<Rightarrow> string \<Rightarrow> resolved sys" where
  "Resolved_bind K p =
     (let (parent_path, name) = split_path p in
      sbind (sys_open_dir K parent_path) (\<lambda>dir.
      sbind (call K (Dup dir) (\<lambda>h. k_dup K h dir)) (\<lambda>clone.
      sbind (Binding_from_parent K clone name) (\<lambda>b.
      sreturn \<lparr>binding = b, parent = dir, named_parent = parent_path, leaf = name\<rparr>))))"

definition single_regular :: "stat \<Rightarrow> bool" where
  "single_regular s \<longleftrightarrow> regular_mode (st_mode s) \<and> st_nlink s = 1"

definition editable_size :: "stat \<Rightarrow> bool" where
  "editable_size s \<longleftrightarrow> 0 \<le> sint (st_size s) \<and> unat (st_size s) < EDIT_BYTES"

definition not_single :: error where
  "not_single =
     bad_data ''native snapshots require a single-linked regular file without a leaf symlink''"

definition too_large :: error where
  "too_large = bad_data ''editable text must be smaller than 1 MiB''"

definition Resolved_resolve :: "kernel \<Rightarrow> string \<Rightarrow> bool \<Rightarrow> resolved sys" where
  "Resolved_resolve K p creation =
     sbind (Resolved_bind K p) (\<lambda>R.
     sbind (ask (Statat (parent R) (leaf R) True)
              (\<lambda>h. k_statat K h (parent R) (leaf R) True)) (\<lambda>answer.
     if answer = Inl NOENT \<and> creation then sreturn R
     else
       sbind (slift (map_err (errno_error K) answer)) (\<lambda>meta.
       if creation then sfail (AlreadyExists, ''native creation target already exists'')
       else
         sbind (scheck (single_regular meta) not_single) (\<lambda>_.
         sbind (scheck (editable_size meta) too_large) (\<lambda>_.
         sreturn R)))))"

definition validate_parent :: "kernel \<Rightarrow> resolved \<Rightarrow> unit sys" where
  "validate_parent K R =
     sbind (binding_validate K (binding R)) (\<lambda>_.
     sbind (sys_open_dir K (named_parent R)) (\<lambda>named.
     sbind (sys_fstat K (parent R)) (\<lambda>actual.
     sbind (sys_fstat K named) (\<lambda>meta.
     scheck (same_object actual meta) (bad_data ''native file parent binding changed'')))))"

section \<open>Acquiring a snapshot\<close>

record snapshot =
  snap_contract :: nat
  snap_path_key :: string
  revision :: string
  coverage :: string
  source_text :: string
  source_bytes :: nat

record acquired =
  snap :: snapshot
  source_file :: fd
  metadata :: stat

definition bad_text :: error where
  "bad_text = bad_data ''editable text must be UTF-8 without NUL''"

definition acquire :: "kernel \<Rightarrow> resolved \<Rightarrow> bool \<Rightarrow> acquired sys" where
  "acquire K R writable =
     sbind (validate_parent K R) (\<lambda>_.
     sbind (call K (Openat (parent R) (leaf R) writable True)
              (\<lambda>h. k_openat K h (parent R) (leaf R) writable True)) (\<lambda>f.
     sbind (sys_fstat K f) (\<lambda>before.
     sbind (scheck (single_regular before) not_single) (\<lambda>_.
     sbind (scheck (editable_size before) too_large) (\<lambda>_.
     sbind (call K (Read_to_end f EDIT_BYTES)
              (\<lambda>h. map_sum id (take EDIT_BYTES) (k_read_to_end K h f EDIT_BYTES))) (\<lambda>bs.
     sbind (sys_fstat K f) (\<lambda>after.
     sbind (call K (Statat (parent R) (leaf R) True)
              (\<lambda>h. k_statat K h (parent R) (leaf R) True)) (\<lambda>named.
     sbind (scheck (fingerprint before = fingerprint after
                    \<and> fingerprint after = fingerprint named
                    \<and> length bs = unat (st_size after))
              (bad_data ''native source changed during snapshot acquisition'')) (\<lambda>_.
     sbind (validate_parent K R) (\<lambda>_.
     sbind (scheck (from_utf8 bs) bad_text) (\<lambda>_.
     sbind (scheck (NUL \<notin> set bs) bad_text) (\<lambda>_.
     sreturn \<lparr>
       snap = \<lparr>snap_contract = 1, snap_path_key = key (binding R),
         revision = snapshot_revision K (key (binding R)) after bs,
         coverage = ''snapshot'', source_text = bs, source_bytes = length bs\<rparr>,
       source_file = f, metadata = after\<rparr>))))))))))))"

definition capture :: "kernel \<Rightarrow> resolved \<Rightarrow> snapshot sys" where
  "capture K R = sbind (acquire K R False) (\<lambda>a. sreturn (snap a))"

definition snapshot_validate :: "string \<Rightarrow> snapshot \<Rightarrow> error + unit" where
  "snapshot_validate k s =
     rbind (ensure (snap_contract s = 1 \<and> snap_path_key s = k \<and> coverage s = ''snapshot''
                    \<and> source_bytes s = length (source_text s) \<and> source_bytes s < EDIT_BYTES
                    \<and> NUL \<notin> set (source_text s)
                    \<and> length (revision s) = 69 \<and> prefix ''cfr1:'' (revision s))
              (bad_data ''native snapshot reply is incomplete or unsupported'')) (\<lambda>_.
     rbind (Key_from_wire (drop 5 (revision s))) (\<lambda>_. Inr ()))"

section \<open>Presence\<close>

datatype presence_state = Absent | Present

record presence_report =
  pres_contract :: nat
  pres_path_key :: string
  state :: presence_state

definition presence :: "kernel \<Rightarrow> resolved \<Rightarrow> presence_report sys" where
  "presence K R =
     sbind (validate_parent K R) (\<lambda>_.
     sbind (ask (Statat (parent R) (leaf R) True)
              (\<lambda>h. k_statat K h (parent R) (leaf R) True)) (\<lambda>answer.
     sbind (case answer of
              Inr _ \<Rightarrow> sreturn Present
            | Inl e \<Rightarrow> if e = NOENT then sreturn Absent else sfail (errno_error K e)) (\<lambda>st.
     sbind (validate_parent K R) (\<lambda>_.
     sreturn \<lparr>pres_contract = 1, pres_path_key = key (binding R), state = st\<rparr>))))"

definition presence_validate :: "string \<Rightarrow> presence_report \<Rightarrow> error + unit" where
  "presence_validate k p =
     rbind (ensure (pres_contract p = 1 \<and> pres_path_key p = k)
              (bad_data ''native presence reply has an unsupported version or binding'')) (\<lambda>_.
     rbind (Key_from_wire (pres_path_key p)) (\<lambda>_. Inr ()))"

section \<open>Resolution and acquisition only look\<close>

lemmas look_defs = sys_fstat_def sys_open_dir_def cloexec_def live_parent_def binding_validate_def
  validate_parent_def

lemma live_parent_harmless [issues_intros]: "issues harmless (live_parent K f)"
  unfolding look_defs by (intro issues_intros; simp add: harmless_def)

lemma validate_parent_harmless [issues_intros]: "issues harmless (validate_parent K R)"
  unfolding look_defs by (intro issues_intros; simp add: harmless_def)

lemma acquire_harmless [issues_intros]: "issues harmless (acquire K R writable)"
  unfolding acquire_def sys_fstat_def by (intro issues_intros; simp add: harmless_def)

lemma capture_harmless [issues_intros]: "issues harmless (capture K R)"
  unfolding capture_def by (intro issues_intros)

lemma presence_harmless [issues_intros]: "issues harmless (presence K R)"
  unfolding presence_def by (intro issues_intros; simp add: harmless_def)

lemma Binding_from_parent_harmless [issues_intros]: "issues harmless (Binding_from_parent K f l)"
  unfolding Binding_from_parent_def by (intro issues_intros)

lemma Resolved_bind_harmless [issues_intros]: "issues harmless (Resolved_bind K p)"
  unfolding Resolved_bind_def split_beta Let_def sys_open_dir_def
  by (intro issues_intros; simp add: harmless_def)

lemma Resolved_resolve_harmless [issues_intros]: "issues harmless (Resolved_resolve K p c)"
  unfolding Resolved_resolve_def by (intro issues_intros; simp add: harmless_def)

section \<open>What an acquired snapshot is\<close>

definition sha_law :: "kernel \<Rightarrow> bool" where
  "sha_law K \<longleftrightarrow> (\<forall>bs. wire_key (k_sha256 K bs))"

definition snapshot_wf :: "kernel \<Rightarrow> resolved \<Rightarrow> acquired \<Rightarrow> bool" where
  "snapshot_wf K R a \<longleftrightarrow>
     single_regular (metadata a) \<and> editable_size (metadata a)
     \<and> from_utf8 (source_text (snap a)) \<and> text_ok (source_text (snap a))
     \<and> unat (st_size (metadata a)) = length (source_text (snap a))
     \<and> snap a = \<lparr>snap_contract = 1, snap_path_key = key (binding R),
         revision = snapshot_revision K (key (binding R)) (metadata a) (source_text (snap a)),
         coverage = ''snapshot'', source_text = source_text (snap a),
         source_bytes = length (source_text (snap a))\<rparr>"

lemma acquire_wf:
  assumes "acquire K R writable w = (Inr a, w')"
  shows "snapshot_wf K R a"
proof -
  note simps = acquire_def sys_ok
  from assms show ?thesis
    unfolding simps
    by (auto simp: snapshot_wf_def text_ok_def editable_size_def)
qed

lemma capture_wf:
  assumes "capture K R w = (Inr s, w')"
  obtains a where "acquire K R False w = (Inr a, w')" "s = snap a" "snapshot_wf K R a"
  using assms acquire_wf by (auto simp: capture_def sys_ok)

lemma snapshot_wf_validates:
  assumes "snapshot_wf K R a" "sha_law K"
  shows "snapshot_validate (key (binding R)) (snap a) = Inr ()"
proof -
  have rev: "revision (snap a) = snapshot_revision K (key (binding R)) (metadata a) (source_text (snap a))"
    and rest: "snap_contract (snap a) = 1" "snap_path_key (snap a) = key (binding R)"
    "coverage (snap a) = ''snapshot''" "source_bytes (snap a) = length (source_text (snap a))"
    "text_ok (source_text (snap a))"
    using assms(1) unfolding snapshot_wf_def by (metis snapshot.select_convs)+
  have "wire_key (drop 5 (revision (snap a)))" "length (revision (snap a)) = 69"
    "prefix ''cfr1:'' (revision (snap a))"
    using assms(2) by (simp_all add: rev snapshot_revision_def sha_law_def wire_key_def)
  then show ?thesis
    using rest by (simp add: snapshot_validate_def Key_from_wire_def text_ok_def)
qed

lemma presence_validates:
  assumes "presence K R w = (Inr p, w')" "wire_key (key (binding R))"
  shows "presence_validate (key (binding R)) p = Inr ()"
  using assms by (auto simp: presence_def sys_ok presence_validate_def Key_from_wire_def)

end
