(* ===== verification/File_Reading.thy ===== *)
theory File_Reading
  imports File_Snapshot
begin

text \<open>
  \<open>src/files/worker/reading.rs\<close>: a line range of a file, scanned in whatever chunks the reads
  deliver, held up to a cap and cut on a character boundary; and the coordinator's check of it.
\<close>

section \<open>Scanning\<close>

definition RUNNING_MOST :: nat where "RUNNING_MOST = 256 * 1024"
definition usize_max :: nat where "usize_max = 2 ^ 64 - 1"

definition checked_add :: "nat \<Rightarrow> nat \<Rightarrow> nat option" where
  "checked_add a b = (if a + b \<le> usize_max then Some (a + b) else None)"

definition saturating_add :: "nat \<Rightarrow> nat \<Rightarrow> nat" where
  "saturating_add a b = min (a + b) usize_max"

record scanned =
  held :: bytes
  source :: "bytes option"
  total_bytes :: nat
  lines :: nat
  selected :: nat
  dangling :: bool
  selected_ends_newline :: bool

definition scan_start :: "bool \<Rightarrow> scanned" where
  "scan_start editable =
     \<lparr>held = [], source = (if editable then Some [] else None), total_bytes = 0, lines = 0,
      selected = 0, dangling = False, selected_ends_newline = False\<rparr>"

text \<open>\<open>slice::split_inclusive\<close> at newlines.\<close>

fun split_inclusive :: "bytes \<Rightarrow> bytes list" where
  "split_inclusive [] = []"
| "split_inclusive (b # bs) =
     (if b = newline then [b] # split_inclusive bs
      else case split_inclusive bs of
        [] \<Rightarrow> [[b]]
      | part # parts \<Rightarrow> (b # part) # parts)"

definition in_range :: "nat \<Rightarrow> nat \<Rightarrow> nat \<Rightarrow> bool" where
  "in_range off limit line \<longleftrightarrow> off \<le> line \<and> line - off < limit"

definition scan_part :: "nat \<Rightarrow> nat \<Rightarrow> bytes \<Rightarrow> scanned \<Rightarrow> error + scanned" where
  "scan_part off limit part s =
     rbind (ok_or (checked_add (lines s) 1) (bad_data ''native line count overflow'')) (\<lambda>line.
     rbind (if in_range off limit line
            then rbind (ok_or (checked_add (selected s) (length part))
                          (bad_data ''native selection size overflow'')) (\<lambda>n.
                   Inr (s\<lparr>selected := n,
                     held := held s @ take (RUNNING_MOST - length (held s)) part,
                     selected_ends_newline := (last part = newline)\<rparr>))
            else Inr s) (\<lambda>s.
     Inr (if last part = newline then s\<lparr>dangling := False, lines := line\<rparr>
          else s\<lparr>dangling := True\<rparr>)))"

fun scan_parts :: "nat \<Rightarrow> nat \<Rightarrow> bytes list \<Rightarrow> scanned \<Rightarrow> error + scanned" where
  "scan_parts off limit [] s = Inr s"
| "scan_parts off limit (part # parts) s =
     rbind (scan_part off limit part s) (scan_parts off limit parts)"

definition scan_chunk :: "nat \<Rightarrow> nat \<Rightarrow> bytes \<Rightarrow> scanned \<Rightarrow> error + scanned" where
  "scan_chunk off limit chunk s =
     rbind (ok_or (checked_add (total_bytes s) (length chunk)) (bad_data ''native read size overflow'')) (\<lambda>n.
     scan_parts off limit (split_inclusive chunk)
       (s\<lparr>total_bytes := n,
          source := (if n \<ge> EDIT_BYTES then None
                     else case source s of None \<Rightarrow> None | Some src \<Rightarrow> Some (src @ chunk))\<rparr>))"

text \<open>
  What successive reads return: an interruption is retried, any other error ends the scan, and an
  empty read (or the end of the list) is the end of the file.
\<close>

fun scan_reads ::
    "(errno \<Rightarrow> error) \<Rightarrow> nat \<Rightarrow> nat \<Rightarrow> (errno + bytes) list \<Rightarrow> scanned \<Rightarrow> error + scanned" where
  "scan_reads err off limit [] s = Inr s"
| "scan_reads err off limit (Inl e # reads) s =
     (if e = INTR then scan_reads err off limit reads s else Inl (err e))"
| "scan_reads err off limit (Inr chunk # reads) s =
     (if chunk = [] then Inr s
      else rbind (scan_chunk off limit chunk s) (scan_reads err off limit reads))"

function trunc_from :: "bytes \<Rightarrow> nat \<Rightarrow> bytes" where
  "trunc_from bs from =
     (if from \<le> length bs
      then (case utf8_error (drop from bs) of
              None \<Rightarrow> bs
            | Some (v, Some n) \<Rightarrow> trunc_from bs (from + v + n)
            | Some (v, None) \<Rightarrow> take (from + v) bs)
      else bs)"
  by pat_completeness auto
termination
  by (relation "measure (\<lambda>(bs, from). length bs - from)") (auto dest!: utf8_error_bound)

declare trunc_from.simps [simp del]

definition scan_finish :: "scanned \<Rightarrow> error + scanned" where
  "scan_finish s =
     rbind (ok_or (checked_add (lines s) (if dangling s then 1 else 0))
              (bad_data ''native line count overflow'')) (\<lambda>n.
     let s = s\<lparr>lines := n\<rparr>;
         s = (if selected_ends_newline s
              then s\<lparr>held := (if selected s = length (held s) then butlast (held s) else held s),
                     selected := selected s - 1\<rparr>
              else s)
     in Inr (if selected s > length (held s) then s\<lparr>held := trunc_from (held s) 0\<rparr> else s))"

definition scan ::
    "(errno \<Rightarrow> error) \<Rightarrow> (errno + bytes) list \<Rightarrow> nat \<Rightarrow> nat \<Rightarrow> bool \<Rightarrow> error + scanned" where
  "scan err reads off limit editable =
     rbind (scan_reads err off limit reads (scan_start editable)) scan_finish"

section \<open>What the scan computes\<close>

text \<open>The reference: whole lines of the whole text, without the last newline of the selection.\<close>

definition chosen_lines :: "nat \<Rightarrow> nat \<Rightarrow> bytes \<Rightarrow> bytes" where
  "chosen_lines off limit bs = concat (take limit (drop (off - 1) (split_inclusive bs)))"

definition selection :: "nat \<Rightarrow> nat \<Rightarrow> bytes \<Rightarrow> bytes" where
  "selection off limit bs =
     (let c = chosen_lines off limit bs in
      if c \<noteq> [] \<and> last c = newline then butlast c else c)"

definition shown :: "bytes \<Rightarrow> bytes" where
  "shown sel = (if length sel \<le> RUNNING_MOST then sel else trunc_from (take RUNNING_MOST sel) 0)"

fun delivered :: "(errno + bytes) list \<Rightarrow> bytes" where
  "delivered [] = []"
| "delivered (Inl _ # reads) = delivered reads"
| "delivered (Inr chunk # reads) = chunk @ delivered reads"

fun clean_reads :: "(errno + bytes) list \<Rightarrow> bool" where
  "clean_reads [] = True"
| "clean_reads (Inl e # reads) = (e = INTR \<and> clean_reads reads)"
| "clean_reads (Inr chunk # reads) = (chunk \<noteq> [] \<and> clean_reads reads)"

text \<open>The bytes of the lines in range, byte by byte, starting in line \<open>ln\<close>.\<close>

fun pick :: "nat \<Rightarrow> nat \<Rightarrow> nat \<Rightarrow> bytes \<Rightarrow> bytes" where
  "pick off limit ln [] = []"
| "pick off limit ln (b # bs) =
     (if in_range off limit ln then [b] else [])
     @ pick off limit (if b = newline then Suc ln else ln) bs"

abbreviation newlines :: "bytes \<Rightarrow> nat" where
  "newlines bs \<equiv> length (filter (\<lambda>b. b = newline) bs)"

lemma pick_append:
  "pick off limit ln (xs @ ys) = pick off limit ln xs @ pick off limit (ln + newlines xs) ys"
  by (induction xs arbitrary: ln) auto

lemma pick_length: "length (pick off limit ln bs) \<le> length bs"
  by (induction bs arbitrary: ln) (auto intro: le_SucI)

text \<open>A part of a split: not empty, with no newline but perhaps its last byte.\<close>

definition is_part :: "bytes \<Rightarrow> bool" where
  "is_part p \<longleftrightarrow> p \<noteq> [] \<and> newline \<notin> set (butlast p)"

lemma split_inclusive_parts: "list_all is_part (split_inclusive bs)"
proof (induction bs rule: split_inclusive.induct)
  case (2 b bs)
  then show ?case
    by (auto simp: is_part_def list_all_iff split: list.splits)
qed simp

lemma concat_split_inclusive [simp]: "concat (split_inclusive bs) = bs"
  by (induction bs rule: split_inclusive.induct) (auto split: list.splits)

lemma pick_part:
  assumes "is_part p"
  shows "pick off limit ln p = (if in_range off limit ln then p else [])"
    "newlines p = (if last p = newline then 1 else 0)"
proof -
  have none: "newline \<notin> set xs \<Longrightarrow> pick off limit ln xs = (if in_range off limit ln then xs else [])
      \<and> newlines xs = 0" for xs
    by (induction xs) auto
  obtain q x where p: "p = q @ [x]" "newline \<notin> set q"
    using assms by (metis append_butlast_last_id is_part_def)
  then show "pick off limit ln p = (if in_range off limit ln then p else [])"
    "newlines p = (if last p = newline then 1 else 0)"
    using none [of q] by (auto simp: pick_append)
qed

text \<open>What the scan has computed after the bytes \<open>bs\<close>.\<close>

definition scan_at :: "nat \<Rightarrow> nat \<Rightarrow> bytes \<Rightarrow> scanned \<Rightarrow> bool" where
  "scan_at off limit bs s \<longleftrightarrow>
     (let p = pick off limit 1 bs in
      held s = take RUNNING_MOST p \<and> lines s = newlines bs \<and> selected s = length p
      \<and> dangling s = (bs \<noteq> [] \<and> last bs \<noteq> newline)
      \<and> selected_ends_newline s = (p \<noteq> [] \<and> last p = newline))"

lemma cap_left: "n - min k n = n - (k::nat)"
  by (simp add: min_def)

lemma scan_part_at:
  assumes "scan_at off limit bs s" "is_part p" "length bs + length p \<le> usize_max"
  shows "\<exists>s'. scan_part off limit p s = Inr s' \<and> scan_at off limit (bs @ p) s'
    \<and> total_bytes s' = total_bytes s \<and> source s' = source s"
proof -
  have ne: "p \<noteq> []" using assms(2) by (simp add: is_part_def)
  have "newlines bs + 1 \<le> usize_max"
  proof -
    have "newlines bs + 1 \<le> length bs + length p"
      using ne by (intro add_mono length_filter_le) (cases p; simp)
    then show ?thesis
      using assms(3) by (rule le_trans)
  qed
  moreover have "length (pick off limit 1 bs) + length p \<le> usize_max"
    using assms(3) pick_length [of off limit 1 bs] by simp
  ultimately show ?thesis
    using assms(1) pick_part(1) [OF assms(2), of off limit "Suc (newlines bs)"]
      pick_part(2) [OF assms(2)] ne
    by (auto simp: scan_part_def scan_at_def Let_def checked_add_def pick_append cap_left)
qed

lemma scan_parts_at:
  assumes "scan_at off limit bs s" "list_all is_part ps" "length bs + length (concat ps) \<le> usize_max"
  shows "\<exists>s'. scan_parts off limit ps s = Inr s' \<and> scan_at off limit (bs @ concat ps) s'
    \<and> total_bytes s' = total_bytes s \<and> source s' = source s"
  using assms
proof (induction ps arbitrary: bs s)
  case (Cons p ps)
  then obtain s' where s': "scan_part off limit p s = Inr s'" "scan_at off limit (bs @ p) s'"
      "total_bytes s' = total_bytes s" "source s' = source s"
    using scan_part_at [of off limit bs s p] by auto
  then show ?case
    using Cons.IH [of "bs @ p" s'] Cons.prems by auto
qed simp

definition kept :: "bool \<Rightarrow> bytes \<Rightarrow> bytes option" where
  "kept editable bs = (if editable \<and> length bs < EDIT_BYTES then Some bs else None)"

lemma scan_chunk_at:
  assumes "scan_at off limit bs s" "total_bytes s = length bs" "source s = kept editable bs"
    "length bs + length chunk \<le> usize_max"
  shows "\<exists>s'. scan_chunk off limit chunk s = Inr s' \<and> scan_at off limit (bs @ chunk) s'
    \<and> total_bytes s' = length (bs @ chunk) \<and> source s' = kept editable (bs @ chunk)"
proof -
  let ?s = "s\<lparr>total_bytes := length bs + length chunk, source := kept editable (bs @ chunk)\<rparr>"
  have "scan_chunk off limit chunk s = scan_parts off limit (split_inclusive chunk) ?s"
    using assms by (auto simp: scan_chunk_def checked_add_def kept_def)
  moreover have "scan_at off limit bs ?s"
    using assms(1) by (simp add: scan_at_def Let_def)
  ultimately show ?thesis
    using scan_parts_at [of off limit bs ?s "split_inclusive chunk"] assms(4)
      split_inclusive_parts [of chunk] by auto
qed

lemma scan_reads_at:
  assumes "scan_at off limit bs s" "total_bytes s = length bs" "source s = kept editable bs"
    "clean_reads reads" "length bs + length (delivered reads) \<le> usize_max"
  shows "\<exists>s'. scan_reads err off limit reads s = Inr s' \<and> scan_at off limit (bs @ delivered reads) s'
    \<and> total_bytes s' = length (bs @ delivered reads) \<and> source s' = kept editable (bs @ delivered reads)"
  using assms
proof (induction reads arbitrary: bs s rule: delivered.induct)
  case (3 chunk reads)
  then obtain s' where "scan_chunk off limit chunk s = Inr s'" "scan_at off limit (bs @ chunk) s'"
      "total_bytes s' = length (bs @ chunk)" "source s' = kept editable (bs @ chunk)"
    using scan_chunk_at [of off limit bs s editable chunk] by auto
  then show ?case
    using "3.IH" [of "bs @ chunk" s'] "3.prems" by auto
qed auto

text \<open>The byte-wise selection is the line-wise one.\<close>

lemma pick_lines:
  assumes "list_all is_part ps" "list_all (\<lambda>p. last p = newline) (butlast ps)" 
  shows "pick off limit ln (concat ps) =
    concat (map snd (filter (\<lambda>(i, p). in_range off limit i) (enumerate ln ps)))"
  using assms
proof (induction ps arbitrary: ln)
  case (Cons p ps)
  have "pick off limit (ln + newlines p) (concat ps) = pick off limit (Suc ln) (concat ps)"
    using Cons.prems pick_part(2) [of p] by (cases ps) (simp_all del: filter.simps)
  moreover have "pick off limit (Suc ln) (concat ps) =
      concat (map snd (filter (\<lambda>(i, p). in_range off limit i) (enumerate (Suc ln) ps)))"
    using Cons.prems by (intro Cons.IH) (cases ps; simp)+
  ultimately show ?case
    using Cons.prems pick_part(1) [of p off limit ln] by (simp add: pick_append)
qed simp

lemma split_inclusive_complete: "list_all (\<lambda>p. last p = newline) (butlast (split_inclusive bs))"
proof (induction bs rule: split_inclusive.induct)
  case (2 b bs)
  show ?case
    using 2 split_inclusive_parts [of bs]
    by (auto simp: is_part_def split: list.splits)
qed simp

lemma enumerate_range:
  assumes "1 \<le> off"
  shows "map snd (filter (\<lambda>(i, p). in_range off limit i) (enumerate ln ps)) =
    (if ln \<le> off then take limit (drop (off - ln) ps) else take (limit - (ln - off)) ps)"
  using assms
proof (induction ps arbitrary: ln)
  case (Cons p ps)
  show ?case
    using Cons.IH [OF Cons.prems, of "Suc ln"]
    by (cases "ln < off"; cases "ln = off"; cases limit) (auto simp: in_range_def drop_Cons' take_Cons' Suc_diff_le)
qed simp

lemma pick_chosen:
  assumes "1 \<le> off"
  shows "pick off limit 1 bs = chosen_lines off limit bs"
  using pick_lines [OF split_inclusive_parts split_inclusive_complete, of off limit 1 bs]
    enumerate_range [OF assms, of limit 1 "split_inclusive bs"] assms
  by (simp add: chosen_lines_def)

section \<open>The scan is the reference\<close>

lemma split_inclusive_Nil [simp]: "split_inclusive bs = [] \<longleftrightarrow> bs = []"
  by (cases bs) (auto split: list.splits)

lemma split_inclusive_count: "length (split_inclusive bs) \<le> length bs"
  by (induction bs rule: split_inclusive.induct) (auto split: list.splits)

lemma newlines_lines:
  "length (split_inclusive bs) = newlines bs + (if bs \<noteq> [] \<and> last bs \<noteq> newline then 1 else 0)"
proof (induction bs rule: split_inclusive.induct)
  case (2 b bs)
  then show ?case
    by (cases "bs = []") (auto split: list.splits)
qed simp

lemma selection_length: "length (selection off limit bs) \<le> length (chosen_lines off limit bs)"
  by (simp add: selection_def Let_def)

lemma scan_finish_at:
  assumes "scan_at off limit bs s" "1 \<le> off" "length bs \<le> usize_max"
  shows "\<exists>s'. scan_finish s = Inr s' \<and> held s' = shown (selection off limit bs)
    \<and> selected s' = length (selection off limit bs) \<and> lines s' = length (split_inclusive bs)
    \<and> total_bytes s' = total_bytes s \<and> source s' = source s"
proof -
  let ?c = "chosen_lines off limit bs"
  have s: "held s = take RUNNING_MOST ?c" "lines s = newlines bs" "selected s = length ?c"
    "dangling s = (bs \<noteq> [] \<and> last bs \<noteq> newline)" "selected_ends_newline s = (?c \<noteq> [] \<and> last ?c = newline)"
    using assms(1) unfolding scan_at_def pick_chosen [OF assms(2)] Let_def by auto
  have sum: "checked_add (lines s) (if dangling s then 1 else 0) = Some (length (split_inclusive bs))"
    using assms(3) s newlines_lines [of bs] split_inclusive_count [of bs] by (auto simp: checked_add_def)
  show ?thesis
  proof (cases "?c \<noteq> [] \<and> last ?c = newline")
    case True
    then have sel: "selection off limit bs = butlast ?c" and pos: "0 < length ?c"
      by (simp_all add: selection_def Let_def)
    show ?thesis
    proof (cases "length ?c \<le> RUNNING_MOST")
      case True
      then show ?thesis
        using sum s sel pos \<open>?c \<noteq> [] \<and> last ?c = newline\<close>
        by (auto simp: scan_finish_def Let_def shown_def)
    next
      case False
      then have "take RUNNING_MOST (butlast ?c) = take RUNNING_MOST ?c"
        using take_butlast [of RUNNING_MOST ?c] by simp
      then show ?thesis
        using False sum s sel pos \<open>?c \<noteq> [] \<and> last ?c = newline\<close>
        by (auto simp: scan_finish_def Let_def shown_def)
    qed
  next
    case False
    then have "selection off limit bs = ?c"
      by (auto simp: selection_def Let_def)
    then show ?thesis
      using sum s False by (auto simp: scan_finish_def Let_def shown_def)
  qed
qed

lemma scan_reference:
  assumes "clean_reads reads" "length (delivered reads) \<le> usize_max" "1 \<le> off"
  shows "\<exists>s. scan err reads off limit editable = Inr s
    \<and> held s = shown (selection off limit (delivered reads))
    \<and> selected s = length (selection off limit (delivered reads))
    \<and> lines s = length (split_inclusive (delivered reads))
    \<and> total_bytes s = length (delivered reads) \<and> source s = kept editable (delivered reads)"
proof -
  have "scan_at off limit [] (scan_start editable)"
    by (simp add: scan_at_def scan_start_def)
  then obtain s where "scan_reads err off limit reads (scan_start editable) = Inr s"
      "scan_at off limit (delivered reads) s" "total_bytes s = length (delivered reads)"
      "source s = kept editable (delivered reads)"
    using scan_reads_at [of off limit "[]" "scan_start editable" editable reads err] assms
    by (auto simp: scan_start_def kept_def EDIT_BYTES_def)
  then show ?thesis
    using scan_finish_at [of off limit "delivered reads" s] assms by (auto simp: scan_def)
qed

section \<open>The cut\<close>

lemma trunc_from_prefix: "prefix (trunc_from bs from) bs"
  by (induction bs "from" rule: trunc_from.induct)
     (subst trunc_from.simps, auto simp: take_is_prefix split: option.splits)

lemma tail_bytes_cut: "tail_bytes n k bs = Cut \<Longrightarrow> length bs < n"
  by (induction n k bs rule: tail_bytes.induct) (auto split: if_splits)

lemma utf8_head_cut: "utf8_head a bs = Cut \<Longrightarrow> length bs \<le> 2"
  by (auto simp: utf8_head_def after_second_def dest!: tail_bytes_cut split: if_splits list.splits)

lemma utf8_error_cut: "utf8_error bs = Some (v, None) \<Longrightarrow> length bs \<le> v + 3"
proof (induction bs arbitrary: v rule: utf8_error.induct)
  case (2 a bs)
  show ?case
  proof (cases "utf8_head a bs")
    case (Whole n)
    then obtain u where "utf8_error (drop (n - 1) bs) = Some (u, None)" "v = n + u"
      using "2.prems" by (auto simp: utf8_error.simps)
    then show ?thesis
      using "2.IH" [OF Whole] utf8_head_size(1) [OF Whole] by fastforce
  qed (use "2.prems" in \<open>auto simp: utf8_error.simps dest!: utf8_head_cut\<close>)
qed simp

lemma shown_valid:
  assumes "from_utf8 sel"
  shows "from_utf8 (shown sel)" "prefix (shown sel) sel"
    "length sel \<le> RUNNING_MOST \<Longrightarrow> shown sel = sel"
    "RUNNING_MOST < length sel \<Longrightarrow> RUNNING_MOST \<le> length (shown sel) + 3"
proof -
  let ?h = "take RUNNING_MOST sel"
  have cut: "utf8_error ?h = None \<or> (\<exists>v. utf8_error ?h = Some (v, None))"
    using assms from_utf8_prefix [of ?h "drop RUNNING_MOST sel"] by simp
  then show "from_utf8 (shown sel)"
    using assms from_utf8_valid_up_to [of ?h]
    by (auto simp: shown_def trunc_from.simps from_utf8_def)
  show "prefix (shown sel) sel"
    using trunc_from_prefix [of ?h 0] take_is_prefix [of RUNNING_MOST sel]
    by (auto simp: shown_def intro: prefix_order.trans)
  show "length sel \<le> RUNNING_MOST \<Longrightarrow> shown sel = sel"
    by (simp add: shown_def)
  assume long: "RUNNING_MOST < length sel"
  show "RUNNING_MOST \<le> length (shown sel) + 3"
    using cut
  proof (elim disjE exE)
    fix v assume v: "utf8_error ?h = Some (v, None)"
    then have "length ?h \<le> v + 3" "v < length ?h"
      using utf8_error_cut utf8_error_bound by fastforce+
    then show ?thesis
      using v long by (simp add: shown_def trunc_from.simps)
  qed (use long in \<open>simp add: shown_def trunc_from.simps\<close>)
qed

lemma shown_short: "length (shown sel) \<le> RUNNING_MOST" "length (shown sel) \<le> length sel"
  using prefix_length_le [OF trunc_from_prefix [of "take RUNNING_MOST sel" 0]]
  by (auto simp: shown_def)

section \<open>Readings\<close>

record reading =
  read_contract :: nat
  read_path_key :: string
  shown_text :: string
  read_source_bytes :: nat
  total_lines :: nat
  first_line :: nat
  last_line :: nat
  omitted_bytes :: nat
  read_snapshot :: "snapshot option"

definition last_shown :: "nat \<Rightarrow> nat \<Rightarrow> nat \<Rightarrow> nat" where
  "last_shown off limit n = min (saturating_add (off - 1) limit) n"

definition reading_of :: "kernel \<Rightarrow> resolved \<Rightarrow> nat \<Rightarrow> nat \<Rightarrow> scanned \<Rightarrow> stat \<Rightarrow> reading" where
  "reading_of K R off limit s after = \<lparr>
       read_contract = 1, read_path_key = key (binding R),
       shown_text = from_utf8_lossy (held s),
       read_source_bytes = total_bytes s, total_lines = lines s, first_line = off,
       last_line = last_shown off limit (lines s),
       omitted_bytes = selected s - length (held s),
       read_snapshot =
         (case source s of
            None \<Rightarrow> None
          | Some bs \<Rightarrow>
              if length bs = unat (st_size after) \<and> NUL \<notin> set bs \<and> from_utf8 bs
              then Some \<lparr>snap_contract = 1, snap_path_key = key (binding R),
                revision = snapshot_revision K (key (binding R)) after bs,
                coverage = ''snapshot'', source_text = bs, source_bytes = length bs\<rparr>
              else None)\<rparr>"

definition read_target :: "kernel \<Rightarrow> resolved \<Rightarrow> bool \<Rightarrow> stat sys" where
  "read_target K R nofollow =
     call K (Statat (parent R) (leaf R) nofollow) (\<lambda>h. k_statat K h (parent R) (leaf R) nofollow)"

definition reads_of :: "kernel \<Rightarrow> fd \<Rightarrow> (errno + bytes) list sys" where
  "reads_of K f w = (Inr (k_reads K (history w) f), w\<lparr>history := history w @ [(Read_chunks f, True)]\<rparr>)"

definition read_lines :: "kernel \<Rightarrow> resolved \<Rightarrow> nat \<Rightarrow> nat \<Rightarrow> reading sys" where
  "read_lines K R off limit =
     sbind (validate_parent K R) (\<lambda>_.
     sbind (read_target K R True) (\<lambda>named.
     sbind (read_target K R False) (\<lambda>target.
     sbind (scheck (regular_mode (st_mode target))
              (bad_data ''native text read requires a regular file'')) (\<lambda>_.
     sbind (call K (Openat (parent R) (leaf R) False False)
              (\<lambda>h. k_openat K h (parent R) (leaf R) False False)) (\<lambda>f.
     sbind (sys_fstat K f) (\<lambda>before.
     sbind (scheck (fingerprint before = fingerprint target)
              (bad_data ''native read target changed while opening'')) (\<lambda>_.
     let editable = regular_mode (st_mode named) \<and> st_nlink before = 1
           \<and> fingerprint before = fingerprint named \<and> editable_size before in
     sbind (reads_of K f) (\<lambda>reads.
     sbind (slift (scan (errno_error K) reads off limit editable)) (\<lambda>s.
     sbind (sys_fstat K f) (\<lambda>after.
     sbind (read_target K R False) (\<lambda>target_after.
     sbind (read_target K R True) (\<lambda>named_after.
     sbind (scheck (fingerprint before = fingerprint after
                    \<and> fingerprint after = fingerprint target_after
                    \<and> fingerprint named = fingerprint named_after)
              (bad_data ''native source changed during read acquisition'')) (\<lambda>_.
     sbind (validate_parent K R) (\<lambda>_.
     sreturn (reading_of K R off limit s after)))))))))))))))"

text \<open>\<open>scan\<close> over a byte slice: reads of at most 8192 bytes that never fail.\<close>

fun slice_reads :: "bytes \<Rightarrow> (errno + bytes) list" where
  "slice_reads bs = (if bs = [] then [] else Inr (take 8192 bs) # slice_reads (drop 8192 bs))"

declare slice_reads.simps [simp del]

definition reading_validate :: "string \<Rightarrow> nat \<Rightarrow> nat \<Rightarrow> reading \<Rightarrow> error + unit" where
  "reading_validate k off limit r =
     rbind (ensure
       (read_contract r = 1 \<and> read_path_key r = k \<and> first_line r = off
        \<and> last_line r = last_shown off limit (total_lines r)
        \<and> total_lines r \<le> read_source_bytes r \<and> omitted_bytes r \<le> read_source_bytes r
        \<and> length (shown_text r) \<le> RUNNING_MOST * 3)
       (bad_data ''native read reply has an unsupported version, range or binding'')) (\<lambda>_.
     case read_snapshot r of
       None \<Rightarrow> Inr ()
     | Some whole \<Rightarrow>
         rbind (snapshot_validate k whole) (\<lambda>_.
         rbind (ensure (source_bytes whole = read_source_bytes r)
                  (bad_data ''native read snapshot size does not match acquisition'')) (\<lambda>_.
         rbind (scan (\<lambda>e. bad_data []) (slice_reads (source_text whole)) off limit False) (\<lambda>s.
         ensure (total_lines r = lines s \<and> shown_text r = from_utf8_lossy (held s)
                 \<and> omitted_bytes r = selected s - length (held s))
           (bad_data ''native read display differs from its complete snapshot'')))))"

lemma slice_reads_delivered: "delivered (slice_reads bs) = bs \<and> clean_reads (slice_reads bs)"
  by (induction bs rule: slice_reads.induct) (subst (1 2) slice_reads.simps, auto)

text \<open>The reads a scan takes: those before the first empty one.\<close>

definition until_eof :: "(errno + bytes) list \<Rightarrow> (errno + bytes) list" where
  "until_eof reads = takeWhile (\<lambda>r. r \<noteq> Inr []) reads"

lemma scan_part_total:
  "scan_part off limit p s = Inr s' \<Longrightarrow> total_bytes s' = total_bytes s"
  by (auto simp: scan_part_def result_simps split: if_splits)

lemma scan_parts_total:
  "scan_parts off limit ps s = Inr s' \<Longrightarrow> total_bytes s' = total_bytes s"
  by (induction ps arbitrary: s) (auto simp: result_simps dest!: scan_part_total)

lemma scan_chunk_total:
  "scan_chunk off limit c s = Inr s' \<Longrightarrow>
     total_bytes s' = total_bytes s + length c \<and> total_bytes s' \<le> usize_max"
  by (auto simp: scan_chunk_def result_simps checked_add_def dest!: scan_parts_total split: if_splits)

lemma scan_reads_clean:
  "scan_reads err off limit reads s = Inr s' \<Longrightarrow> total_bytes s \<le> usize_max \<Longrightarrow>
     clean_reads (until_eof reads) \<and> scan_reads err off limit (until_eof reads) s = Inr s'
     \<and> total_bytes s + length (delivered (until_eof reads)) \<le> usize_max"
proof (induction err off limit reads s rule: scan_reads.induct)
  case (3 err off limit chunk reads s)
  show ?case
  proof (cases "chunk = []")
    case False
    then obtain u where u: "scan_chunk off limit chunk s = Inr u" "scan_reads err off limit reads u = Inr s'"
      using "3.prems" by (auto simp: rbind_eq_Inr)
    then show ?thesis
      using "3.IH" [OF False, of u] scan_chunk_total [OF u(1)] False
      by (simp add: until_eof_def)
  qed (use 3 in \<open>simp add: until_eof_def\<close>)
qed (auto simp: until_eof_def split: if_splits)

lemma scan_ok:
  assumes "scan err reads off limit editable = Inr s" "1 \<le> off"
  defines "bs \<equiv> delivered (until_eof reads)"
  shows "held s = shown (selection off limit bs)" "selected s = length (selection off limit bs)"
    "lines s = length (split_inclusive bs)" "total_bytes s = length bs" "source s = kept editable bs"
    "length bs \<le> usize_max"
proof -
  obtain u where u: "scan_reads err off limit reads (scan_start editable) = Inr u" "scan_finish u = Inr s"
    using assms(1) by (auto simp: scan_def rbind_eq_Inr)
  have small: "total_bytes (scan_start editable) \<le> usize_max"
    by (simp add: scan_start_def)
  note clean = scan_reads_clean [OF u(1) small]
  then have "scan err (until_eof reads) off limit editable = Inr s"
    using u(2) by (simp add: scan_def)
  moreover have len: "length bs \<le> usize_max"
    using clean by (simp add: bs_def scan_start_def)
  ultimately show "held s = shown (selection off limit bs)" "selected s = length (selection off limit bs)"
    "lines s = length (split_inclusive bs)" "total_bytes s = length bs" "source s = kept editable bs"
    "length bs \<le> usize_max"
    using scan_reference [of "until_eof reads" off err limit editable] clean assms(2)
    by (auto simp: bs_def)
qed

lemma read_lines_ok:
  assumes "read_lines K R off limit w = (Inr r, w')"
  obtains s reads editable after where
    "scan (errno_error K) reads off limit editable = Inr s"
    "r = reading_of K R off limit s after"
  using assms unfolding read_lines_def Let_def sys_ok
  by (elim exE conjE) (rule that; simp)

text \<open>
  C14: whatever chunks the reads deliver, interrupted or not, a successful scan computes what the
  reference reads off the whole text: its size, its number of lines, the length of the selected lines
  and the part of them that is held.  In particular the result does not depend on the chunking.
\<close>

theorem scan_refines_reference:
  assumes "scan err reads off limit editable = Inr s" "1 \<le> off"
  shows "held s = shown (selection off limit (delivered (until_eof reads)))
    \<and> selected s = length (selection off limit (delivered (until_eof reads)))
    \<and> lines s = length (split_inclusive (delivered (until_eof reads)))
    \<and> total_bytes s = length (delivered (until_eof reads))"
  using scan_ok [OF assms] by simp


text \<open>
  every reading the worker produces passes the coordinator's validation, which recomputes the
  display from the snapshot: the two scans, over different chunks, agree.
\<close>

theorem reading_accepted:
  assumes "read_lines K R off limit w = (Inr r, w')" "1 \<le> off" "sha_law K"
  shows "reading_validate (key (binding R)) off limit r = Inr ()"
  using assms(1)
proof (rule read_lines_ok)
  fix s reads editable after
  assume scan: "scan (errno_error K) reads off limit editable = Inr s"
    and r: "r = reading_of K R off limit s after"
  define bs where "bs = delivered (until_eof reads)"
  note ok = scan_ok [OF scan assms(2), folded bs_def]
  have sel: "length (selection off limit bs) \<le> length bs"
    using selection_length [of off limit bs] pick_length [of off limit 1 bs] pick_chosen [OF assms(2), of limit bs]
    by simp
  have fits: "length (from_utf8_lossy (held s)) \<le> RUNNING_MOST * 3"
    using from_utf8_lossy_length [of "held s"] shown_short(1) [of "selection off limit bs"] ok(1) by simp
  obtain t where t: "scan (\<lambda>e. bad_data []) (slice_reads bs) off limit False = Inr t"
      "held t = held s" "selected t = selected s" "lines t = lines s"
    using scan_reference [of "slice_reads bs" off "\<lambda>e. bad_data []" limit False] slice_reads_delivered [of bs]
      ok assms(2) by auto
  have snap: "snapshot_validate (key (binding R)) \<lparr>snap_contract = 1, snap_path_key = key (binding R),
      revision = snapshot_revision K (key (binding R)) after bs, coverage = ''snapshot'',
      source_text = bs, source_bytes = length bs\<rparr> = Inr ()" if "source s = Some bs" "NUL \<notin> set bs"
    using that ok(5) assms(3)
    by (auto simp: snapshot_validate_def kept_def snapshot_revision_def sha_law_def wire_key_def
        Key_from_wire_def split: if_splits)
  have missing: "length (selection off limit bs) - length (shown (selection off limit bs)) \<le> length bs"
    using sel by (rule le_trans [OF diff_le_self])
  show ?thesis
    using ok missing fits t snap split_inclusive_count [of bs]
    by (auto simp: reading_validate_def r reading_of_def kept_def rbind_ensure split: if_splits)
qed


end
