(* ===== verification/Json_Value.thy ===== *)
theory Json_Value
  imports Casper_Prelude
begin

text \<open>
  \<open>serde_json::Value\<close> as the program handles it: a number is one of serde's three kinds, an object is
  its entries in order (the crate is built with \<open>preserve_order\<close>).  Parsing and printing JSON text is
  \<open>serde_json\<close>'s and stays a parameter wherever it is used.
\<close>

datatype json_number = PosInt "64 word" | NegInt int | Float nat

datatype json =
    JNull
  | JBool bool
  | JNumber json_number
  | JString string
  | JArray "json list"
  | JObject "(string \<times> json) list"

text \<open>\<open>Value::get\<close> with a string index.\<close>

fun json_get :: "string \<Rightarrow> json \<Rightarrow> json option" where
  "json_get k (JObject fields) = map_of fields k"
| "json_get k _ = None"

fun as_u64 :: "json \<Rightarrow> 64 word option" where
  "as_u64 (JNumber (PosInt n)) = Some n"
| "as_u64 _ = None"

fun as_str :: "json \<Rightarrow> string option" where
  "as_str (JString s) = Some s"
| "as_str _ = None"

fun as_bool :: "json \<Rightarrow> bool option" where
  "as_bool (JBool b) = Some b"
| "as_bool _ = None"

fun as_array :: "json \<Rightarrow> json list option" where
  "as_array (JArray vs) = Some vs"
| "as_array _ = None"

fun as_object :: "json \<Rightarrow> (string \<times> json) list option" where
  "as_object (JObject fields) = Some fields"
| "as_object _ = None"

lemma as_u64_iff: "as_u64 v = Some n \<longleftrightarrow> v = JNumber (PosInt n)"
  by (cases v rule: as_u64.cases) auto

lemma as_str_iff: "as_str v = Some s \<longleftrightarrow> v = JString s"
  by (cases v) auto

end
