(* ===== verification/Text.thy ===== *)
theory Text
  imports Utf8
begin

text \<open>
  Rust's \<open>str\<close> by characters: a character is its UTF-8 encoding, so that a text is the concatenation
  of its characters, and the standard library's \<open>lines\<close>, \<open>trim\<close> and integer parsing.
\<close>

type_synonym uchar = bytes

function chars :: "bytes \<Rightarrow> uchar list" where
  "chars [] = []"
| "chars (a # bs) =
     (case utf8_head a bs of
        Whole n \<Rightarrow> (a # take (n - 1) bs) # chars (drop (n - 1) bs)
      | _ \<Rightarrow> [a] # chars bs)"
  by pat_completeness auto
termination
  by (relation "measure length") (auto dest: utf8_head_size)

declare chars.simps(2) [simp del]

definition is_char :: "uchar \<Rightarrow> bool" where
  "is_char c \<longleftrightarrow> c \<noteq> [] \<and> utf8_head (hd c) (tl c) = Whole (length c)"

lemma concat_chars: "concat (chars bs) = bs"
proof (induction bs rule: chars.induct)
  case (2 a bs)
  then show ?case
    by (simp add: chars.simps(2) split: utf8_head.splits)
qed simp

lemma chars_is_char: "from_utf8 bs \<Longrightarrow> list_all is_char (chars bs)"
proof (induction bs rule: chars.induct)
  case (2 a bs)
  then obtain n where n: "utf8_head a bs = Whole n" "from_utf8 (drop (n - 1) bs)"
    by (auto simp: from_utf8_def utf8_error.simps(2) split: utf8_head.splits)
  have "1 \<le> n" "n \<le> Suc (length bs)"
    using n(1) utf8_head_size(1) by auto
  moreover have "utf8_head a (take (n - 1) bs) = Whole n"
    using utf8_head_take [OF n(1), of "[]"] by simp
  ultimately have "is_char (a # take (n - 1) bs)"
    by (simp add: is_char_def)
  then show ?case
    using 2 n by (simp add: chars.simps(2))
qed simp

lemma chars_append_char: "is_char c \<Longrightarrow> chars (c @ bs) = c # chars bs"
proof -
  assume c: "is_char c"
  then obtain a as where as: "c = a # as" "utf8_head a as = Whole (Suc (length as))"
    by (cases c) (auto simp: is_char_def)
  then have "utf8_head a (as @ bs) = Whole (Suc (length as))"
    by (simp add: utf8_head_append)
  then show ?thesis
    using as(1) by (simp add: chars.simps(2))
qed

lemma chars_concat: "list_all is_char cs \<Longrightarrow> chars (concat cs) = cs"
  by (induction cs) (simp_all add: chars_append_char)

section \<open>Lines\<close>

definition carriage_return :: byte where "carriage_return = CHR 0x0D"

text \<open>\<open>str::lines\<close>: a line ends at a line feed, with a carriage return before it; the last end is optional.\<close>

fun line_pieces :: "bytes \<Rightarrow> bytes \<Rightarrow> bytes list" where
  "line_pieces held [] = (if held = [] then [] else [held])"
| "line_pieces held (b # bs) =
     (if b = newline
      then (if held \<noteq> [] \<and> last held = carriage_return then butlast held else held) # line_pieces [] bs
      else line_pieces (held @ [b]) bs)"

definition str_lines :: "bytes \<Rightarrow> bytes list" where
  "str_lines bs = line_pieces [] bs"

lemma line_pieces_no_newline: "newline \<notin> set held \<Longrightarrow> l \<in> set (line_pieces held bs) \<Longrightarrow> newline \<notin> set l"
  by (induction held bs rule: line_pieces.induct) (auto split: if_splits dest: in_set_butlastD)

lemma str_lines_no_newline: "l \<in> set (str_lines bs) \<Longrightarrow> newline \<notin> set l"
  using line_pieces_no_newline [of "[]" l bs] by (simp add: str_lines_def)

lemma from_utf8_ascii: "code b < 128 \<Longrightarrow> from_utf8 [b]"
  by (simp add: from_utf8_def utf8_error.simps utf8_head_def)

lemma code_newline: "code newline < 128" "code carriage_return < 128"
  by (simp_all add: newline_def carriage_return_def code_def)

text \<open>An ASCII byte is a character of its own wherever it stands in a text.\<close>

lemma continuation_not_ascii: "continuation b \<Longrightarrow> \<not> code b < 128"
  by (simp add: continuation_def)

lemma is_char_ascii:
  assumes "is_char c" "b \<in> set c" "code b < 128"
  shows "c = [b]"
proof -
  obtain a as where c: "c = a # as" "utf8_head a as = Whole (Suc (length as))"
    using assms(1) by (cases c) (auto simp: is_char_def)
  have tail: "tail_bytes n k bs = Whole m \<Longrightarrow> length bs = n \<Longrightarrow> x \<in> set bs \<Longrightarrow> \<not> code x < 128" for n k bs m x
    by (induction n k bs rule: tail_bytes.induct) (auto simp: continuation_not_ascii split: if_splits)
  have rest: "\<not> code x < 128" if "tail_bytes n 2 bs = Whole (Suc (Suc (length bs)))" "x \<in> set bs" for n bs x
    using that tail [OF that(1) _ that(2)] tail_bytes_size(1) [OF that(1)] by auto
  show ?thesis
  proof (cases "code a < 128")
    case True
    then have "as = []"
      using c(2) by (simp add: utf8_head_def)
    with assms(2) c(1) show ?thesis by simp
  next
    case False
    have no: "\<not> code x < 128" if "x \<in> set as" for x
      using that c(2) False
      by (cases as) (auto simp: utf8_head_def after_second_def second3_def second4_def continuation_def
          dest: rest split: if_splits)
    show ?thesis
      using assms(2,3) c(1) False no by auto
  qed
qed

lemma from_utf8_chars: "list_all is_char cs \<Longrightarrow> from_utf8 (concat cs)"
proof (induction cs)
  case (Cons c cs)
  then have "from_utf8 c"
    by (cases c) (auto simp: is_char_def from_utf8_def utf8_error.simps)
  with Cons show ?case
    by (simp add: from_utf8_append)
qed (simp add: from_utf8_def)

text \<open>A text may be cut before and after an ASCII byte.\<close>

lemma from_utf8_split_ascii:
  assumes "from_utf8 (xs @ b # ys)" "code b < 128"
  shows "from_utf8 xs \<and> from_utf8 ys"
proof -
  define cs where "cs = chars (xs @ b # ys)"
  have cs: "list_all is_char cs" "concat cs = xs @ b # ys"
    using assms(1) by (simp_all add: cs_def chars_is_char concat_chars)
  have "\<exists>as bs. cs = as @ [b] # bs \<and> concat as = xs \<and> concat bs = ys"
    using cs
  proof (induction cs arbitrary: xs)
    case (Cons c cs)
    show ?case
    proof (cases "length c \<le> length xs")
      case True
      then obtain zs where zs: "xs = c @ zs" "concat cs = zs @ b # ys"
        using Cons.prems(2) by (auto simp: append_eq_append_conv_if) (metis append_take_drop_id)
      then obtain as bs where "cs = as @ [b] # bs" "concat as = zs" "concat bs = ys"
        using Cons by auto
      then have "c # cs = (c # as) @ [b] # bs" "concat (c # as) = xs" "concat bs = ys"
        using zs(1) by simp_all
      then show ?thesis by blast
    next
      case False
      then have "b \<in> set c"
        using Cons.prems(2) by (auto simp: append_eq_append_conv2 append_eq_Cons_conv)
      then have "c = [b]"
        using Cons.prems(1) assms(2) is_char_ascii by simp
      with False Cons.prems(2) have "c # cs = [] @ [b] # cs" "concat [] = xs" "concat cs = ys"
        by (cases xs; simp)+
      then show ?thesis by blast
    qed
  qed simp
  with cs(1) show ?thesis
    using from_utf8_chars by auto
qed

lemma line_pieces_text: "from_utf8 (held @ bs) \<Longrightarrow> l \<in> set (line_pieces held bs) \<Longrightarrow> from_utf8 l"
proof (induction held bs rule: line_pieces.induct)
  case (2 held b bs)
  show ?case
  proof (cases "b = newline")
    case True
    then have both: "from_utf8 held" "from_utf8 bs"
      using from_utf8_split_ascii [of held b bs] 2(3) code_newline by auto
    have "from_utf8 (butlast held)" if "held \<noteq> []" "last held = carriage_return"
      using from_utf8_split_ascii [of "butlast held" "last held" "[]"] both(1) that code_newline
      by (metis append_butlast_last_id)
    then show ?thesis
      using True both 2(1) 2(4) by (auto split: if_splits)
  next
    case False
    then show ?thesis
      using 2 by simp
  qed
qed (auto split: if_splits)

lemma str_lines_text: "from_utf8 bs \<Longrightarrow> l \<in> set (str_lines bs) \<Longrightarrow> from_utf8 l"
  using line_pieces_text [of "[]" bs l] by (simp add: str_lines_def)

section \<open>White space and numbers\<close>

definition white_space :: "uchar \<Rightarrow> bool" where
  "white_space c \<longleftrightarrow>
     map code c \<in> {[9], [10], [11], [12], [13], [32], [0xC2, 0x85], [0xC2, 0xA0], [0xE1, 0x9A, 0x80],
       [0xE2, 0x80, 0x80], [0xE2, 0x80, 0x81], [0xE2, 0x80, 0x82], [0xE2, 0x80, 0x83], [0xE2, 0x80, 0x84],
       [0xE2, 0x80, 0x85], [0xE2, 0x80, 0x86], [0xE2, 0x80, 0x87], [0xE2, 0x80, 0x88], [0xE2, 0x80, 0x89],
       [0xE2, 0x80, 0x8A], [0xE2, 0x80, 0xA8], [0xE2, 0x80, 0xA9], [0xE2, 0x80, 0xAF], [0xE2, 0x81, 0x9F],
       [0xE3, 0x80, 0x80]}"

definition trim_start :: "bytes \<Rightarrow> bytes" where
  "trim_start s = concat (dropWhile white_space (chars s))"

definition str_trim :: "bytes \<Rightarrow> bytes" where
  "str_trim s = concat (rev (dropWhile white_space (rev (dropWhile white_space (chars s)))))"

text \<open>\<open>str::parse\<close> for an unsigned integer of at most \<open>most\<close>: an optional plus sign, then digits.\<close>

definition decimal_value :: "bytes \<Rightarrow> nat" where
  "decimal_value ds = foldl (\<lambda>n d. 10 * n + (code d - 48)) 0 ds"

definition parse_unsigned :: "nat \<Rightarrow> bytes \<Rightarrow> nat option" where
  "parse_unsigned most s =
     (let ds = (if s \<noteq> [] \<and> hd s = CHR ''+'' then tl s else s) in
      if ds \<noteq> [] \<and> list_all is_ascii_digit ds \<and> decimal_value ds \<le> most then Some (decimal_value ds) else None)"

text \<open>\<open>str::split\<close> at one byte.\<close>

fun split_at_byte :: "byte \<Rightarrow> bytes \<Rightarrow> bytes list" where
  "split_at_byte sep [] = [[]]"
| "split_at_byte sep (b # bs) =
     (if b = sep then [] # split_at_byte sep bs
      else case split_at_byte sep bs of [] \<Rightarrow> [[b]] | w # ws \<Rightarrow> (b # w) # ws)"

lemma split_at_byte_nonempty: "split_at_byte sep bs \<noteq> []"
  by (cases bs) (auto split: list.splits)

end
