(* ===== verification/Paint.thy ===== *)
theory Paint
  imports Text
begin

text \<open>
  Painting a tool's output (\<open>paint.rs\<close>): roles and spans, diffs, plain text, and ANSI-coloured output
  read into spans of one role each with every escape removed.
\<close>

datatype role =
    Role_Text | Role_Muted | Role_Dim | Role_Title | Role_Path | Role_Ok | Role_Warn | Role_Error
  | Role_Added | Role_Removed | Role_Marker | Role_Context | Role_Changed | Role_Keyword | Role_String
  | Role_Number | Role_Comment | Role_Type | Role_Func

record span =
  sp_role :: role
  sp_text :: string
  sp_rgb :: "(nat \<times> nat \<times> nat) option"
  sp_bg :: "(nat \<times> nat \<times> nat) option"
  sp_back :: "role option"

definition Span_new :: "role \<Rightarrow> string \<Rightarrow> span" where
  "Span_new r t = \<lparr>sp_role = r, sp_text = t, sp_rgb = None, sp_bg = None, sp_back = None\<rparr>"

type_synonym line = "span list"

text \<open>\<open>char::is_control\<close>: C0, DEL and C1.\<close>

definition is_control :: "uchar \<Rightarrow> bool" where
  "is_control c \<longleftrightarrow>
     (case map code c of
        [x] \<Rightarrow> x < 32 \<or> x = 127
      | [x, y] \<Rightarrow> x = 0xC2 \<and> 0x80 \<le> y \<and> y \<le> 0x9F
      | _ \<Rightarrow> False)"

definition shown_char :: "uchar \<Rightarrow> bool" where
  "shown_char c \<longleftrightarrow> map code c = [9] \<or> map code c = [10] \<or> \<not> is_control c"

definition clean_chars :: "uchar list \<Rightarrow> bytes" where
  "clean_chars cs = concat (filter shown_char cs)"

definition clean :: "string \<Rightarrow> string" where
  "clean s = clean_chars (chars s)"

definition starts_with :: "string \<Rightarrow> string \<Rightarrow> bool" where
  "starts_with s p \<longleftrightarrow> take (length p) s = p"

definition diff_role :: "string \<Rightarrow> role" where
  "diff_role l =
     (if starts_with l ''+++'' \<or> starts_with l ''---'' \<or> starts_with l ''@@'' then Role_Marker
      else case l of
        [] \<Rightarrow> Role_Context
      | b # _ \<Rightarrow> if b = CHR ''+'' then Role_Added else if b = CHR ''-'' then Role_Removed else Role_Context)"

definition paint_diff :: "string \<Rightarrow> line list" where
  "paint_diff s = map (\<lambda>l. [Span_new (diff_role l) (clean l)]) (str_lines s)"

definition paint_plain :: "string \<Rightarrow> line list" where
  "paint_plain s = map (\<lambda>l. [Span_new Role_Text (clean l)]) (str_lines s)"

section \<open>Colours\<close>

datatype colour = Indexed nat | Rgb nat nat nat

type_synonym theme = "colour \<Rightarrow> role option"

definition parse_u8 :: "bytes \<Rightarrow> nat option" where
  "parse_u8 = parse_unsigned 255"

definition code_at :: "bytes list \<Rightarrow> nat \<Rightarrow> nat option" where
  "code_at codes i = (if i < length codes then parse_u8 (codes ! i) else None)"

definition colour_of :: "bytes list \<Rightarrow> colour option" where
  "colour_of codes =
     (if length codes \<ge> 2 \<and> codes ! 0 = ''38'' \<and> codes ! 1 = ''2'' then
        Option.bind (code_at codes 2) (\<lambda>r.
        Option.bind (code_at codes 3) (\<lambda>g.
        Option.bind (code_at codes 4) (\<lambda>b. Some (Rgb r g b))))
      else if length codes \<ge> 2 \<and> codes ! 0 = ''38'' \<and> codes ! 1 = ''5'' then
        Option.bind (code_at codes 2) (\<lambda>n. Some (Indexed n))
      else Option.bind (code_at codes 0) (\<lambda>c.
        if 30 \<le> c \<and> c \<le> 37 then Some (Indexed (c - 30))
        else if 90 \<le> c \<and> c \<le> 97 then Some (Indexed (c - 90 + 8))
        else None))"

definition sgr_role :: "bytes \<Rightarrow> theme \<Rightarrow> role option" where
  "sgr_role params th =
     (let codes = split_at_byte (CHR '';'') params in
      if params = [] \<or> hd codes = ''0'' \<or> hd codes = [] then Some Role_Text
      else Option.bind (colour_of codes) (\<lambda>c.
        Some (case th c of Some r \<Rightarrow> r | None \<Rightarrow> Role_Text)))"

section \<open>Escapes\<close>

definition latin1 :: "nat \<Rightarrow> uchar" where
  "latin1 n = (if n < 128 then [char_of n] else [CHR 0xC2, char_of n])"

text \<open>\<open>latin1 n\<close> is the character U+00n below U+00C0; \<open>introduces\<close> tests for ESC and C1.\<close>

definition introduces :: "uchar \<Rightarrow> bool" where
  "introduces c \<longleftrightarrow>
     (case map code c of [x] \<Rightarrow> x = 0x1B | [x, y] \<Rightarrow> x = 0xC2 \<and> 0x80 \<le> y \<and> y \<le> 0x9F | _ \<Rightarrow> False)"

definition ascii_between :: "uchar \<Rightarrow> nat \<Rightarrow> nat \<Rightarrow> bool" where
  "ascii_between c lo hi \<longleftrightarrow> (case map code c of [x] \<Rightarrow> lo \<le> x \<and> x \<le> hi | _ \<Rightarrow> False)"

text \<open>What kind of escape starts here, and what follows its introducer; \<open>Inr\<close> is an answer already.\<close>

definition escape_kind :: "uchar list \<Rightarrow> ((uchar \<times> uchar list) + (uchar list option \<times> uchar list)) option" where
  "escape_kind at =
     (case at of
        [] \<Rightarrow> None
      | c # rest \<Rightarrow>
          if c = latin1 0x1B then (case rest of [] \<Rightarrow> None | k # tail \<Rightarrow> Some (Inl (k, tail)))
          else if c = latin1 0x9B then Some (Inl (''['', rest))
          else if c = latin1 0x9D then Some (Inl ('']'', rest))
          else if c = latin1 0x90 then Some (Inl (''P'', rest))
          else if c = latin1 0x98 then Some (Inl (''X'', rest))
          else if c = latin1 0x9E then Some (Inl (''^'', rest))
          else if c = latin1 0x9F then Some (Inl (''_'', rest))
          else Some (Inr (None, rest)))"

definition csi :: "uchar list \<Rightarrow> (uchar list option \<times> uchar list) option" where
  "csi rest =
     (case dropWhile (\<lambda>c. \<not> ascii_between c 0x40 0x7E) rest of
        [] \<Rightarrow> None
      | final # tail \<Rightarrow>
          Some (if final = ''m'' then Some (takeWhile (\<lambda>c. \<not> ascii_between c 0x40 0x7E) rest) else None, tail))"

definition escape_payload :: "uchar list \<Rightarrow> (uchar list option \<times> uchar list) option" where
  "escape_payload rest =
     (case dropWhile (\<lambda>c. c \<noteq> latin1 0x07 \<and> c \<noteq> latin1 0x9C \<and> c \<noteq> latin1 0x1B) rest of
        [] \<Rightarrow> None
      | c # tail \<Rightarrow>
          if c = latin1 0x1B then
            (case tail of [] \<Rightarrow> None | d # following \<Rightarrow> if d = [CHR 0x5C] then Some (None, following) else None)
          else Some (None, tail))"

definition intermediate :: "uchar list \<Rightarrow> (uchar list option \<times> uchar list) option" where
  "intermediate after =
     (case dropWhile (\<lambda>c. ascii_between c 0x20 0x2F) after of [] \<Rightarrow> None | _ # tail \<Rightarrow> Some (None, tail))"

definition escape :: "uchar list \<Rightarrow> (uchar list option \<times> uchar list) option" where
  "escape at =
     (case escape_kind at of
        None \<Rightarrow> None
      | Some (Inr found) \<Rightarrow> Some found
      | Some (Inl (k, rest)) \<Rightarrow>
          if k = ''['' then csi rest
          else if k \<in> {'']'', ''P'', ''X'', ''^'', ''_''} then escape_payload rest
          else intermediate (tl at))"

lemma dropWhile_shorter: "dropWhile P xs = y # ys \<Longrightarrow> length ys < length xs"
  by (metis length_dropWhile_le length_Cons Suc_le_lessD)

lemma escape_shorter: "escape at = Some (codes, tail) \<Longrightarrow> length tail < length at"
  by (auto simp: escape_def escape_kind_def csi_def escape_payload_def intermediate_def
      dest!: dropWhile_shorter split: list.splits if_splits option.splits sum.splits prod.splits)

function ansi_line :: "theme \<Rightarrow> line \<Rightarrow> role \<Rightarrow> bytes \<Rightarrow> uchar list \<Rightarrow> line" where
  "ansi_line th line r held rest =
     (let finish = (\<lambda>held2. if held2 \<noteq> [] \<or> line = [] then line @ [Span_new r held2] else line);
          before = takeWhile (\<lambda>c. \<not> introduces c) rest;
          after = dropWhile (\<lambda>c. \<not> introduces c) rest;
          held1 = held @ clean_chars before
      in if after = [] then finish held1
         else case escape after of
           None \<Rightarrow> finish held1
         | Some (codes, tail) \<Rightarrow>
             (case Option.bind codes (\<lambda>cs. sgr_role (concat cs) th) of
                Some next_role \<Rightarrow>
                  if next_role \<noteq> r
                  then ansi_line th (if held1 \<noteq> [] then line @ [Span_new r held1] else line) next_role [] tail
                  else ansi_line th line r held1 tail
              | None \<Rightarrow> ansi_line th line r held1 tail))"
  by pat_completeness auto
termination
  by (relation "measure (\<lambda>(_, _, _, _, rest). length rest)")
    (auto dest!: escape_shorter intro: less_le_trans [OF _ length_dropWhile_le])

declare ansi_line.simps [simp del]

definition ansi :: "string \<Rightarrow> theme \<Rightarrow> line list" where
  "ansi s th = map (\<lambda>raw. ansi_line th [] Role_Text [] (chars raw)) (str_lines s)"

section \<open>What is painted\<close>

text \<open>What is left of a line when its escapes are taken out.\<close>

function visible :: "uchar list \<Rightarrow> uchar list" where
  "visible rest =
     (let before = takeWhile (\<lambda>c. \<not> introduces c) rest;
          after = dropWhile (\<lambda>c. \<not> introduces c) rest
      in if after = [] then before
         else case escape after of None \<Rightarrow> before | Some (codes, tail) \<Rightarrow> before @ visible tail)"
  by pat_completeness auto
termination
  by (relation "measure length") (auto dest!: escape_shorter intro: less_le_trans [OF _ length_dropWhile_le])

declare visible.simps [simp del]

definition line_text :: "line \<Rightarrow> string" where
  "line_text l = concat (map sp_text l)"

lemma line_text_simps [simp]:
  "line_text [] = []" "line_text (l @ k) = line_text l @ line_text k" "line_text [Span_new r t] = t"
  by (simp_all add: line_text_def Span_new_def)

lemma clean_chars_simps [simp]: "clean_chars [] = []" "clean_chars (as @ bs) = clean_chars as @ clean_chars bs"
  by (simp_all add: clean_chars_def)

lemma ansi_line_text: "line_text (ansi_line th line r held rest) = line_text line @ held @ clean_chars (visible rest)"
proof (induction th line r held rest rule: ansi_line.induct)
  case (1 th line r held rest)
  let ?before = "takeWhile (\<lambda>c. \<not> introduces c) rest"
  let ?after = "dropWhile (\<lambda>c. \<not> introduces c) rest"
  show ?case
  proof (cases "?after = [] \<or> escape ?after = None")
    case True
    then show ?thesis
      by (subst ansi_line.simps, subst visible.simps) (auto simp: Let_def)
  next
    case False
    then obtain codes tail where esc: "?after \<noteq> []" "escape ?after = Some (codes, tail)"
      by auto
    note step = 1 [OF refl refl refl refl esc(1) esc(2) refl]
    show ?thesis
      using esc step by (subst ansi_line.simps, subst visible.simps) (auto simp: Let_def split: option.splits)
  qed
qed

text \<open>
  a theme only colours: whatever the theme, the text of every painted line is the same, the
  characters of the line that stand outside escapes and are not control characters, in order.
\<close>

theorem ansi_theme_only_colours:
  "map line_text (ansi s th) = map (\<lambda>raw. clean_chars (visible (chars raw))) (str_lines s)"
  by (simp add: ansi_def ansi_line_text)

text \<open>A text no terminal acts on: well-formed, and nothing but a tab of the control characters.\<close>

definition inert :: "string \<Rightarrow> bool" where
  "inert t \<longleftrightarrow> from_utf8 t \<and> list_all (\<lambda>c. map code c = [9] \<or> \<not> is_control c) (chars t)"

lemma inert_clean:
  assumes "list_all is_char cs" "[newline] \<notin> set cs"
  shows "inert (clean_chars cs)"
proof -
  have whole: "list_all is_char (filter shown_char cs)"
    using assms(1) by (auto simp: list_all_iff)
  have "map code c = [9] \<or> \<not> is_control c" if "c \<in> set cs" "shown_char c" for c
  proof -
    have "map code c \<noteq> [10]"
    proof
      assume "map code c = [10]"
      then obtain b where "c = [b]" "code b = 10" by auto
      moreover from this have "b = newline"
        by (simp add: newline_def code_def flip: code_inject)
      ultimately show False
        using that(1) assms(2) by simp
    qed
    then show ?thesis
      using that(2) by (auto simp: shown_char_def)
  qed
  then show ?thesis
    using whole by (auto simp: inert_def clean_chars_def from_utf8_chars chars_concat list_all_iff)
qed

lemma inert_append: "inert s \<Longrightarrow> inert t \<Longrightarrow> inert (s @ t)"
proof -
  assume st: "inert s" "inert t"
  then have "list_all is_char (chars s @ chars t)"
    by (simp add: inert_def chars_is_char)
  then have "chars (s @ t) = chars s @ chars t" "from_utf8 (s @ t)"
    using chars_concat [of "chars s @ chars t"] from_utf8_chars [of "chars s @ chars t"]
    by (simp_all add: concat_chars)
  with st show ?thesis
    by (simp add: inert_def)
qed

definition painted :: "line \<Rightarrow> bool" where
  "painted l \<longleftrightarrow> l \<noteq> [] \<and> (\<forall>s\<in>set l. inert (sp_text s) \<and> (sp_text s \<noteq> [] \<or> l = [s]))"

lemma in_set_suffix: "set (dropWhile P xs) \<subseteq> set xs"
  by (auto dest: set_dropWhileD)

lemma escape_set: "escape at = Some (codes, tail) \<Longrightarrow> set tail \<subseteq> set at"
  by (auto simp: escape_def escape_kind_def csi_def escape_payload_def intermediate_def
      split: list.splits if_splits option.splits sum.splits prod.splits
      dest!: arg_cong [where f = set] dest: set_dropWhileD)

text \<open>The three ways a pass of the loop goes.\<close>

lemma ansi_line_end:
  assumes "dropWhile (\<lambda>c. \<not> introduces c) rest = [] \<or> escape (dropWhile (\<lambda>c. \<not> introduces c) rest) = None"
  shows "ansi_line th line r held rest =
    (let held1 = held @ clean_chars (takeWhile (\<lambda>c. \<not> introduces c) rest)
     in if held1 \<noteq> [] \<or> line = [] then line @ [Span_new r held1] else line)"
  using assms by (subst ansi_line.simps) (auto simp: Let_def)

lemma ansi_line_step:
  assumes "dropWhile (\<lambda>c. \<not> introduces c) rest \<noteq> []" "escape (dropWhile (\<lambda>c. \<not> introduces c) rest) = Some (codes, tail)"
  shows "ansi_line th line r held rest =
    (let held1 = held @ clean_chars (takeWhile (\<lambda>c. \<not> introduces c) rest) in
     case Option.bind codes (\<lambda>cs. sgr_role (concat cs) th) of
       None \<Rightarrow> ansi_line th line r held1 tail
     | Some n \<Rightarrow> if n \<noteq> r then ansi_line th (if held1 \<noteq> [] then line @ [Span_new r held1] else line) n [] tail
        else ansi_line th line r held1 tail)"
  using assms by (subst ansi_line.simps) (simp only: Let_def if_False option.case prod.case)

lemma inert_empty: "inert []"
  by (simp add: inert_def from_utf8_def)

lemma ansi_line_painted:
  assumes "list_all is_char rest" "[newline] \<notin> set rest"
    and "\<forall>s\<in>set line. inert (sp_text s) \<and> sp_text s \<noteq> []" "inert held"
  shows "painted (ansi_line th line r held rest)"
  using assms
proof (induction th line r held rest rule: ansi_line.induct)
  case (1 th line r held rest)
  let ?before = "takeWhile (\<lambda>c. \<not> introduces c) rest"
  let ?after = "dropWhile (\<lambda>c. \<not> introduces c) rest"
  have "inert (clean_chars ?before)"
    using 1(4,5) by (intro inert_clean) (auto simp: list_all_iff dest: set_takeWhileD)
  then have held: "inert (held @ clean_chars ?before)"
    using 1(7) by (rule inert_append [rotated])
  show ?case
  proof (cases "?after = [] \<or> escape ?after = None")
    case True
    then show ?thesis
      using held 1(6) by (auto simp: ansi_line_end Let_def painted_def Span_new_def)
  next
    case False
    then obtain codes tail where esc: "?after \<noteq> []" "escape ?after = Some (codes, tail)"
      by auto
    have "set tail \<subseteq> set rest"
      using escape_set [OF esc(2)] in_set_suffix by (rule subset_trans)
    then have tail: "list_all is_char tail" "[newline] \<notin> set tail"
      using 1(4,5) by (auto simp: list_all_iff)
    have "\<forall>s\<in>set (if held @ clean_chars ?before \<noteq> [] then line @ [Span_new r (held @ clean_chars ?before)] else line).
        inert (sp_text s) \<and> sp_text s \<noteq> []"
      using 1(6) held by (auto simp: Span_new_def)
    then have change: "painted (ansi_line th (if held @ clean_chars ?before \<noteq> [] then line @ [Span_new r (held @ clean_chars ?before)]
        else line) n [] tail)" if "Option.bind codes (\<lambda>cs. sgr_role (concat cs) th) = Some n" "n \<noteq> r" for n
      using 1(2) [OF refl refl refl refl esc(1) esc(2) refl that tail _ inert_empty] by simp
    have same: "painted (ansi_line th line r (held @ clean_chars ?before) tail)"
      if "Option.bind codes (\<lambda>cs. sgr_role (concat cs) th) = None \<or> Option.bind codes (\<lambda>cs. sgr_role (concat cs) th) = Some r"
      using that 1(1) [OF refl refl refl refl esc(1) esc(2) refl _ tail 1(6) held]
        1(3) [OF refl refl refl refl esc(1) esc(2) refl _ _ tail 1(6) held] by auto
    show ?thesis
    proof (cases "Option.bind codes (\<lambda>cs. sgr_role (concat cs) th)")
      case None
      then show ?thesis
        using same unfolding ansi_line_step [OF esc] by (simp add: Let_def)
    next
      case (Some n)
      then show ?thesis
        using same change unfolding ansi_line_step [OF esc] by (cases "n = r") (simp_all add: Let_def)
    qed
  qed
qed

lemma line_chars:
  assumes "from_utf8 s" "raw \<in> set (str_lines s)"
  shows "list_all is_char (chars raw) \<and> [newline] \<notin> set (chars raw)"
proof -
  have "newline \<notin> set (concat (chars raw))"
    using assms(2) by (simp add: concat_chars str_lines_no_newline)
  then show ?thesis
    using assms by (auto simp: chars_is_char str_lines_text)
qed

text \<open>
  C40: nothing a tool prints reaches the terminal as a command: every painted line, coloured, plain or
  a diff, has at least one span, every span's text is well-formed UTF-8 without any control character
  but the tab, and a span is empty only when it is the whole line.
\<close>

theorem painted_text_inert:
  assumes "from_utf8 s" "l \<in> set (ansi s th) \<union> set (paint_plain s) \<union> set (paint_diff s)"
  shows "l \<noteq> [] \<and> (\<forall>sp\<in>set l. inert (sp_text sp) \<and> (sp_text sp \<noteq> [] \<or> l = [sp]))"
proof -
  have "painted (ansi_line th [] Role_Text [] (chars raw))" "inert (clean raw)" if "raw \<in> set (str_lines s)" for raw
    using line_chars [OF assms(1) that]
    by (auto simp: clean_def intro!: ansi_line_painted inert_clean inert_empty)
  then show ?thesis
    using assms(2) by (auto simp: ansi_def paint_plain_def paint_diff_def painted_def Span_new_def)
qed

theorem painted_text_inert_witness:
  "\<exists>l. l \<in> set (ansi ([CHR 0x1B] @ ''[31mred'') (\<lambda>_. Some Role_Error)) \<and> (\<forall>sp\<in>set l. inert (sp_text sp))"
proof -
  have ok: "from_utf8 ([CHR 0x1B] @ ''[31mred'')"
    by (simp add: from_utf8_def utf8_error.simps utf8_head_def code_def)
  have "str_lines ([CHR 0x1B] @ ''[31mred'') \<noteq> []"
    by (simp add: str_lines_def newline_def)
  then obtain l where "l \<in> set (ansi ([CHR 0x1B] @ ''[31mred'') (\<lambda>_. Some Role_Error))"
    by (metis (no_types, lifting) ansi_def list.set_intros(1) map_is_Nil_conv neq_Nil_conv)
  with painted_text_inert [OF ok, of l "\<lambda>_. Some Role_Error"] show ?thesis
    by blast
qed

end
