(* ===== verification/Tools.thy ===== *)
theory Tools
  imports File_Reading Json_Value Paint
begin

text \<open>
  Tools as casper describes them (\<open>tools.rs\<close>, \<open>tools/files.rs\<close>, \<open>tools/read_data.rs\<close>,
  \<open>tools/revision.rs\<close>): calls, what a call produced, the file metadata beside it, the revision guard a
  call may carry and the bounds of a read.
\<close>

section \<open>File metadata\<close>

datatype file_operation = Op_Read | Op_Edit | Op_Write

record file_capability =
  cap_version :: nat
  cap_operation :: file_operation

record file_absence =
  ab_version :: nat
  ab_path_key :: string

record file_observation =
  ob_path_key :: string
  ob_revision :: string
  ob_coverage :: string

record file_mutation =
  fmu_id :: string
  fmu_outcome :: string
  fmu_durability :: "string option"

record file_metadata =
  fm_absence :: "file_absence option"
  fm_contract :: "nat option"
  fm_observations :: "file_observation list"
  fm_mutation :: "file_mutation option"

definition FileMetadata_default :: file_metadata where
  "FileMetadata_default = \<lparr>fm_absence = None, fm_contract = None, fm_observations = [], fm_mutation = None\<rparr>"

section \<open>Calls and what they produce\<close>

record image =
  im_data :: string
  im_media_type :: string

record wondering =
  wo_wonder :: string
  wo_args :: json
  wo_about :: string

datatype place = Place_Prompt | Place_Float | Place_Block

record surface =
  su_rows :: nat
  su_about :: string
  su_tick :: "nat option"
  su_place :: place
  su_tenant :: "string option"
  su_detach :: bool

record answer_choice =
  an_id :: string
  an_label :: string
  an_about :: string

record ask =
  ask_question :: string
  ask_options :: "answer_choice list"
  ask_detail :: "line list"

datatype shown = Painted "line list" | Shown_Ask ask | Shown_Surface surface | Shown_Wonder wondering

record ran =
  ran_files :: file_metadata
  ran_images :: "image list"
  ran_said :: string
  ran_failed :: bool
  ran_shown :: "shown option"
  ran_unlocks :: "string list"
  ran_brief :: "string option"
  ran_back :: "string option"
  ran_keep :: bool

definition Ran_default :: ran where
  "Ran_default =
     \<lparr>ran_files = FileMetadata_default, ran_images = [], ran_said = [], ran_failed = False, ran_shown = None,
      ran_unlocks = [], ran_brief = None, ran_back = None, ran_keep = False\<rparr>"

definition Ran_said :: "string \<Rightarrow> ran" where
  "Ran_said s = Ran_default\<lparr>ran_said := s\<rparr>"

definition Ran_failed :: "string \<Rightarrow> ran" where
  "Ran_failed s = Ran_default\<lparr>ran_said := s, ran_failed := True\<rparr>"

definition Ran_shown :: "line list \<Rightarrow> ran \<Rightarrow> ran" where
  "Ran_shown ls r = r\<lparr>ran_shown := Some (Painted ls)\<rparr>"

definition Ran_asking :: "ask \<Rightarrow> ran" where
  "Ran_asking a = Ran_default\<lparr>ran_shown := Some (Shown_Ask a)\<rparr>"

definition Ran_wondering :: "wondering \<Rightarrow> ran" where
  "Ran_wondering w = Ran_default\<lparr>ran_shown := Some (Shown_Wonder w)\<rparr>"

definition ran_waiting :: "ran \<Rightarrow> bool" where
  "ran_waiting r =
     (case ran_shown r of Some (Shown_Ask _) \<Rightarrow> True | Some (Shown_Wonder _) \<Rightarrow> True | _ \<Rightarrow> False)"

section \<open>Sessions\<close>

fun split_white :: "uchar list \<Rightarrow> uchar list \<Rightarrow> bytes list" where
  "split_white word [] = (if word = [] then [] else [concat word])"
| "split_white word (c # cs) =
     (if white_space c then (if word = [] then split_white [] cs else concat word # split_white [] cs)
      else split_white (word @ [c]) cs)"

definition split_whitespace :: "string \<Rightarrow> string list" where
  "split_whitespace s = split_white [] (chars s)"

text \<open>What follows the last closing parenthesis, if there is one.\<close>

definition after_last_paren :: "string \<Rightarrow> string option" where
  "after_last_paren s =
     (if CHR '')'' \<in> set s then Some (rev (takeWhile (\<lambda>b. b \<noteq> CHR '')'') (rev s))) else None)"

definition stat_started :: "string \<Rightarrow> string option" where
  "stat_started stat =
     Option.bind (after_last_paren stat) (\<lambda>fields.
     let ws = split_whitespace fields in
     if 19 < length ws \<and> list_all is_ascii_digit (ws ! 19) then Some (ws ! 19) else None)"

definition session_of :: "nat option \<Rightarrow> (nat \<Rightarrow> string option) \<Rightarrow> string option" where
  "session_of ppid stat_of =
     Option.bind ppid (\<lambda>parent.
     Option.bind (stat_of parent) (\<lambda>stat.
     map_option (\<lambda>at. dec_text parent @ ''-'' @ at) (stat_started stat)))"

section \<open>Revision guards\<close>

record revision_fields =
  rv_file_revision :: "json option"
  rv_file_recovery :: "json option"
  rv_contract :: "json option"
  rv_expected :: "json option"
  rv_mutation :: "json option"

record tool_call =
  tc_tool :: string
  tc_args :: json
  tc_cwd :: string
  tc_answered :: "string option"
  tc_revision :: revision_fields

record tool_guard =
  tg_expected :: string
  tg_mutation :: string

definition mutation_requested :: "revision_fields \<Rightarrow> bool" where
  "mutation_requested v \<longleftrightarrow> rv_contract v \<noteq> None \<or> rv_expected v \<noteq> None \<or> rv_mutation v \<noteq> None"

definition revision_requested :: "revision_fields \<Rightarrow> bool" where
  "revision_requested v \<longleftrightarrow> rv_file_revision v \<noteq> None \<or> rv_file_recovery v \<noteq> None \<or> mutation_requested v"

definition BAD_GUARD :: string where
  "BAD_GUARD = ''file revision contract needs version1, a supported expected_revision and bounded mutation_id''"

definition digest_ok :: "string \<Rightarrow> bool" where
  "digest_ok e \<longleftrightarrow>
     (case strip_prefix ''cfr1:'' e of
        None \<Rightarrow> False
      | Some digest \<Rightarrow> length digest = 64 \<and> list_all (\<lambda>b. is_ascii_digit b \<or> 97 \<le> code b \<and> code b \<le> 102) digest)"

definition revision_guard :: "revision_fields \<Rightarrow> string + tool_guard" where
  "revision_guard v =
     rbind (ensure (Option.bind (rv_contract v) as_u64 = Some 1) BAD_GUARD) (\<lambda>_.
     rbind (ok_or (Option.bind (rv_expected v) as_str) BAD_GUARD) (\<lambda>expected.
     rbind (ok_or (Option.bind (rv_mutation v) as_str) BAD_GUARD) (\<lambda>mid.
     rbind (ensure (mid \<noteq> [] \<and> length mid \<le> 128
                    \<and> list_all (\<lambda>b. is_ascii_alphanumeric b \<or> b = CHR ''-'' \<or> b = CHR ''_'') mid
                    \<and> (expected = ''absent'' \<or> digest_ok expected)) BAD_GUARD) (\<lambda>_.
     Inr \<lparr>tg_expected = expected, tg_mutation = mid\<rparr>))))"

text \<open>\<open>capability_of\<close> is the derived reading of a capability, as far as the value has that shape.\<close>

definition revision_admission ::
  "(json \<Rightarrow> file_capability option) \<Rightarrow> revision_fields \<Rightarrow> string + file_capability option" where
  "revision_admission capability_of v =
     (case rv_file_revision v of
        None \<Rightarrow> Inr None
      | Some j \<Rightarrow>
          rbind (ok_or (capability_of j) ''file revision admission is incomplete or unsupported'') (\<lambda>c.
          rbind (ensure (cap_version c = 1) ''file revision admission version is unsupported'') (\<lambda>_.
          Inr (Some c))))"

definition admits_read :: "file_capability option \<Rightarrow> bool" where
  "admits_read a = (case a of None \<Rightarrow> False | Some c \<Rightarrow> cap_operation c = Op_Read)"

definition revision_validate ::
  "(json \<Rightarrow> file_capability option) \<Rightarrow> revision_fields \<Rightarrow> string + file_capability option" where
  "revision_validate capability_of v =
     rbind (revision_admission capability_of v) (\<lambda>admission.
     rbind (ensure (\<not> (rv_file_recovery v \<noteq> None
                       \<and> (Option.bind (rv_file_recovery v) as_u64 \<noteq> Some 1 \<or> \<not> admits_read admission)))
              ''file recovery requires supported version1 native read admission'') (\<lambda>_.
     rbind (if admits_read admission
            then ensure (\<not> mutation_requested v) ''file revision read admission cannot carry mutation guards''
            else if revision_requested v then rbind (revision_guard v) (\<lambda>_. Inr ()) else Inr ()) (\<lambda>_.
     Inr admission)))"

definition revision_recovering :: "revision_fields \<Rightarrow> bool" where
  "revision_recovering v \<longleftrightarrow> Option.bind (rv_file_recovery v) as_u64 = Some 1"

section \<open>Reads\<close>

record read_args =
  ra_path :: string
  ra_offset :: "nat option"
  ra_limit :: "nat option"

definition ReadArgs_parse :: "(json \<Rightarrow> string + read_args) \<Rightarrow> json \<Rightarrow> string + read_args" where
  "ReadArgs_parse args_of j =
     rbind (args_of j) (\<lambda>a.
     rbind (ensure (ra_path a \<noteq> [] \<and> length (ra_path a) \<le> 4096 \<and> NUL \<notin> set (ra_path a))
              ''native read path exceeds its bounds'') (\<lambda>_.
     rbind (ensure (ra_offset a \<noteq> Some 0
                    \<and> (case ra_limit a of None \<Rightarrow> True | Some n \<Rightarrow> n \<noteq> 0 \<and> n \<le> 5000))
              ''native read offset/limit is outside the declared bounds'') (\<lambda>_.
     Inr a)))"

definition args_offset :: "read_args \<Rightarrow> nat" where
  "args_offset a = (case ra_offset a of None \<Rightarrow> 1 | Some n \<Rightarrow> n)"

definition args_limit :: "read_args \<Rightarrow> nat" where
  "args_limit a = (case ra_limit a of None \<Rightarrow> 2000 | Some n \<Rightarrow> n)"

record read_text =
  rt_source_text :: "string option"
  rt_text :: string
  rt_source_bytes :: nat
  rt_total_lines :: nat
  rt_first_line :: nat
  rt_last_line :: nat
  rt_omitted_bytes :: nat

datatype read_data = Read_Text read_text | Read_Image image

definition read_text_validate :: "read_args \<Rightarrow> read_text \<Rightarrow> string + unit" where
  "read_text_validate a t =
     ensure
       (rt_first_line t = args_offset a
        \<and> rt_last_line t = min (saturating_add (rt_first_line t - 1) (args_limit a)) (rt_total_lines t)
        \<and> rt_total_lines t \<le> rt_source_bytes t
        \<and> rt_omitted_bytes t \<le> rt_source_bytes t
        \<and> length (rt_text t) \<le> RUNNING_MOST * 3
        \<and> (case rt_source_text t of None \<Rightarrow> True
           | Some s \<Rightarrow> length s = rt_source_bytes t \<and> length s < EDIT_BYTES \<and> NUL \<notin> set s))
       ''broker read data has invalid bounds or range''"

definition presentation :: "reading \<Rightarrow> read_text" where
  "presentation r =
     \<lparr>rt_source_text = map_option source_text (read_snapshot r), rt_text = shown_text r,
      rt_source_bytes = read_source_bytes r, rt_total_lines = total_lines r, rt_first_line = first_line r,
      rt_last_line = last_line r, rt_omitted_bytes = omitted_bytes r\<rparr>"

section \<open>The tool layer agrees with the file worker\<close>

lemma digest_ok_iff: "digest_ok e \<longleftrightarrow> revision_text e = Inr ()"
  by (auto simp: digest_ok_def revision_text_def Key_from_wire_def wire_key_def lower_hex_def list_all_iff
      result_simps split: option.splits if_splits)

text \<open>
  the two places that judge a mutation guard agree: the tool layer accepts the fields of a call
  exactly when they have the declared JSON shapes and the file worker accepts the guard made of them,
  for a creation when the expected revision is absent and for a change otherwise.
\<close>

theorem guard_judgements_agree:
  "revision_guard v = Inr g \<longleftrightarrow>
     rv_contract v = Some (JNumber (PosInt 1)) \<and> rv_expected v = Some (JString (tg_expected g))
     \<and> rv_mutation v = Some (JString (tg_mutation g))
     \<and> guard_ok \<lparr>revision_contract = 1, expected_revision = tg_expected g, mutation_id = tg_mutation g\<rparr>
     \<and> (tg_expected g = ''absent'' \<or> revision_text (tg_expected g) = Inr ())"
  by (cases g)
    (auto simp: revision_guard_def result_simps guard_ok_def identity_ok_def identity_char_def digest_ok_iff
      bind_eq_Some_conv as_u64_iff as_str_iff list_all_iff split: if_splits)

lemma snapshot_validate_ok:
  "snapshot_validate k s = Inr u \<Longrightarrow>
     source_bytes s = length (source_text s) \<and> length (source_text s) < EDIT_BYTES \<and> NUL \<notin> set (source_text s)"
  by (auto simp: snapshot_validate_def result_simps split: if_splits)

text \<open>
  a reading the coordinator accepted is accepted by every later consumer: presented as read data,
  it passes the bounds the broker's client checks for the same arguments.
\<close>

theorem presentation_accepted:
  assumes "reading_validate k (args_offset a) (args_limit a) r = Inr ()"
  shows "read_text_validate a (presentation r) = Inr ()"
proof -
  have "source_bytes s = read_source_bytes r \<and> snapshot_validate k s = Inr ()" if "read_snapshot r = Some s" for s
    using assms that by (auto simp: reading_validate_def result_simps split: if_splits)
  then show ?thesis
    using assms snapshot_validate_ok
    by (auto simp: reading_validate_def read_text_validate_def presentation_def last_shown_def result_simps
        split: if_splits option.splits)
qed

definition demo_reading :: reading where
  "demo_reading =
     \<lparr>read_contract = 1, read_path_key = ''k'', shown_text = ''a'', read_source_bytes = 1, total_lines = 1,
      first_line = 1, last_line = 1, omitted_bytes = 0, read_snapshot = None\<rparr>"

theorem presentation_accepted_witness:
  "read_text_validate \<lparr>ra_path = ''p'', ra_offset = None, ra_limit = None\<rparr> (presentation demo_reading) = Inr ()"
  by (rule presentation_accepted [where k = "''k''"])
    (simp add: reading_validate_def demo_reading_def args_offset_def args_limit_def last_shown_def saturating_add_def
      usize_max_def RUNNING_MOST_def)

end
