(* ===== verification/File_Transaction.thy ===== *)
theory File_Transaction
  imports File_Snapshot
begin

text \<open>
  \<open>src/files/worker/staging.rs\<close> and \<open>src/files/worker/transaction.rs\<close>: a mutation is verified against
  the revision the caller saw, staged in an anonymous file, verified again and committed by one
  atomic link or rename.  The theorems bound what every run, under any kernel and any interference,
  does to the target name.
\<close>

section \<open>Staging\<close>

record stage =
  stage_parent :: fd
  stage_file :: fd
  linked :: "string option"

definition supported_filesystems :: "nat list" where
  "supported_filesystems = [0x01021994, 0xEF53, 0x9123683E, 0x58465342]"

definition no_xattrs :: "kernel \<Rightarrow> fd \<Rightarrow> unit sys" where
  "no_xattrs K f =
     sbind (ask (List_xattr f) (\<lambda>h. k_list_xattr K h f)) (\<lambda>answer.
       scheck (answer = Inr 0)
         (bad_data ''native atomic mutation refuses ACLs, xattrs or unverifiable extended metadata''))"

definition source_metadata :: "kernel \<Rightarrow> acquired \<Rightarrow> unit sys" where
  "source_metadata K source =
     sbind (scheck (st_uid (metadata source) = k_euid K \<and> st_gid (metadata source) \<noteq> - 1
                    \<and> privileged_bits (st_mode (metadata source)) = 0
                    \<and> owner_writable (st_mode (metadata source)))
              (bad_data ''native atomic mutation requires an owner-writable file without privileged mode bits'')) (\<lambda>_.
     no_xattrs K (source_file source))"

definition preserve_ownership :: "kernel \<Rightarrow> fd \<Rightarrow> stat \<Rightarrow> unit sys" where
  "preserve_ownership K f meta =
     sbind (sys_fstat K f) (\<lambda>own.
     sbind (if st_gid own \<noteq> st_gid meta
            then sbind (ask (Fchown f (st_gid meta)) (\<lambda>h. k_fchown K h f (st_gid meta))) (\<lambda>answer.
                   slift (map_err (\<lambda>e. other_error
                     (''native mutation cannot preserve group ownership: '' @ k_strerror K e)) answer))
            else sreturn ()) (\<lambda>_.
     sbind (call K (Fchmod f (permission_bits (st_mode meta)))
              (\<lambda>h. k_fchmod K h f (permission_bits (st_mode meta)))) (\<lambda>_.
     sbind (sys_fstat K f) (\<lambda>staged.
     scheck (st_uid staged = st_uid meta \<and> st_gid staged = st_gid meta
             \<and> all_mode_bits (st_mode staged) = all_mode_bits (st_mode meta))
       (bad_data ''native mutation cannot preserve exact ownership and mode'')))))"

definition prepare_checks :: "kernel \<Rightarrow> fd \<Rightarrow> acquired option \<Rightarrow> unit sys" where
  "prepare_checks K dir source =
     sbind (call K (Fstatfs dir) (\<lambda>h. k_fstatfs K h dir)) (\<lambda>magic.
     sbind (scheck (magic \<in> set supported_filesystems)
              (bad_data ''native atomic mutation requires a supported local filesystem'')) (\<lambda>_.
     sbind (ask (Default_acl dir) (\<lambda>h. k_default_acl K h dir)) (\<lambda>acl.
     sbind (scheck (acl = Inl NODATA)
              (bad_data ''native atomic mutation refuses inherited default ACLs or unverifiable ACL metadata'')) (\<lambda>_.
     case source of None \<Rightarrow> sreturn () | Some a \<Rightarrow> source_metadata K a))))"

definition open_stage :: "kernel \<Rightarrow> fd \<Rightarrow> 32 word \<Rightarrow> fd sys" where
  "open_stage K dir mode =
     sbind (ask (Tmpfile dir mode) (\<lambda>h. k_tmpfile K h dir mode)) (\<lambda>tmp.
     slift (map_err (\<lambda>e. other_error
       (''anonymous native staging is unavailable: '' @ k_strerror K e)) tmp))"

definition fill_stage :: "kernel \<Rightarrow> fd \<Rightarrow> acquired option \<Rightarrow> string \<Rightarrow> unit sys" where
  "fill_stage K f source text =
     sbind (no_xattrs K f) (\<lambda>_.
     sbind (call K (Write_all f text) (\<lambda>h. k_write_all K h f text)) (\<lambda>_.
     sbind (case source of None \<Rightarrow> sreturn () | Some a \<Rightarrow> preserve_ownership K f (metadata a)) (\<lambda>_.
     sbind (no_xattrs K f) (\<lambda>_.
     sbind (sys_fstat K f) (\<lambda>own.
     sbind (scheck (sint (st_size own) = int (length text)) (bad_data ''native stage is incomplete'')) (\<lambda>_.
     call K (Sync_all f) (\<lambda>h. k_sync_all K h f)))))))"

definition prepare :: "kernel \<Rightarrow> fd \<Rightarrow> acquired option \<Rightarrow> string \<Rightarrow> stage sys" where
  "prepare K dir source text =
     sbind (prepare_checks K dir source) (\<lambda>_.
     sbind (open_stage K dir (if source = None then 0x1B6 else 0x180)) (\<lambda>f.
     sbind (fill_stage K f source text) (\<lambda>_.
     sreturn \<lparr>stage_parent = dir, stage_file = f, linked = None\<rparr>)))"

definition stage_link :: "kernel \<Rightarrow> stage \<Rightarrow> string \<Rightarrow> unit sys" where
  "stage_link K st name =
     call K (Linkat (stage_file st) (stage_parent st) name)
       (\<lambda>h. k_linkat K h (stage_file st) (stage_parent st) name)"

text \<open>\<open>NAMES.fetch_add(1)\<close> wraps; the name is \<open>.casper-stage-{inode:x}-{pid:x}-{count:x}\<close>.\<close>

definition stage_name :: "kernel \<Rightarrow> 64 word \<Rightarrow> nat \<Rightarrow> string" where
  "stage_name K inode count =
     ''.casper-stage-'' @ hex_text (unat inode) @ ''-'' @ hex_text (k_pid K) @ ''-'' @ hex_text count"

definition fetch_name :: "nat sys" where
  "fetch_name w = (Inr (names w), w\<lparr>names := (names w + 1) mod 2 ^ 64\<rparr>)"

primrec link_attempts :: "kernel \<Rightarrow> stage \<Rightarrow> 64 word \<Rightarrow> nat \<Rightarrow> stage sys" where
  "link_attempts K st inode 0 = sfail (bad_data ''native stage name collision bound exceeded'')"
| "link_attempts K st inode (Suc n) =
     sbind fetch_name (\<lambda>count.
     stry (stage_link K st (stage_name K inode count)) (\<lambda>r.
       case r of
         Inr _ \<Rightarrow> sreturn (st\<lparr>linked := Some (stage_name K inode count)\<rparr>)
       | Inl e \<Rightarrow> if fst e = AlreadyExists then link_attempts K st inode n else sfail e))"

definition link_for_replace :: "kernel \<Rightarrow> stage \<Rightarrow> stage sys" where
  "link_for_replace K st =
     sbind (sys_fstat K (stage_file st)) (\<lambda>own. link_attempts K st (st_ino own) 32)"

definition owns :: "kernel \<Rightarrow> stage \<Rightarrow> string \<Rightarrow> bool sys" where
  "owns K st name =
     sbind (sys_fstat K (stage_file st)) (\<lambda>opened.
     sbind (call K (Statat (stage_parent st) name True)
              (\<lambda>h. k_statat K h (stage_parent st) name True)) (\<lambda>named.
     sreturn (regular_mode (st_mode named) \<and> same_object opened named
              \<and> st_nlink opened = 1 \<and> st_nlink named = 1)))"

definition stage_commit :: "kernel \<Rightarrow> stage \<Rightarrow> string \<Rightarrow> bool \<Rightarrow> stage sys" where
  "stage_commit K st target creation =
     (if creation then sbind (stage_link K st target) (\<lambda>_. sreturn st)
      else
        sbind (slift (ok_or (linked st) (bad_data ''native replacement stage has no binding''))) (\<lambda>name.
        sbind (owns K st name) (\<lambda>mine.
        sbind (scheck mine (bad_data ''native replacement stage binding changed'')) (\<lambda>_.
        sbind (call K (Renameat (stage_parent st) name target)
                 (\<lambda>h. k_renameat K h (stage_parent st) name target)) (\<lambda>_.
        sreturn (st\<lparr>linked := None\<rparr>))))))"

definition stage_matches :: "kernel \<Rightarrow> stage \<Rightarrow> acquired \<Rightarrow> bool sys" where
  "stage_matches K st source =
     sbind (sys_fstat K (stage_file st)) (\<lambda>own. sreturn (same_object own (metadata source)))"

text \<open>\<open>Drop for Stage\<close>.\<close>

definition stage_drop :: "kernel \<Rightarrow> stage \<Rightarrow> unit sys" where
  "stage_drop K st =
     (case linked st of
        None \<Rightarrow> sreturn ()
      | Some name \<Rightarrow>
          stry (owns K st name) (\<lambda>mine.
            if mine = Inr True
            then stry (call K (Unlinkat (stage_parent st) name)
                         (\<lambda>h. k_unlinkat K h (stage_parent st) name)) (\<lambda>_. sreturn ())
            else sreturn ()))"

definition or_drop :: "kernel \<Rightarrow> stage \<Rightarrow> 'a sys \<Rightarrow> 'a sys" where
  "or_drop K st m =
     stry m (\<lambda>r. case r of
       Inr a \<Rightarrow> sreturn a
     | Inl e \<Rightarrow> sbind (stage_drop K st) (\<lambda>_. sfail e))"

section \<open>The transaction\<close>

record mutation_result =
  result_id :: string
  outcome :: string
  durability :: string

record commit_report =
  commit_contract :: nat
  mutation :: mutation_result
  observation :: "snapshot option"
  warning :: "string option"

datatype edge = SnapshotVerified | Staged | BeforeCommit | Committed | DirectorySync

definition absent :: "kernel \<Rightarrow> resolved \<Rightarrow> unit sys" where
  "absent K R =
     sbind (ask (Statat (parent R) (leaf R) True)
              (\<lambda>h. k_statat K h (parent R) (leaf R) True)) (\<lambda>answer.
     case answer of
       Inr _ \<Rightarrow> sfail (AlreadyExists, ''native creation target already exists'')
     | Inl e \<Rightarrow> if e = NOENT then sreturn () else sfail (errno_error K e))"

definition verified_source :: "kernel \<Rightarrow> resolved \<Rightarrow> bool \<Rightarrow> string \<Rightarrow> acquired option sys" where
  "verified_source K R creation expected =
     (if creation then sbind (absent K R) (\<lambda>_. sreturn None)
      else
        sbind (acquire K R True) (\<lambda>a.
        sbind (scheck (revision (snap a) = expected)
                 (bad_data ''native source revision is stale; reread before mutation'')) (\<lambda>_.
        sreturn (Some a))))"

definition verified_again :: "kernel \<Rightarrow> resolved \<Rightarrow> bool \<Rightarrow> string \<Rightarrow> unit sys" where
  "verified_again K R creation expected =
     sbind (validate_parent K R) (\<lambda>_.
     if creation then absent K R
     else
       sbind (capture K R) (\<lambda>s.
       scheck (revision s = expected)
         (bad_data ''native source changed before commit; reread before mutation'')))"

definition observed ::
    "kernel \<Rightarrow> resolved \<Rightarrow> stage \<Rightarrow> string \<Rightarrow> snapshot option sys" where
  "observed K R st content =
     stry (acquire K R False) (\<lambda>r.
       case r of
         Inl _ \<Rightarrow> sreturn None
       | Inr a \<Rightarrow> stry (stage_matches K st a) (\<lambda>m.
           sreturn (if m = Inr True \<and> source_text (snap a) = content then Some (snap a) else None)))"

fun joined :: "string \<Rightarrow> string list \<Rightarrow> string" where
  "joined sep [] = []"
| "joined sep [x] = x"
| "joined sep (x # y # rest) = x @ sep @ joined sep (y # rest)"

definition report ::
    "kernel \<Rightarrow> (edge \<Rightarrow> unit sys) \<Rightarrow> resolved \<Rightarrow> stage \<Rightarrow> string \<Rightarrow> string \<Rightarrow> commit_report sys" where
  "report K edge R st identity content =
     stry (edge Committed) (\<lambda>reported.
     stry (sbind (edge DirectorySync) (\<lambda>_.
             call K (Fsync (parent R)) (\<lambda>h. k_fsync K h (parent R)))) (\<lambda>sync.
     sbind (observed K R st content) (\<lambda>obs.
     let warnings =
       (case reported of Inr _ \<Rightarrow> []
        | Inl e \<Rightarrow> [''committed; postcommit reporting failed: '' @ snd e])
       @ (case sync of Inr _ \<Rightarrow> []
          | Inl e \<Rightarrow> [''committed but directory durability is unconfirmed: '' @ snd e])
       @ (if obs = None
          then [''committed but a current observation could not be confirmed; reread required'']
          else [])
     in sreturn \<lparr>
       commit_contract = 1,
       mutation = \<lparr>result_id = identity, outcome = ''committed'',
         durability = (if is_ok sync then ''synced'' else ''unconfirmed'')\<rparr>,
       observation = obs,
       warning = (if warnings = [] then None else Some (joined ''; '' warnings))\<rparr>)))"

definition run_with ::
    "kernel \<Rightarrow> (edge \<Rightarrow> unit sys) \<Rightarrow> resolved \<Rightarrow> request \<Rightarrow> commit_report sys" where
  "run_with K edge R req =
     sbind (slift (request_validate req)) (\<lambda>_.
     sbind (slift (ok_or (request_guard req) (other_error ''native mutation guard missing''))) (\<lambda>g.
     sbind (validate_parent K R) (\<lambda>_.
     sbind (verified_source K R (creating (operation req)) (expected_revision g)) (\<lambda>source.
     sbind (slift (request_content req (map_option (\<lambda>a. source_text (snap a)) source))) (\<lambda>content.
     sbind (edge SnapshotVerified) (\<lambda>_.
     sbind (prepare K (parent R) source content) (\<lambda>st.
     sbind (or_drop K st (edge Staged)) (\<lambda>_.
     sbind (if creating (operation req) then sreturn st
            else or_drop K st (link_for_replace K st)) (\<lambda>st.
     sbind (or_drop K st (edge BeforeCommit)) (\<lambda>_.
     sbind (or_drop K st (verified_again K R (creating (operation req)) (expected_revision g))) (\<lambda>_.
     sbind (or_drop K st (stage_commit K st (leaf R) (creating (operation req)))) (\<lambda>st.
     sbind (report K edge R st (mutation_id g) content) (\<lambda>c.
     sbind (stage_drop K st) (\<lambda>_. sreturn c))))))))))))))"

definition transaction_run :: "kernel \<Rightarrow> resolved \<Rightarrow> request \<Rightarrow> commit_report sys" where
  "transaction_run K R req = run_with K (\<lambda>_. sreturn ()) R req"

definition commit_validate :: "string \<Rightarrow> request \<Rightarrow> commit_report \<Rightarrow> error + unit" where
  "commit_validate k req c =
     rbind (ok_or (request_guard req) (other_error ''mutation reply has no request guard'')) (\<lambda>g.
     rbind (ensure
       (commit_contract c = 1 \<and> result_id (mutation c) = mutation_id g
        \<and> outcome (mutation c) = ''committed''
        \<and> (durability (mutation c) = ''synced'' \<or> durability (mutation c) = ''unconfirmed'')
        \<and> \<not> ((observation c = None \<or> durability (mutation c) = ''unconfirmed'') \<and> warning c = None)
        \<and> (case warning c of None \<Rightarrow> True | Some v \<Rightarrow> v \<noteq> [] \<and> length v \<le> 2048))
       (other_error ''native mutation reply is incomplete or unsupported; outcome unknown, reread required'')) (\<lambda>_.
     case observation c of
       None \<Rightarrow> Inr ()
     | Some s \<Rightarrow>
         rbind (snapshot_validate k s) (\<lambda>_.
         case operation req of
           Replace content \<Rightarrow> ensure (source_text s = content)
             (other_error ''native commit observation does not match the requested content; reread required'')
         | Create content \<Rightarrow> ensure (source_text s = content)
             (other_error ''native commit observation does not match the requested content; reread required'')
         | _ \<Rightarrow> Inr ())))"

section \<open>Which calls touch the target name\<close>

definition commits_to :: "resolved \<Rightarrow> event \<Rightarrow> bool" where
  "commits_to R e \<longleftrightarrow> snd e \<and>
     (case fst e of
        Linkat _ dir name \<Rightarrow> dir = parent R \<and> name = leaf R
      | Renameat dir _ name \<Rightarrow> dir = parent R \<and> name = leaf R
      | _ \<Rightarrow> False)"

abbreviation quiet :: "resolved \<Rightarrow> event \<Rightarrow> bool" where
  "quiet R e \<equiv> \<not> commits_to R e"

definition staging_name :: "string \<Rightarrow> bool" where
  "staging_name name \<longleftrightarrow> prefix ''.casper-stage-'' name"

lemma stage_name_staging [simp]: "staging_name (stage_name K inode count)"
  by (simp add: staging_name_def stage_name_def)

lemma harmless_quiet: "harmless e \<Longrightarrow> quiet R e"
  by (cases e; cases "fst e") (auto simp: harmless_def commits_to_def)

lemma quiet_of_harmless: "issues harmless m \<Longrightarrow> issues (quiet R) m"
  using issues_mono [of harmless m "quiet R"] harmless_quiet by blast

lemmas quiet_looks = validate_parent_harmless [THEN quiet_of_harmless]
  acquire_harmless [THEN quiet_of_harmless] capture_harmless [THEN quiet_of_harmless]

text \<open>
  \<open>counts R n m\<close>: a run of \<open>m\<close> that succeeds binds the target name exactly \<open>n\<close> times, and one that
  fails never does.
\<close>

definition counts :: "resolved \<Rightarrow> nat \<Rightarrow> 'a sys \<Rightarrow> bool" where
  "counts R n m \<longleftrightarrow> (\<forall>w r w'. m w = (r, w') \<longrightarrow>
     (\<exists>es. history w' = history w @ es
        \<and> length (filter (commits_to R) es) = (if is_ok r then n else 0)))"

definition never_fails :: "'a sys \<Rightarrow> bool" where
  "never_fails m \<longleftrightarrow> (\<forall>w. is_ok (fst (m w)))"

lemma counts_quiet:
  assumes "issues (quiet R) m"
  shows "counts R 0 m"
  unfolding counts_def
proof (intro allI impI)
  fix w r w'
  assume "m w = (r, w')"
  with assms obtain es where "history w' = history w @ es" "list_all (quiet R) es"
    by (rule issuesD)
  then show "\<exists>es. history w' = history w @ es
      \<and> length (filter (commits_to R) es) = (if is_ok r then 0 else 0)"
    by (intro exI [of _ es]) (simp add: filter_empty_conv list_all_iff)
qed

lemma counts_bind_front:
  assumes m: "counts R 0 m" and f: "\<And>a w u. m w = (Inr a, u) \<Longrightarrow> counts R n (f a)"
  shows "counts R n (sbind m f)"
  unfolding counts_def
proof (intro allI impI)
  fix w r w'
  assume run: "sbind m f w = (r, w')"
  obtain x u where x: "m w = (x, u)"
    by fastforce
  then obtain es where es: "history u = history w @ es" "filter (commits_to R) es = []"
    using m by (fastforce simp: counts_def)
  show "\<exists>es. history w' = history w @ es
      \<and> length (filter (commits_to R) es) = (if is_ok r then n else 0)"
  proof (cases x)
    case (Inl e)
    then show ?thesis
      using run x es by (auto simp: sbind_def)
  next
    case (Inr a)
    then have "f a u = (r, w')"
      using run x by (simp add: sbind_def)
    then obtain fs where "history w' = history u @ fs"
        "length (filter (commits_to R) fs) = (if is_ok r then n else 0)"
      using f x Inr by (fastforce simp: counts_def)
    then show ?thesis
      using es by auto
  qed
qed

lemma counts_bind_back:
  assumes m: "counts R n m" and f: "\<And>a. counts R 0 (f a)" "\<And>a. never_fails (f a)"
  shows "counts R n (sbind m f)"
  unfolding counts_def
proof (intro allI impI)
  fix w r w'
  assume run: "sbind m f w = (r, w')"
  obtain x u where x: "m w = (x, u)"
    by fastforce
  then obtain es where es: "history u = history w @ es"
      "length (filter (commits_to R) es) = (if is_ok x then n else 0)"
    using m by (fastforce simp: counts_def)
  show "\<exists>es. history w' = history w @ es
      \<and> length (filter (commits_to R) es) = (if is_ok r then n else 0)"
  proof (cases x)
    case (Inl e)
    then show ?thesis
      using run x es by (auto simp: sbind_def)
  next
    case (Inr a)
    then have fa: "f a u = (r, w')"
      using run x by (simp add: sbind_def)
    then obtain fs where "history w' = history u @ fs" "filter (commits_to R) fs = []"
      using f(1) [of a] by (fastforce simp: counts_def)
    moreover have "is_ok r"
      using f(2) [of a] fa by (metis fst_conv never_fails_def)
    ultimately show ?thesis
      using es Inr by auto
  qed
qed

lemma never_fails_return [simp]: "never_fails (sreturn a)"
  by (simp add: never_fails_def sreturn_def)

lemma never_fails_try: "(\<And>x. never_fails (f x)) \<Longrightarrow> never_fails (stry m f)"
  by (simp add: never_fails_def stry_def split: prod.splits)

lemma never_fails_bind: "never_fails m \<Longrightarrow> (\<And>x. never_fails (f x)) \<Longrightarrow> never_fails (sbind m f)"
  unfolding never_fails_def sbind_def
  by (metis (no_types, lifting) case_prod_beta is_ok_iff old.sum.simps(6) surjective_pairing)

section \<open>Every part but the commit leaves the target name alone\<close>

lemma no_xattrs_quiet [issues_intros]: "issues (quiet R) (no_xattrs K f)"
  unfolding no_xattrs_def by (intro issues_intros; simp add: commits_to_def)

lemma source_metadata_quiet [issues_intros]: "issues (quiet R) (source_metadata K a)"
  unfolding source_metadata_def by (intro issues_intros)

lemma preserve_ownership_quiet [issues_intros]: "issues (quiet R) (preserve_ownership K f m)"
  unfolding preserve_ownership_def sys_fstat_def by (intro issues_intros; simp add: commits_to_def)

lemma prepare_checks_quiet [issues_intros]: "issues (quiet R) (prepare_checks K d source)"
  unfolding prepare_checks_def by (intro issues_intros; simp add: commits_to_def)

lemma open_stage_quiet [issues_intros]: "issues (quiet R) (open_stage K d mode)"
  unfolding open_stage_def by (intro issues_intros; simp add: commits_to_def)

lemma fill_stage_quiet [issues_intros]: "issues (quiet R) (fill_stage K f source t)"
  unfolding fill_stage_def sys_fstat_def by (intro issues_intros; simp add: commits_to_def)

lemma prepare_quiet [issues_intros]: "issues (quiet R) (prepare K d source t)"
  unfolding prepare_def by (intro issues_intros)

lemma owns_quiet [issues_intros]: "issues (quiet R) (owns K st name)"
  unfolding owns_def sys_fstat_def by (intro issues_intros; simp add: commits_to_def)

lemma stage_drop_quiet [issues_intros]: "issues (quiet R) (stage_drop K st)"
  unfolding stage_drop_def by (intro issues_intros; simp add: commits_to_def)

lemma or_drop_quiet [issues_intros]:
  "issues (quiet R) m \<Longrightarrow> issues (quiet R) (or_drop K st m)"
  unfolding or_drop_def by (intro issues_intros)

lemma absent_quiet [issues_intros]: "issues (quiet R) (absent K R')"
  unfolding absent_def by (intro issues_intros; simp add: commits_to_def)

lemma verified_source_quiet [issues_intros]: "issues (quiet R) (verified_source K R' c e)"
  unfolding verified_source_def by (intro issues_intros quiet_looks)

lemma verified_again_quiet [issues_intros]: "issues (quiet R) (verified_again K R' c e)"
  unfolding verified_again_def by (intro issues_intros quiet_looks)

lemma observed_quiet [issues_intros]: "issues (quiet R) (observed K R' st content)"
  unfolding observed_def stage_matches_def sys_fstat_def
  by (intro issues_intros quiet_looks; simp add: commits_to_def)

lemma fetch_name_quiet [issues_intros]: "issues P fetch_name"
  by (simp add: issues_def fetch_name_def)

lemma link_attempts_quiet:
  "\<not> staging_name (leaf R) \<Longrightarrow> issues (quiet R) (link_attempts K st inode n)"
proof (induction n)
  case (Suc n)
  have "stage_name K inode count \<noteq> leaf R" for count
    using Suc.prems stage_name_staging by metis
  then have "issues (quiet R) (stage_link K st (stage_name K inode count))" for count
    unfolding stage_link_def by (intro issues_intros; simp add: commits_to_def)
  then show ?case
    using Suc by (auto intro!: issues_intros)
qed simp

lemma link_for_replace_quiet [issues_intros]:
  "\<not> staging_name (leaf R) \<Longrightarrow> issues (quiet R) (link_for_replace K st)"
  unfolding link_for_replace_def sys_fstat_def
  by (intro issues_intros link_attempts_quiet; simp add: commits_to_def)

section \<open>The parts as equations on successful runs\<close>

lemma or_drop_ok [sys_ok]: "or_drop K st m w = (Inr a, w') \<longleftrightarrow> m w = (Inr a, w')"
  by (cases "m w"; cases "fst (m w)")
     (auto simp: or_drop_def stry_def sbind_def sreturn_def sfail_def split: prod.splits sum.splits)

lemma if_or_drop_ok [sys_ok]:
  "(if b then m else or_drop K st n) w = (Inr a, w') \<longleftrightarrow> (if b then m else n) w = (Inr a, w')"
  by (simp add: or_drop_ok)

lemma prepare_stage:
  assumes "prepare K d source t w = (Inr st, w')"
  shows "stage_parent st = d" "linked st = None"
  using assms unfolding prepare_def sys_ok by auto

lemma link_attempts_stage:
  "link_attempts K st inode n w = (Inr st', w') \<Longrightarrow>
     stage_parent st' = stage_parent st \<and> stage_file st' = stage_file st \<and> linked st' \<noteq> None"
proof (induction n arbitrary: w)
  case (Suc n)
  then show ?case
    by (auto simp: stry_def sbind_def fetch_name_def sreturn_def sfail_def
        split: prod.splits sum.splits if_splits)
qed (simp add: sfail_def)

lemma link_for_replace_stage:
  "link_for_replace K st w = (Inr st', w') \<Longrightarrow>
     stage_parent st' = stage_parent st \<and> stage_file st' = stage_file st \<and> linked st' \<noteq> None"
  by (auto simp: link_for_replace_def sys_ok dest: link_attempts_stage)

lemma observed_never_fails: "never_fails (observed K R st content)"
  unfolding observed_def by (intro never_fails_try) (auto split: sum.splits intro: never_fails_try)

lemma stage_drop_never_fails: "never_fails (stage_drop K st)"
  unfolding stage_drop_def by (auto intro!: never_fails_try split: option.splits)

lemma report_never_fails: "never_fails (report K edge R st i content)"
  unfolding report_def Let_def
  by (intro never_fails_try never_fails_bind observed_never_fails never_fails_return)

lemma report_quiet:
  assumes "\<And>e. issues (quiet R) (edge e)"
  shows "issues (quiet R) (report K edge R' st i content)"
  unfolding report_def Let_def using assms
  by (intro issues_intros; simp add: commits_to_def)

lemma or_drop_counts:
  assumes "counts R n m"
  shows "counts R n (or_drop K st m)"
  unfolding counts_def
proof (intro allI impI)
  fix w r w'
  assume run: "or_drop K st m w = (r, w')"
  obtain x u where x: "m w = (x, u)"
    by fastforce
  obtain es where es: "history u = history w @ es"
      "length (filter (commits_to R) es) = (if is_ok x then n else 0)"
    using assms x by (fastforce simp: counts_def)
  show "\<exists>es. history w' = history w @ es
      \<and> length (filter (commits_to R) es) = (if is_ok r then n else 0)"
  proof (cases x)
    case (Inr a)
    then show ?thesis
      using run x es by (auto simp: or_drop_def stry_def sreturn_def)
  next
    case (Inl e)
    obtain y v where y: "stage_drop K st u = (y, v)"
      by fastforce
    then have "w' = v" "\<not> is_ok r"
      using run x Inl by (auto simp: or_drop_def stry_def sbind_def sfail_def split: sum.splits)
    moreover obtain fs where "history v = history u @ fs" "list_all (quiet R) fs"
      using stage_drop_quiet y by (rule issuesD)
    ultimately show ?thesis
      using es Inl by (auto simp: list_all_iff filter_empty_conv)
  qed
qed

section \<open>The commit\<close>

text \<open>The one call that binds the target name, and the calls a replacement makes right before it.\<close>

definition commit_calls :: "resolved \<Rightarrow> stage \<Rightarrow> bool \<Rightarrow> event list" where
  "commit_calls R st creation =
     (if creation then [(Linkat (stage_file st) (parent R) (leaf R), True)]
      else [(Fstat (stage_file st), True), (Statat (parent R) (the (linked st)) True, True),
            (Renameat (parent R) (the (linked st)) (leaf R), True)])"

lemma commit_calls_once: "length (filter (commits_to R) (commit_calls R st c)) = 1"
  by (simp add: commit_calls_def commits_to_def)

lemma stage_commit_ok:
  assumes "stage_commit K st (leaf R) c w = (Inr st', w')" "stage_parent st = parent R"
  shows "history w' = history w @ commit_calls R st c"
    "st' = (if c then st else st\<lparr>linked := None\<rparr>)"
  using assms
  by (auto simp: stage_commit_def stage_link_def owns_def sys_fstat_def sys_ok commit_calls_def
      split: if_splits)

lemma counts_call:
  assumes "commits_to R (c, True)"
  shows "counts R 1 (call K c answer)"
  using assms by (auto simp: counts_def call_def Let_def commits_to_def is_ok_def split: sum.splits)

lemma stage_commit_counts:
  assumes "stage_parent st = parent R"
  shows "counts R 1 (stage_commit K st (leaf R) c)"
proof (cases c)
  case True
  then show ?thesis
    using assms unfolding stage_commit_def stage_link_def
    by (auto intro!: counts_bind_back counts_call [unfolded One_nat_def] counts_quiet
        issues_intros simp: commits_to_def)
next
  case False
  have renaming: "counts R 1 (sbind (call K (Renameat (parent R) name (leaf R))
      (\<lambda>h. k_renameat K h (parent R) name (leaf R))) (\<lambda>_. sreturn (st\<lparr>linked := None\<rparr>)))" for name
    by (intro counts_bind_back counts_call counts_quiet issues_return never_fails_return)
       (simp add: commits_to_def)
  show ?thesis
    unfolding stage_commit_def assms if_not_P [OF False]
    by (intro counts_bind_front [OF counts_quiet, OF issues_lift]
        counts_bind_front [OF counts_quiet, OF owns_quiet]
        counts_bind_front [OF counts_quiet, OF issues_check] renaming)
qed

lemma run_with_counts:
  assumes edge: "\<And>e. issues (quiet R) (edge e)" and leaf: "\<not> staging_name (leaf R)"
  shows "counts R 1 (run_with K edge R req)"
proof -
  have tail: "counts R 1 (sbind (or_drop K st (stage_commit K st (leaf R) c)) (\<lambda>st.
      sbind (report K edge R st i content) (\<lambda>r. sbind (stage_drop K st) (\<lambda>_. sreturn r))))"
    if "stage_parent st = parent R" for st c i content
    using that edge
    by (intro counts_bind_back or_drop_counts stage_commit_counts counts_quiet issues_intros
        report_quiet never_fails_bind report_never_fails stage_drop_never_fails never_fails_return)
  have linked: "stage_parent st' = parent R"
    if "(if c then sreturn st else or_drop K st (link_for_replace K st)) w = (Inr st', u)"
      "stage_parent st = parent R" for c st st' w u
    using that by (auto simp: sys_ok dest: link_for_replace_stage split: if_splits)
  show ?thesis
    unfolding run_with_def
    using edge leaf
    by (intro counts_bind_front [OF counts_quiet] tail issues_intros quiet_looks;
        (auto dest: prepare_stage linked)?)
qed


section \<open>The order of a committed transaction\<close>

lemma quiet_extends:
  assumes "issues (quiet R) m" "m w = (r, w')"
  shows "\<exists>es. history w' = history w @ es"
  using assms by (meson issuesD)

lemma fill_stage_order:
  assumes "fill_stage K f source t w = (Inr u, w')"
  shows "\<exists>pre mid. history w' = history w @ pre @ [(Write_all f t, True)] @ mid @ [(Sync_all f, True)]"
proof -
  let ?own = "case source of None \<Rightarrow> sreturn () | Some a \<Rightarrow> preserve_ownership K f (metadata a)"
  from assms obtain w1 w3 w4 where
    x1: "no_xattrs K f w = (Inr (), w1)" and
    own: "?own (w1\<lparr>history := history w1 @ [(Write_all f t, True)]\<rparr>) = (Inr (), w3)" and
    x2: "no_xattrs K f w3 = (Inr (), w4)" and
    last: "history w' = history w4 @ [(Fstat f, True), (Sync_all f, True)]"
    unfolding fill_stage_def sys_fstat_def sys_ok by auto
  obtain e1 where e1: "history w1 = history w @ e1"
    using quiet_extends [OF no_xattrs_quiet x1] by blast
  have look: "issues (quiet undefined) ?own"
    by (intro issues_intros)
  then obtain e2 where e2: "history w3 = (history w1 @ [(Write_all f t, True)]) @ e2"
    using quiet_extends [OF look own] by auto
  obtain e3 where "history w4 = history w3 @ e3"
    using quiet_extends [OF no_xattrs_quiet x2] by blast
  then show ?thesis
    using e1 e2 last by (intro exI [of _ e1] exI [of _ "e2 @ e3 @ [(Fstat f, True)]"]) simp
qed

lemma prepare_order:
  assumes "prepare K d source t w = (Inr st, w')"
  shows "\<exists>pre mid. history w' = history w @ pre @ [(Write_all (stage_file st) t, True)] @ mid
    @ [(Sync_all (stage_file st), True)]"
proof -
  from assms obtain f w1 w2 where
    "prepare_checks K d source w = (Inr (), w1)"
    "open_stage K d (if source = None then 0x1B6 else 0x180) w1 = (Inr f, w2)"
    "fill_stage K f source t w2 = (Inr (), w')" "stage_file st = f"
    unfolding prepare_def sys_ok by auto
  then show ?thesis
    using quiet_extends [OF prepare_checks_quiet] quiet_extends [OF open_stage_quiet]
      fill_stage_order by (metis append.assoc)
qed

lemma link_attempts_order:
  "link_attempts K st inode n w = (Inr st', w') \<Longrightarrow>
     \<exists>es. history w' = history w @ es
       \<and> (Linkat (stage_file st) (stage_parent st) (the (linked st')), True) \<in> set es"
proof (induction n arbitrary: w)
  case (Suc n)
  obtain count u where name: "fetch_name w = (Inr count, u)" "history u = history w"
    by (simp add: fetch_name_def)
  obtain x v where ln: "stage_link K st (stage_name K inode count) u = (x, v)"
    by fastforce
  have ev: "history v = history u @
      [(Linkat (stage_file st) (stage_parent st) (stage_name K inode count), is_ok x)]"
    using ln by (auto simp: stage_link_def call_def Let_def is_ok_def split: sum.splits)
  show ?case
  proof (cases x)
    case (Inl e)
    then have "link_attempts K st inode n v = (Inr st', w')"
      using Suc.prems name ln by (auto simp: sbind_def stry_def sfail_def split: if_splits)
    from Suc.IH [OF this] show ?thesis
      using ev name(2) by auto
  next
    case (Inr y)
    then have "st' = st\<lparr>linked := Some (stage_name K inode count)\<rparr>" "w' = v"
      using Suc.prems name ln by (auto simp: sbind_def stry_def sreturn_def)
    then show ?thesis
      using ev name(2) Inr by simp
  qed
qed (simp add: sfail_def)

lemma link_for_replace_order:
  assumes "link_for_replace K st w = (Inr st', w')"
  shows "\<exists>es. history w' = history w @ es
    \<and> (Linkat (stage_file st) (stage_parent st) (the (linked st')), True) \<in> set es"
  using assms
  by (fastforce simp: link_for_replace_def sys_fstat_def sys_ok dest: link_attempts_order)

text \<open>A committed transaction, cut at its stages.\<close>

lemma transaction_parts:
  assumes "transaction_run K R req w = (Inr c, w')"
  obtains g source content st st' st'' w1 w2 w3 w4 w5 w6 w7 where
    "request_validate req = Inr ()" "request_guard req = Some g"
    "validate_parent K R w = (Inr (), w1)"
    "verified_source K R (creating (operation req)) (expected_revision g) w1 = (Inr source, w2)"
    "request_content req (map_option (\<lambda>a. source_text (snap a)) source) = Inr content"
    "prepare K (parent R) source content w2 = (Inr st, w3)"
    "(if creating (operation req) then sreturn st else link_for_replace K st) w3 = (Inr st', w4)"
    "verified_again K R (creating (operation req)) (expected_revision g) w4 = (Inr (), w5)"
    "stage_commit K st' (leaf R) (creating (operation req)) w5 = (Inr st'', w6)"
    "report K (\<lambda>_. sreturn ()) R st'' (mutation_id g) content w6 = (Inr c, w7)"
    "stage_drop K st'' w7 = (Inr (), w')"
  using assms
  unfolding transaction_run_def run_with_def sys_ok
  by (elim exE conjE) (rule that; simp)

lemma verified_source_ok:
  assumes "verified_source K R False e w = (Inr source, w')"
  obtains a where "source = Some a" "acquire K R True w = (Inr a, w')" "revision (snap a) = e"
  using assms by (auto simp: verified_source_def sys_ok)

lemma verified_again_ok:
  assumes "verified_again K R False e w = (Inr u, w')"
  obtains s v where "capture K R v = (Inr s, w')" "revision s = e"
  using assms by (auto simp: verified_again_def sys_ok)

lemma absent_ok:
  "absent K R w = (Inr u, w') \<longleftrightarrow>
     k_statat K (history w) (parent R) (leaf R) True = Inl NOENT
     \<and> w' = w\<lparr>history := history w @ [(Statat (parent R) (leaf R) True, False)]\<rparr>"
  by (auto simp: absent_def sys_ok split: sum.splits if_splits)

lemma verified_again_absent:
  assumes "verified_again K R True e w = (Inr u, w')"
  obtains h where "k_statat K h (parent R) (leaf R) True = Inl NOENT"
    "history w' = h @ [(Statat (parent R) (leaf R) True, False)]" "\<exists>es. h = history w @ es"
  using assms quiet_extends [OF quiet_looks(1)]
  by (fastforce simp: verified_again_def sys_ok absent_ok)

lemma transaction_tail:
  assumes "report K (\<lambda>_. sreturn ()) R st i content w = (r, u)" "stage_drop K st u = (q, w')"
  shows "\<exists>es. history w' = history w @ es"
proof -
  have "issues (quiet R) (report K (\<lambda>_. sreturn ()) R st i content)"
    by (rule report_quiet) simp
  then show ?thesis
    using quiet_extends assms quiet_extends [OF stage_drop_quiet] by (metis append.assoc)
qed

text \<open>
  C10: a committed replacement or edit wrote exactly the requested content, computed from a snapshot
  whose revision is the one the caller expected, into an anonymous file; synced it; found the target
  at the expected revision once more; and, after nothing but the check that the staging name is still
  its own file, renamed that file onto the target.
\<close>

theorem transaction_replaces:
  assumes "transaction_run K R req w = (Inr c, w')"
    and "\<not> creating (operation req)" "request_guard req = Some g"
  shows "\<exists>a content f name s u v pre mid link rest.
    snapshot_wf K R a \<and> revision (snap a) = expected_revision g
    \<and> request_content req (Some (source_text (snap a))) = Inr content
    \<and> capture K R u = (Inr s, v) \<and> revision s = expected_revision g
    \<and> history v = history w @ pre @ [(Write_all f content, True)] @ mid @ [(Sync_all f, True)] @ link
    \<and> (Linkat f (parent R) name, True) \<in> set link
    \<and> history w' = history v
        @ [(Fstat f, True), (Statat (parent R) name True, True),
           (Renameat (parent R) name (leaf R), True)] @ rest"
  using assms(1)
proof (rule transaction_parts)
  fix g' source content st st' st'' w1 w2 w3 w4 w5 w6 w7
  assume guard: "request_guard req = Some g'"
    and w1: "validate_parent K R w = (Inr (), w1)"
    and src: "verified_source K R (creating (operation req)) (expected_revision g') w1 = (Inr source, w2)"
    and content: "request_content req (map_option (\<lambda>a. source_text (snap a)) source) = Inr content"
    and prep: "prepare K (parent R) source content w2 = (Inr st, w3)"
    and ln: "(if creating (operation req) then sreturn st else link_for_replace K st) w3 = (Inr st', w4)"
    and again: "verified_again K R (creating (operation req)) (expected_revision g') w4 = (Inr (), w5)"
    and com: "stage_commit K st' (leaf R) (creating (operation req)) w5 = (Inr st'', w6)"
    and rep: "report K (\<lambda>_. sreturn ()) R st'' (mutation_id g') content w6 = (Inr c, w7)"
    and drp: "stage_drop K st'' w7 = (Inr (), w')"
  have g: "g' = g" and cr: "creating (operation req) = False"
    using assms guard by simp_all
  obtain a where a: "source = Some a" "acquire K R True w1 = (Inr a, w2)"
      "revision (snap a) = expected_revision g"
    using src unfolding g cr by (rule verified_source_ok)
  obtain s u where s: "capture K R u = (Inr s, w5)" "revision s = expected_revision g"
    using again unfolding g cr by (rule verified_again_ok)
  have ln': "link_for_replace K st w3 = (Inr st', w4)"
    using ln cr by simp
  note st = prepare_stage [OF prep] link_for_replace_stage [OF ln']
  have front: "\<exists>e. history w2 = history w @ e" "\<exists>e. history w5 = history w4 @ e"
    using quiet_extends [OF quiet_looks(1) w1] quiet_extends [OF verified_source_quiet src]
      quiet_extends [OF verified_again_quiet again] by force+
  then obtain e1 e2 pre mid link rest where
    "history w2 = history w @ e1"
    "history w3 = history w2 @ pre @ [(Write_all (stage_file st) content, True)] @ mid
      @ [(Sync_all (stage_file st), True)]"
    "history w4 = history w3 @ link" "history w5 = history w4 @ e2"
    "(Linkat (stage_file st) (parent R) (the (linked st')), True) \<in> set link"
    "history w' = history w6 @ rest"
    using prepare_order [OF prep] link_for_replace_order [OF ln'] transaction_tail [OF rep drp] st
    by metis
  moreover have "history w6 = history w5 @ commit_calls R st' False"
    using stage_commit_ok(1) [of K st' R False w5 st'' w6] com cr st by simp
  ultimately show ?thesis
    using a s content acquire_wf [OF a(2)] st
    by (intro exI [of _ a] exI [of _ content] exI [of _ "stage_file st"] exI [of _ "the (linked st')"]
        exI [of _ s] exI [of _ u] exI [of _ w5] exI [of _ "e1 @ pre"] exI [of _ mid]
        exI [of _ "link @ e2"] exI [of _ rest]) (simp add: commit_calls_def)
qed

text \<open>
  C11: a committed creation wrote exactly the requested content to a synced anonymous file and linked
  that file to the target name immediately after the kernel had answered that the name was absent.
\<close>

theorem transaction_creates:
  assumes "transaction_run K R req w = (Inr c, w')" "operation req = Create content"
  shows "\<exists>f h pre mid link rest.
    k_statat K h (parent R) (leaf R) True = Inl NOENT
    \<and> h = history w @ pre @ [(Write_all f content, True)] @ mid @ [(Sync_all f, True)] @ link
    \<and> history w' = h @ [(Statat (parent R) (leaf R) True, False),
                        (Linkat f (parent R) (leaf R), True)] @ rest"
  using assms(1)
proof (rule transaction_parts)
  fix g source content' st st' st'' w1 w2 w3 w4 w5 w6 w7
  assume w1: "validate_parent K R w = (Inr (), w1)"
    and src: "verified_source K R (creating (operation req)) (expected_revision g) w1 = (Inr source, w2)"
    and content: "request_content req (map_option (\<lambda>a. source_text (snap a)) source) = Inr content'"
    and prep: "prepare K (parent R) source content' w2 = (Inr st, w3)"
    and ln: "(if creating (operation req) then sreturn st else link_for_replace K st) w3 = (Inr st', w4)"
    and again: "verified_again K R (creating (operation req)) (expected_revision g) w4 = (Inr (), w5)"
    and com: "stage_commit K st' (leaf R) (creating (operation req)) w5 = (Inr st'', w6)"
    and rep: "report K (\<lambda>_. sreturn ()) R st'' (mutation_id g) content' w6 = (Inr c, w7)"
    and drp: "stage_drop K st'' w7 = (Inr (), w')"
  have cr: "creating (operation req) = True" "content' = content"
    using assms(2) content by (auto simp: request_content_def result_simps)
  then have st: "st' = st" "w4 = w3" "stage_parent st = parent R"
    using ln prepare_stage [OF prep] by (auto simp: sys_ok)
  obtain h link where h: "k_statat K h (parent R) (leaf R) True = Inl NOENT"
      "history w5 = h @ [(Statat (parent R) (leaf R) True, False)]" "h = history w3 @ link"
    using again unfolding cr st by (blast elim: verified_again_absent)
  obtain e1 e2 where "history w1 = history w @ e1" "history w2 = history w1 @ e2"
    using quiet_extends [OF quiet_looks(1) w1] quiet_extends [OF verified_source_quiet src] by blast
  moreover obtain pre mid where "history w3 = history w2 @ pre
      @ [(Write_all (stage_file st) content, True)] @ mid @ [(Sync_all (stage_file st), True)]"
    using prepare_order [OF prep] cr by blast
  moreover have "history w6 = history w5 @ [(Linkat (stage_file st) (parent R) (leaf R), True)]"
    using stage_commit_ok(1) [of K st' R True w5 st'' w6] com cr st by (simp add: commit_calls_def)
  moreover obtain rest where "history w' = history w6 @ rest"
    using transaction_tail [OF rep drp] by blast
  ultimately show ?thesis
    using h by (intro exI [of _ "stage_file st"] exI [of _ h] exI [of _ "e1 @ e2 @ pre"] exI [of _ mid]
        exI [of _ link] exI [of _ rest]) simp
qed

section \<open>The report and the coordinator\<close>

definition strerror_law :: "kernel \<Rightarrow> bool" where
  "strerror_law K \<longleftrightarrow> (\<forall>e. length (k_strerror K e) \<le> 1024)"

lemma observed_ok:
  assumes "observed K R st content w = (Inr (Some s), w')"
  obtains a where "s = snap a" "snapshot_wf K R a" "source_text s = content"
proof -
  obtain x u where x: "acquire K R False w = (x, u)"
    by fastforce
  show ?thesis
    using assms x acquire_wf [of K R False w _ u] that
    by (cases x) (auto simp: observed_def stry_def sreturn_def split: prod.splits if_splits)
qed

lemma report_ok:
  assumes "report K (\<lambda>_. sreturn ()) R st i content w = (Inr c, w')" "strerror_law K"
  shows "commit_contract c = 1" "result_id (mutation c) = i" "outcome (mutation c) = ''committed''"
    "durability (mutation c) \<in> {''synced'', ''unconfirmed''}"
    "warning c = None \<longleftrightarrow> durability (mutation c) = ''synced'' \<and> observation c \<noteq> None"
    "warning c = Some v \<Longrightarrow> v \<noteq> [] \<and> length v \<le> 2048"
    "observation c = Some s \<Longrightarrow> \<exists>a. s = snap a \<and> snapshot_wf K R a \<and> source_text s = content"
proof -
  obtain sync u where sync: "call K (Fsync (parent R)) (\<lambda>h. k_fsync K h (parent R)) w = (sync, u)"
    by fastforce
  obtain obs where obs: "observed K R st content u = (Inr obs, w')"
    and c: "c = \<lparr>commit_contract = 1,
       mutation = \<lparr>result_id = i, outcome = ''committed'',
         durability = (if is_ok sync then ''synced'' else ''unconfirmed'')\<rparr>,
       observation = obs,
       warning = (let ws = (case sync of Inr _ \<Rightarrow> []
          | Inl e \<Rightarrow> [''committed but directory durability is unconfirmed: '' @ snd e])
       @ (if obs = None
          then [''committed but a current observation could not be confirmed; reread required'']
          else []) in if ws = [] then None else Some (joined ''; '' ws))\<rparr>"
    using assms(1) sync by (auto simp: report_def sys_ok Let_def)
  have short: "length (snd e) \<le> 1024" if "sync = Inl e" for e
    using that sync assms(2)
    by (auto simp: call_def Let_def map_err_def errno_error_def strerror_law_def split: sum.splits)
  show "commit_contract c = 1" "result_id (mutation c) = i" "outcome (mutation c) = ''committed''"
    "durability (mutation c) \<in> {''synced'', ''unconfirmed''}"
    by (simp_all add: c)
  show "warning c = None \<longleftrightarrow> durability (mutation c) = ''synced'' \<and> observation c \<noteq> None"
    by (cases sync) (simp_all add: c Let_def)
  show "v \<noteq> [] \<and> length v \<le> 2048" if "warning c = Some v"
    using that short by (cases sync; cases obs) (auto simp: c Let_def)
  show "\<exists>a. s = snap a \<and> snapshot_wf K R a \<and> source_text s = content" if "observation c = Some s"
    using that obs c by (auto elim: observed_ok)
qed

text \<open>
  C13: the report of every committed transaction passes the coordinator's validation, so a commit that
  happened is never turned into an unknown outcome by its own report: it names the request, and it
  carries a warning exactly when durability or the final content could not be confirmed.
\<close>

theorem transaction_report_accepted:
  assumes "transaction_run K R req w = (Inr c, w')" "sha_law K" "strerror_law K"
  shows "commit_validate (key (binding R)) req c = Inr ()"
  using assms(1)
proof (rule transaction_parts)
  fix g source content st st' st'' w1 w2 w3 w4 w5 w6 w7
  assume guard: "request_guard req = Some g"
    and content: "request_content req (map_option (\<lambda>a. source_text (snap a)) source) = Inr content"
    and rep: "report K (\<lambda>_. sreturn ()) R st'' (mutation_id g) content w6 = (Inr c, w7)"
  note ok = report_ok [OF rep assms(3)]
  have shape: "case warning c of None \<Rightarrow> True | Some v \<Rightarrow> v \<noteq> [] \<and> length v \<le> 2048"
    using ok(6) by (auto split: option.splits)
  have obs: "snapshot_validate (key (binding R)) s = Inr () \<and> source_text s = content"
    if "observation c = Some s" for s
    using ok(7) [OF that] snapshot_wf_validates [OF _ assms(2)] by auto
  have same: "content' = content" if "operation req = Replace content' \<or> operation req = Create content'"
    for content'
    using that content by (auto simp: request_content_def result_simps)
  show ?thesis
    using guard ok(1,2,3,4,5) shape obs same
    by (auto simp: commit_validate_def rbind_ensure split: option.splits operation.splits)
qed

text \<open>
  A revision pins the whole metadata and the whole content, up to a collision of the digest.
\<close>

lemma revision_pins:
  assumes "snapshot_revision K k m b = snapshot_revision K k m' b'"
    and "k_sha256 K (''casper:source-revision:1'' @ [NUL] @ k @ fingerprint m @ b)
       = k_sha256 K (''casper:source-revision:1'' @ [NUL] @ k @ fingerprint m' @ b')
      \<Longrightarrow> ''casper:source-revision:1'' @ [NUL] @ k @ fingerprint m @ b
       = ''casper:source-revision:1'' @ [NUL] @ k @ fingerprint m' @ b'"
  shows "m = m' \<and> b = b'"
proof -
  have "fingerprint m @ b = fingerprint m' @ b'"
    using assms by (simp add: snapshot_revision_def)
  moreover have "length (fingerprint m) = length (fingerprint m')"
    by (simp add: fingerprint_def)
  ultimately show ?thesis
    using append_eq_append_conv fingerprint_inject by blast
qed

end
