(* ===== verification/Framing.thy ===== *)
theory Framing
  imports Casper_Prelude "HOL-Library.Sublist"
begin

text \<open>
  \<open>src/framing.rs\<close>: length-prefixed frames on the socket.  The peer and the kernel are a script: the
  socket's \<open>inbox\<close> lists what successive reads meet (bytes in any segmentation, an interruption, a
  fault), each after a delay, and \<open>outbox\<close> lists how many bytes successive writes take.  A read that
  outlasts the socket's timeout returns \<open>WouldBlock\<close>, as \<open>SO_RCVTIMEO\<close> makes it.  An exhausted script
  is a closed peer.  The theorems quantify over every script.
\<close>

section \<open>Constants and the encoding of a body\<close>

definition frame_most :: nat where "frame_most = 16 * 1024 * 1024"
definition CHUNK :: nat where "CHUNK = 64 * 1024"

datatype wire_kind = Json | Cbor

definition wire_of :: "bytes \<Rightarrow> wire_kind" where
  "wire_of body =
     (case find (\<lambda>b. \<not> is_ascii_whitespace b) body of
        Some b \<Rightarrow> if 0x80 \<le> code b \<and> code b \<le> 0xBF then Cbor else Json
      | None \<Rightarrow> Json)"

text \<open>
  \<open>Wire::encode\<close> and \<open>decode\<close>; \<open>serde_json\<close> and \<open>ciborium\<close> are the parameters
  \<open>json\<close> and \<open>cbor\<close>, and \<open>std::io::Error::other\<close> keeps only the kind.
\<close>

definition wire_encode ::
    "('v \<Rightarrow> 'e + bytes) \<Rightarrow> ('v \<Rightarrow> 'e + bytes) \<Rightarrow> wire_kind \<Rightarrow> 'v \<Rightarrow> bytes io_result" where
  "wire_encode json cbor w v =
     (case w of
        Json \<Rightarrow> map_err (\<lambda>_. OtherKind) (json v)
      | Cbor \<Rightarrow> map_err (\<lambda>_. OtherKind) (cbor v))"

definition wire_decode ::
    "(bytes \<Rightarrow> 'e + 'v) \<Rightarrow> (bytes \<Rightarrow> 'e + 'v) \<Rightarrow> bytes \<Rightarrow> 'v io_result" where
  "wire_decode json cbor body =
     (case wire_of body of
        Json \<Rightarrow> map_err (\<lambda>_. OtherKind) (json body)
      | Cbor \<Rightarrow> map_err (\<lambda>_. OtherKind) (cbor body))"

definition sized :: "nat \<Rightarrow> unit io_result" where
  "sized len =
     (if len > frame_most then Inl FileTooLarge
      else if len = 0 then Inl InvalidData
      else Inr ())"

section \<open>The socket\<close>

datatype read_event = Arrive bytes | Read_interrupted | Read_fault io_kind
datatype write_event = Takes nat | Write_interrupted | Write_fault io_kind

record sock =
  now :: instant
  read_timeout :: "duration option"
  write_timeout :: "duration option"
  inbox :: "(duration \<times> read_event) list"
  outbox :: "(duration \<times> write_event) list"
  sent :: bytes

definition out_of_time :: "duration \<Rightarrow> duration option \<Rightarrow> bool" where
  "out_of_time d t = (case t of None \<Rightarrow> False | Some limit \<Rightarrow> d > limit)"

text \<open>One \<open>read(2)\<close> into a buffer of \<open>n\<close> bytes.\<close>

definition sock_read :: "nat \<Rightarrow> sock \<Rightarrow> bytes io_result \<times> sock" where
  "sock_read n s =
     (case inbox s of
        [] \<Rightarrow> (Inr [], s)
      | (d, e) # rest \<Rightarrow>
          if out_of_time d (read_timeout s) then
            (Inl WouldBlock,
             s\<lparr>now := now s + the (read_timeout s),
               inbox := (d - the (read_timeout s), e) # rest\<rparr>)
          else
            (let s' = s\<lparr>now := now s + d, inbox := rest\<rparr> in
             case e of
               Arrive bs \<Rightarrow>
                 (Inr (take n bs),
                  if length bs \<le> n then s' else s'\<lparr>inbox := (0, Arrive (drop n bs)) # rest\<rparr>)
             | Read_interrupted \<Rightarrow> (Inl Interrupted, s')
             | Read_fault k \<Rightarrow> (Inl k, s')))"

text \<open>One \<open>write(2)\<close> of the bytes \<open>bs\<close>; an exhausted script takes nothing.\<close>

definition sock_write :: "bytes \<Rightarrow> sock \<Rightarrow> nat io_result \<times> sock" where
  "sock_write bs s =
     (case outbox s of
        [] \<Rightarrow> (Inr 0, s)
      | (d, e) # rest \<Rightarrow>
          if out_of_time d (write_timeout s) then
            (Inl WouldBlock,
             s\<lparr>now := now s + the (write_timeout s),
               outbox := (d - the (write_timeout s), e) # rest\<rparr>)
          else
            (let s' = s\<lparr>now := now s + d, outbox := rest\<rparr> in
             case e of
               Takes k \<Rightarrow> (Inr (min k (length bs)), s'\<lparr>sent := sent s @ take k bs\<rparr>)
             | Write_interrupted \<Rightarrow> (Inl Interrupted, s')
             | Write_fault k \<Rightarrow> (Inl k, s')))"

text \<open>\<open>Timed::read_by\<close> and \<open>Timed::write_by\<close>: a timeout of at least one millisecond.\<close>

definition millisecond :: duration where "millisecond = 1000000"

definition read_by :: "duration \<Rightarrow> sock \<Rightarrow> sock" where
  "read_by d s = s\<lparr>read_timeout := Some (max d millisecond)\<rparr>"

definition write_by :: "duration \<Rightarrow> sock \<Rightarrow> sock" where
  "write_by d s = s\<lparr>write_timeout := Some (max d millisecond)\<rparr>"

definition left :: "instant \<Rightarrow> sock \<Rightarrow> duration io_result" where
  "left deadline s = (if now s < deadline then Inr (deadline - now s) else Inl TimedOut)"

definition timed :: "io_kind \<Rightarrow> io_kind" where
  "timed why = (if why = WouldBlock then TimedOut else why)"

text \<open>What the peer has still to deliver, and how long the script can still take.\<close>

fun arriving :: "(duration \<times> read_event) list \<Rightarrow> bytes" where
  "arriving [] = []"
| "arriving ((_, Arrive bs) # rest) = bs @ arriving rest"
| "arriving (_ # rest) = arriving rest"

definition stream :: "sock \<Rightarrow> bytes" where
  "stream s = arriving (inbox s)"

lemma sock_read_keeps [simp]:
  "sock_read n s = (r, s') \<Longrightarrow> sent s' = sent s \<and> outbox s' = outbox s"
  by (auto simp: sock_read_def Let_def split: list.splits if_splits read_event.splits)

lemma sock_read_ok:
  assumes "sock_read n s = (Inr got, s')"
  shows "stream s = got @ stream s'" "length got \<le> n" "now s \<le> now s'"
    "got \<noteq> [] \<Longrightarrow> length (inbox s') \<le> length (inbox s)"
  using assms
  by (auto simp: sock_read_def stream_def Let_def split: list.splits if_splits read_event.splits)

lemma sock_read_interrupted:
  assumes "sock_read n s = (Inl Interrupted, s')"
  shows "length (inbox s') < length (inbox s)" "stream s' = stream s" "now s \<le> now s'"
  using assms
  by (auto simp: sock_read_def stream_def Let_def split: list.splits if_splits read_event.splits)

lemma sock_read_smaller:
  "(Inr got, s') = sock_read n s \<Longrightarrow> got \<noteq> [] \<Longrightarrow> 0 < n \<Longrightarrow>
     n - length got + length (inbox s') < n + length (inbox s)"
  "(Inl Interrupted, s') = sock_read n s \<Longrightarrow> length (inbox s') < length (inbox s)"
proof -
  assume "(Inr got, s') = sock_read n s" "got \<noteq> []" "0 < n"
  then show "n - length got + length (inbox s') < n + length (inbox s)"
    using sock_read_ok(4) [of n s got s'] by (cases got) auto
qed (simp add: sock_read_interrupted)

section \<open>Reading a frame\<close>

text \<open>\<open>Read::read_exact\<close> of the standard library on this socket.\<close>

function read_exact :: "nat \<Rightarrow> sock \<Rightarrow> bytes io_result \<times> sock" where
  "read_exact n s =
     (if n = 0 then (Inr [], s)
      else case sock_read n s of
        (Inr got, s') \<Rightarrow>
          if got = [] then (Inl UnexpectedEof, s')
          else (case read_exact (n - length got) s' of
                  (Inr others, s'') \<Rightarrow> (Inr (got @ others), s'')
                | (Inl e, s'') \<Rightarrow> (Inl e, s''))
      | (Inl e, s') \<Rightarrow> if e = Interrupted then read_exact n s' else (Inl e, s'))"
  by pat_completeness auto
termination
  by (relation "measure (\<lambda>(n, s). n + length (inbox s))") (auto dest: sock_read_smaller)

lemma read_by_inbox [simp]:
  "inbox (read_by d s) = inbox s" "now (read_by d s) = now s" "stream (read_by d s) = stream s"
  "sent (read_by d s) = sent s" "outbox (read_by d s) = outbox s"
  "read_timeout (read_by d s) = Some (max d millisecond)"
  by (simp_all add: read_by_def stream_def)

text \<open>\<open>filled\<close>: the buffer's length is all the loop needs to know of it.\<close>

function filled :: "nat \<Rightarrow> instant \<Rightarrow> sock \<Rightarrow> bytes io_result \<times> sock" where
  "filled n deadline s =
     (if n = 0 then (Inr [], s)
      else case left deadline s of
        Inl e \<Rightarrow> (Inl e, s)
      | Inr remaining \<Rightarrow>
          (case sock_read n (read_by remaining s) of
             (Inr got, s') \<Rightarrow>
               if got = [] then (Inl UnexpectedEof, s')
               else (case filled (n - length got) deadline s' of
                       (Inr others, s'') \<Rightarrow> (Inr (got @ others), s'')
                     | (Inl e, s'') \<Rightarrow> (Inl e, s''))
           | (Inl e, s') \<Rightarrow>
               if e = Interrupted then filled n deadline s' else (Inl (timed e), s')))"
  by pat_completeness auto
termination
  by (relation "measure (\<lambda>(n, deadline, s). n + length (inbox s))")
     (auto dest: sock_read_smaller)

declare read_exact.simps [simp del] filled.simps [simp del]

text \<open>The loop of \<open>read_frame_by\<close> that waits for the first byte of the header.\<close>

function first_byte :: "sock \<Rightarrow> bytes io_result \<times> sock" where
  "first_byte s =
     (case sock_read 1 s of
        (Inr got, s') \<Rightarrow> if got = [] then (Inl UnexpectedEof, s') else (Inr got, s')
      | (Inl e, s') \<Rightarrow> if e = Interrupted then first_byte s' else (Inl (timed e), s'))"
  by pat_completeness auto
termination
  by (relation "measure (\<lambda>s. length (inbox s))") (auto dest: sock_read_smaller)

declare first_byte.simps [simp del]

text \<open>
  The runs of \<open>filled\<close> as an induction rule: every fact about the loop below is one use of it.
\<close>

lemma filled_run:
  assumes run: "filled n deadline s = (r, s')"
    and none: "\<And>s. Q 0 s (Inr []) s"
    and late: "\<And>n s. 0 < n \<Longrightarrow> deadline \<le> now s \<Longrightarrow> Q n s (Inl TimedOut) s"
    and eof: "\<And>n s t. 0 < n \<Longrightarrow> now s < deadline \<Longrightarrow>
      sock_read n (read_by (deadline - now s) s) = (Inr [], t) \<Longrightarrow> Q n s (Inl UnexpectedEof) t"
    and fault: "\<And>n s e t. 0 < n \<Longrightarrow> now s < deadline \<Longrightarrow>
      sock_read n (read_by (deadline - now s) s) = (Inl e, t) \<Longrightarrow> e \<noteq> Interrupted \<Longrightarrow>
      Q n s (Inl (timed e)) t"
    and again: "\<And>n s t r u. 0 < n \<Longrightarrow> now s < deadline \<Longrightarrow>
      sock_read n (read_by (deadline - now s) s) = (Inl Interrupted, t) \<Longrightarrow> Q n t r u \<Longrightarrow> Q n s r u"
    and got: "\<And>n s g t r u. 0 < n \<Longrightarrow> now s < deadline \<Longrightarrow>
      sock_read n (read_by (deadline - now s) s) = (Inr g, t) \<Longrightarrow> g \<noteq> [] \<Longrightarrow>
      Q (n - length g) t r u \<Longrightarrow> Q n s (case r of Inl e \<Rightarrow> Inl e | Inr others \<Rightarrow> Inr (g @ others)) u"
  shows "Q n s r s'"
  using run
proof (induction "n + length (inbox s)" arbitrary: n s r s' rule: less_induct)
  case less
  note step = less.prems [unfolded filled.simps [of n deadline s]]
  show ?case
  proof (cases "n = 0 \<or> deadline \<le> now s")
    case True
    then show ?thesis
      using step none late [of n s] by (auto simp: left_def split: if_splits)
  next
    case False
    then have start: "0 < n" "now s < deadline"
      by simp_all
    let ?s = "read_by (deadline - now s) s"
    obtain x t where read: "sock_read n ?s = (x, t)"
      by fastforce
    note smaller = sock_read_smaller(1) [of _ t n ?s, unfolded read]
      sock_read_smaller(2) [of t n ?s, unfolded read]
    show ?thesis
    proof (cases x)
      case (Inl e)
      then show ?thesis
        using step read start smaller fault [of n s e t] again [of n s t r s']
          less.hyps [of n t r s']
        by (cases "e = Interrupted") (auto simp: left_def)
    next
      case (Inr g)
      obtain y u where rest: "filled (n - length g) deadline t = (y, u)"
        by fastforce
      show ?thesis
        using step read start smaller Inr rest eof [of n s t] got [of n s g t y u]
          less.hyps [of "n - length g" t y u]
        by (cases "g = []"; cases y) (auto simp: left_def)
    qed
  qed
qed

lemma filled_ok:
  assumes "filled n deadline s = (Inr got, s')"
  shows "length got = n \<and> stream s = got @ stream s'"
proof -
  have "case (Inr got :: bytes io_result) of Inl _ \<Rightarrow> True
        | Inr g \<Rightarrow> length g = n \<and> stream s = g @ stream s'"
    using assms
    by (rule filled_run)
       (auto dest: sock_read_ok sock_read_interrupted split: sum.splits)
  then show ?thesis by simp
qed

text \<open>
  The body loop.  The source's chunk starts as \<open>want.min(CHUNK)\<close> bytes and is only ever truncated to
  what is missing, so each round asks for \<open>min CHUNK (want - body.len())\<close>.
\<close>

function read_body :: "nat \<Rightarrow> instant \<Rightarrow> bytes \<Rightarrow> sock \<Rightarrow> bytes io_result \<times> sock" where
  "read_body want deadline body s =
     (if length body < want
      then (case filled (min CHUNK (want - length body)) deadline s of
              (Inl e, s') \<Rightarrow> (Inl e, s')
            | (Inr chunk, s') \<Rightarrow> read_body want deadline (body @ chunk) s')
      else (Inr body, s))"
  by pat_completeness auto
termination
proof (relation "measure (\<lambda>(want, deadline, body, s). want - length body)", goal_cases)
  case (2 want deadline body s r s' chunk)
  then show ?case
    using filled_ok [of "min CHUNK (want - length body)" deadline s chunk s']
    by (auto simp: CHUNK_def)
qed simp

declare read_body.simps [simp del]

definition read_frame :: "sock \<Rightarrow> bytes io_result \<times> sock" where
  "read_frame s =
     (case read_exact 4 s of
        (Inl e, s1) \<Rightarrow> (Inl e, s1)
      | (Inr header, s1) \<Rightarrow>
          (let want = from_be_bytes header in
           case sized want of
             Inl e \<Rightarrow> (Inl e, s1)
           | Inr _ \<Rightarrow> read_exact want s1))"

definition read_frame_by :: "duration \<Rightarrow> duration \<Rightarrow> sock \<Rightarrow> bytes io_result \<times> sock" where
  "read_frame_by idle whole s =
     (case first_byte (read_by idle s) of
        (Inl e, s1) \<Rightarrow> (Inl e, s1)
      | (Inr lead, s1) \<Rightarrow>
          (let deadline = now s1 + whole in
           case filled 3 deadline s1 of
             (Inl e, s2) \<Rightarrow> (Inl e, s2)
           | (Inr others, s2) \<Rightarrow>
               (let want = from_be_bytes (lead @ others) in
                case sized want of
                  Inl e \<Rightarrow> (Inl e, s2)
                | Inr _ \<Rightarrow> read_body want deadline [] s2)))"

section \<open>Writing a frame\<close>

text \<open>\<open>u32::try_from\<close> of a length, and \<open>Write::write_all\<close> of the standard library.\<close>

definition u32_try_from :: "nat \<Rightarrow> nat option" where
  "u32_try_from n = (if n < 2 ^ 32 then Some n else None)"

lemma sock_write_smaller:
  "(Inr k, s') = sock_write bs s \<Longrightarrow> k \<noteq> 0 \<Longrightarrow> length (outbox s') < length (outbox s)"
  "(Inl Interrupted, s') = sock_write bs s \<Longrightarrow> length (outbox s') < length (outbox s)"
  by (auto simp: sock_write_def Let_def split: list.splits if_splits write_event.splits)

function write_all :: "bytes \<Rightarrow> sock \<Rightarrow> unit io_result \<times> sock" where
  "write_all part s =
     (if part = [] then (Inr (), s)
      else case sock_write part s of
        (Inr k, s') \<Rightarrow> if k = 0 then (Inl WriteZero, s') else write_all (drop k part) s'
      | (Inl e, s') \<Rightarrow> if e = Interrupted then write_all part s' else (Inl e, s'))"
  by pat_completeness auto
termination
  by (relation "measure (\<lambda>(part, s). length (outbox s))") (auto dest: sock_write_smaller)

text \<open>The inner loop of \<open>write_frame_by\<close> over one part of the frame.\<close>

function write_part :: "instant \<Rightarrow> bytes \<Rightarrow> sock \<Rightarrow> unit io_result \<times> sock" where
  "write_part deadline part s =
     (if part = [] then (Inr (), s)
      else case left deadline s of
        Inl e \<Rightarrow> (Inl e, s)
      | Inr remaining \<Rightarrow>
          (case sock_write part (write_by remaining s) of
             (Inr k, s') \<Rightarrow>
               if k = 0 then (Inl WriteZero, s') else write_part deadline (drop k part) s'
           | (Inl e, s') \<Rightarrow>
               if e = Interrupted then write_part deadline part s' else (Inl (timed e), s')))"
  by pat_completeness auto
termination
  by (relation "measure (\<lambda>(deadline, part, s). length (outbox s))")
     (auto dest!: sock_write_smaller simp: write_by_def)

declare write_all.simps [simp del] write_part.simps [simp del]

definition write_frame :: "bytes \<Rightarrow> sock \<Rightarrow> unit io_result \<times> sock" where
  "write_frame body s =
     (case sized (length body) of
        Inl e \<Rightarrow> (Inl e, s)
      | Inr _ \<Rightarrow>
          (case u32_try_from (length body) of
             None \<Rightarrow> (Inl OtherKind, s)
           | Some len \<Rightarrow>
               (case write_all (to_be_bytes 4 len) s of
                  (Inl e, s1) \<Rightarrow> (Inl e, s1)
                | (Inr _, s1) \<Rightarrow> write_all body s1)))"

definition write_frame_by :: "bytes \<Rightarrow> duration \<Rightarrow> sock \<Rightarrow> unit io_result \<times> sock" where
  "write_frame_by body whole s =
     (case sized (length body) of
        Inl e \<Rightarrow> (Inl e, s)
      | Inr _ \<Rightarrow>
          (case u32_try_from (length body) of
             None \<Rightarrow> (Inl OtherKind, s)
           | Some len \<Rightarrow>
               (let deadline = now s + whole in
                case write_part deadline (to_be_bytes 4 len) s of
                  (Inl e, s1) \<Rightarrow> (Inl e, s1)
                | (Inr _, s1) \<Rightarrow> write_part deadline body s1)))"

section \<open>What a read takes off the stream, and by when\<close>

lemma sock_read_time:
  assumes "sock_read n s = (r, s')" "read_timeout s = Some t"
  shows "now s \<le> now s'" "now s' \<le> now s + t"
  using assms
  by (auto simp: sock_read_def out_of_time_def Let_def
      split: list.splits if_splits read_event.splits)

lemma filled_time:
  assumes "filled n deadline s = (r, s')"
  shows "now s \<le> now s' \<and> now s' \<le> max (now s) (deadline + millisecond)"
proof -
  have step: "now s \<le> now t \<and> now t \<le> deadline + millisecond"
    if "now s < deadline" "sock_read n (read_by (deadline - now s) s) = (x, t)" for n s x t
    using sock_read_time [OF that(2)] that(1) by (auto simp: read_by_def max_def split: if_splits)
  from assms show ?thesis
    by (rule filled_run) (fastforce dest: step)+
qed

lemma read_body_ok:
  assumes "read_body want deadline body s = (Inr b, s')" "length body \<le> want"
  shows "\<exists>x. b = body @ x \<and> length b = want \<and> stream s = x @ stream s'"
  using assms
proof (induction want deadline body s rule: read_body.induct)
  case (1 want deadline body s)
  show ?case
  proof (cases "length body < want")
    case False
    then show ?thesis
      using "1.prems" by (simp add: read_body.simps)
  next
    case True
    then obtain chunk t where fill: "filled (min CHUNK (want - length body)) deadline s = (Inr chunk, t)"
      and rest: "read_body want deadline (body @ chunk) t = (Inr b, s')"
      using "1.prems" by (auto simp: read_body.simps split: prod.splits sum.splits)
    have "length (body @ chunk) \<le> want" "stream s = chunk @ stream t"
      using filled_ok [OF fill] True by auto
    moreover from this obtain x where "b = body @ chunk @ x" "length b = want"
        "stream t = x @ stream s'"
      using "1.IH" [OF True fill [symmetric] refl rest] by auto
    ultimately show ?thesis
      by (intro exI [of _ "chunk @ x"]) simp
  qed
qed

lemma read_body_time:
  assumes "read_body want deadline body s = (r, s')"
  shows "now s \<le> now s' \<and> now s' \<le> max (now s) (deadline + millisecond)"
  using assms
proof (induction want deadline body s rule: read_body.induct)
  case (1 want deadline body s)
  obtain x t where fill: "filled (min CHUNK (want - length body)) deadline s = (x, t)"
    by fastforce
  show ?case
    using "1.prems" "1.IH" [OF _ fill [symmetric]] fill filled_time [OF fill]
    by (cases x) (fastforce simp: read_body.simps split: if_splits)+
qed

lemma first_byte_ok:
  assumes "first_byte s = (Inr lead, s')"
  shows "length lead = 1 \<and> stream s = lead @ stream s'"
  using assms
proof (induction s rule: first_byte.induct)
  case (1 s)
  obtain x t where read: "sock_read 1 s = (x, t)"
    by fastforce
  show ?case
  proof (cases x)
    case (Inl e)
    then show ?thesis
      using "1.prems" "1.IH" [OF read [symmetric] Inl] read sock_read_interrupted [of 1 s t]
      by (auto simp: first_byte.simps [of s] split: if_splits)
  next
    case (Inr g)
    then show ?thesis
      using "1.prems" read sock_read_ok [of 1 s g t]
      by (cases g) (auto simp: first_byte.simps [of s] split: if_splits)
  qed
qed

lemma sized_ok [simp]: "sized n = Inr u \<longleftrightarrow> 1 \<le> n \<and> n \<le> frame_most"
  by (auto simp: sized_def frame_most_def)

lemma sized_cases:
  "sized n = Inl e \<longleftrightarrow> (n > frame_most \<and> e = FileTooLarge) \<or> (n = 0 \<and> e = InvalidData)"
  by (auto simp: sized_def frame_most_def)

text \<open>A read of the header, as one step.\<close>

lemma header_ok:
  assumes "first_byte (read_by idle s) = (Inr lead, s1)"
    and "filled 3 deadline s1 = (Inr others, s2)"
  shows "length (lead @ others) = 4" "stream s = (lead @ others) @ stream s2"
    "lead @ others = to_be_bytes 4 (from_be_bytes (lead @ others))"
proof -
  have len: "length lead = 1" "length others = 3"
    using first_byte_ok [OF assms(1)] filled_ok [OF assms(2)] by simp_all
  then show "length (lead @ others) = 4" by simp
  then show "lead @ others = to_be_bytes 4 (from_be_bytes (lead @ others))"
    by (metis to_from_be_bytes)
  show "stream s = (lead @ others) @ stream s2"
    using first_byte_ok [OF assms(1)] filled_ok [OF assms(2)] by simp
qed

lemma read_frame_by_takes:
  assumes "read_frame_by idle whole s = (Inr body, s')"
  shows "stream s = to_be_bytes 4 (length body) @ body @ stream s'
    \<and> 1 \<le> length body \<and> length body \<le> frame_most"
proof -
  obtain lead s1 others s2 where
    lead: "first_byte (read_by idle s) = (Inr lead, s1)" and
    others: "filled 3 (now s1 + whole) s1 = (Inr others, s2)" and
    size: "1 \<le> from_be_bytes (lead @ others)" "from_be_bytes (lead @ others) \<le> frame_most" and
    body: "read_body (from_be_bytes (lead @ others)) (now s1 + whole) [] s2 = (Inr body, s')"
    using assms by (auto simp: read_frame_by_def Let_def split: prod.splits sum.splits)
  have "length body = from_be_bytes (lead @ others)" "stream s2 = body @ stream s'"
    using read_body_ok [OF body] by auto
  then show ?thesis
    using header_ok [OF lead others] size by (metis append.assoc)
qed

text \<open>
  C25: a frame that \<open>read_frame_by\<close> returns is exactly what the peer sent first: a big-endian length,
  then that many bytes and no more, however the bytes were segmented; its size is between one byte
  and the cap.
\<close>

theorem read_frame_by_sound:
  assumes "read_frame_by idle whole s = (Inr body, s')"
  shows "stream s = to_be_bytes 4 (length body) @ body @ stream s'
    \<and> 1 \<le> length body \<and> length body \<le> frame_most"
  using assms by (rule read_frame_by_takes)

text \<open>
  once the first byte of a frame has come, \<open>read_frame_by\<close> returns within \<open>whole\<close> (plus at most
  the one millisecond below which a socket timeout cannot be set), whatever the peer does.
\<close>

theorem read_frame_by_deadline:
  assumes "first_byte (read_by idle s) = (Inr lead, s1)"
    and "read_frame_by idle whole s = (r, s')"
  shows "now s' \<le> now s1 + whole + millisecond"
proof -
  obtain x s2 where others: "filled 3 (now s1 + whole) s1 = (x, s2)"
    by fastforce
  have before: "now s2 \<le> now s1 + whole + millisecond"
    using filled_time [OF others] by simp
  show ?thesis
  proof (cases "\<exists>want. read_body want (now s1 + whole) [] s2 = (r, s')")
    case True
    then show ?thesis
      using read_body_time before by fastforce
  next
    case False
    then have "s' = s2"
      using assms others
      by (auto simp: read_frame_by_def Let_def split: sum.splits)
    then show ?thesis
      using before by simp
  qed
qed

section \<open>A steady peer is always heard\<close>

text \<open>
  A steady script delivers bytes and interruptions only, never a fault and never an early close;
  \<open>spans\<close> is the time it takes in all.
\<close>

fun steady_event :: "read_event \<Rightarrow> bool" where
  "steady_event (Arrive bs) = (bs \<noteq> [])"
| "steady_event Read_interrupted = True"
| "steady_event (Read_fault _) = False"

definition steady :: "sock \<Rightarrow> bool" where
  "steady s = list_all (\<lambda>(_, e). steady_event e) (inbox s)"

definition spans :: "sock \<Rightarrow> duration" where
  "spans s = sum_list (map fst (inbox s))"

definition ends_by :: "sock \<Rightarrow> instant" where
  "ends_by s = now s + spans s"

lemma sock_read_steady:
  assumes "sock_read n s = (r, t)" "steady s" "0 < n" "stream s \<noteq> []"
    "read_timeout s = Some limit" "spans s \<le> limit"
  shows "steady t \<and> ends_by t \<le> ends_by s \<and> spans t \<le> spans s
    \<and> (r = Inl Interrupted \<or> (\<exists>g. r = Inr g \<and> g \<noteq> []))"
  using assms
  by (auto simp: sock_read_def steady_def spans_def ends_by_def stream_def out_of_time_def Let_def
      split: list.splits if_splits read_event.splits)

lemma read_by_steady [simp]:
  "steady (read_by d s) = steady s" "spans (read_by d s) = spans s"
  "ends_by (read_by d s) = ends_by s"
  by (simp_all add: steady_def spans_def ends_by_def read_by_def)

lemma filled_steady:
  assumes "filled n deadline s = (r, s')" "steady s" "ends_by s < deadline" "n \<le> length (stream s)"
  shows "steady s' \<and> ends_by s' \<le> ends_by s \<and> is_ok r"
proof -
  have step: "steady t \<and> ends_by t \<le> ends_by s
      \<and> (x = Inl Interrupted \<or> (\<exists>g. x = Inr g \<and> g \<noteq> []))"
    if "0 < n" "now s < deadline" "sock_read n (read_by (deadline - now s) s) = (x, t)"
      "steady s" "ends_by s < deadline" "n \<le> length (stream s)" for n s x t
  proof -
    have "stream s \<noteq> []" "spans s \<le> max (deadline - now s) millisecond"
      using that by (auto simp: ends_by_def)
    then show ?thesis
      using sock_read_steady [OF that(3), of "max (deadline - now s) millisecond"] that by simp
  qed
  have "steady s \<longrightarrow> ends_by s < deadline \<longrightarrow> n \<le> length (stream s) \<longrightarrow>
      steady s' \<and> ends_by s' \<le> ends_by s \<and> is_ok r"
    using assms(1)
  proof (rule filled_run, goal_cases)
    case (2 n s)
    then show ?case by (auto simp: ends_by_def)
  next
    case (5 n s t r u)
    then show ?case
      using step [of n s _ t] sock_read_interrupted [OF 5(3)] by auto
  next
    case (6 n s g t r u)
    then show ?case
      using step [of n s _ t] sock_read_ok [OF 6(3)] by (auto split: sum.splits)
  qed (auto dest: step)
  then show ?thesis
    using assms by blast
qed

lemma read_body_steady:
  assumes "read_body want deadline body s = (r, s')" "steady s" "ends_by s < deadline"
    "want - length body \<le> length (stream s)"
  shows "is_ok r"
  using assms
proof (induction want deadline body s rule: read_body.induct)
  case (1 want deadline body s)
  show ?case
  proof (cases "length body < want")
    case False
    then show ?thesis
      using "1.prems" by (auto simp: read_body.simps)
  next
    case True
    obtain x t where fill: "filled (min CHUNK (want - length body)) deadline s = (x, t)"
      by fastforce
    have "min CHUNK (want - length body) \<le> length (stream s)"
      using "1.prems"(4) by simp
    then have steady: "steady t" "ends_by t < deadline" "is_ok x"
      using filled_steady [OF fill "1.prems"(2,3)] "1.prems"(3) by linarith+
    then obtain chunk where chunk: "x = Inr chunk"
      by (auto simp: is_ok_iff)
    have "read_body want deadline (body @ chunk) t = (r, s')"
      using "1.prems"(1) True fill chunk by (simp add: read_body.simps)
    then show ?thesis
      using "1.IH" [OF True fill [symmetric] chunk] steady "1.prems"(4)
        filled_ok [of "min CHUNK (want - length body)" deadline s chunk t] fill chunk
      by auto
  qed
qed

lemma first_byte_steady:
  assumes "first_byte s = (r, s')" "steady s" "stream s \<noteq> []" "read_timeout s = Some limit"
    "spans s \<le> limit"
  shows "is_ok r \<and> steady s' \<and> spans s' \<le> spans s"
  using assms
proof (induction s rule: first_byte.induct)
  case (1 s)
  obtain x t where read: "sock_read 1 s = (x, t)"
    by fastforce
  have steady: "steady t" "spans t \<le> spans s" "x = Inl Interrupted \<or> (\<exists>g. x = Inr g \<and> g \<noteq> [])"
    using sock_read_steady [OF read] "1.prems" by auto
  have same: "read_timeout t = read_timeout s"
    using read by (auto simp: sock_read_def Let_def split: list.splits if_splits read_event.splits)
  show ?case
  proof (cases "x = Inl Interrupted")
    case True
    then have rest: "first_byte t = (r, s')" "stream t = stream s"
      using "1.prems"(1) read sock_read_interrupted [of 1 s t] by (auto simp: first_byte.simps [of s])
    have "is_ok r \<and> steady s' \<and> spans s' \<le> spans t"
      by (rule "1.IH" [OF read [symmetric] True refl rest(1) steady(1)])
         (use rest same steady "1.prems" in auto)
    then show ?thesis
      using steady(2) by simp
  next
    case False
    then show ?thesis
      using "1.prems"(1) read steady by (auto simp: first_byte.simps [of s])
  qed
qed

lemma frame_is_read:
  assumes "steady s" "spans s \<le> idle" "spans s < whole"
    and "stream s = to_be_bytes 4 (length body) @ body @ rest"
    and "1 \<le> length body" "length body \<le> frame_most"
  shows "\<exists>s'. read_frame_by idle whole s = (Inr body, s') \<and> stream s' = rest"
proof -
  obtain x s1 where lead: "first_byte (read_by idle s) = (x, s1)"
    by fastforce
  have full: "length (stream s) = 4 + length body + length rest"
    using assms(4) by simp
  then have "stream s \<noteq> []" by auto
  moreover have "spans s \<le> max idle millisecond"
    using assms(2) by simp
  ultimately have "is_ok x \<and> steady s1 \<and> spans s1 \<le> spans s"
    using first_byte_steady [OF lead, of "max idle millisecond"] assms(1) by simp
  then have one: "is_ok x" "steady s1" "spans s1 < whole"
    using assms(3) by simp_all
  then obtain b where b: "x = Inr b" "length b = 1" "stream s = b @ stream s1"
    using first_byte_ok [of "read_by idle s" _ s1] lead by (auto simp: is_ok_iff)
  obtain y s2 where fill: "filled 3 (now s1 + whole) s1 = (y, s2)"
    by fastforce
  have two: "is_ok y" "steady s2" "ends_by s2 < now s1 + whole"
    using filled_steady [OF fill one(2)] one(3) full b by (auto simp: ends_by_def)
  then obtain c where c: "y = Inr c" "length c = 3" "stream s1 = c @ stream s2"
    using filled_ok [of 3 "now s1 + whole" s1 _ s2] fill by (auto simp: is_ok_iff)
  have "(b @ c) @ stream s2 = to_be_bytes 4 (length body) @ (body @ rest)"
    using assms(4) b c by simp
  moreover have "length (b @ c) = length (to_be_bytes 4 (length body))"
    by (simp add: b c)
  ultimately have header: "b @ c = to_be_bytes 4 (length body)" and tail: "stream s2 = body @ rest"
    using append_eq_append_conv by blast+
  have want: "from_be_bytes (b @ c) = length body"
    using assms(6) by (simp add: header frame_most_def)
  obtain z s3 where rd: "read_body (length body) (now s1 + whole) [] s2 = (z, s3)"
    by fastforce
  have "is_ok z"
    using read_body_steady [OF rd two(2,3)] tail by simp
  then obtain out where z: "z = Inr out"
    by (auto simp: is_ok_iff)
  have "length out = length body" "body @ rest = out @ stream s3"
    using read_body_ok [of "length body" "now s1 + whole" "[]" s2 out s3] rd z tail by auto
  then have "out = body \<and> stream s3 = rest"
    by simp
  moreover have "sized (length body) = Inr ()"
    using assms by simp
  ultimately show ?thesis
    using lead b fill c want rd z by (simp add: read_frame_by_def Let_def del: sized_ok)
qed


section \<open>Writing\<close>

lemma sock_write_sent:
  assumes "sock_write part s = (r, s')"
  shows "\<exists>k. sent s' = sent s @ take k part
    \<and> (case r of Inr n \<Rightarrow> take n part = take k part | Inl e \<Rightarrow> k = 0)"
proof -
  have "take (min k (length part)) part = take k part" for k
    by (metis append_eq_conv_conj min.commute take_all_iff take_take nle_le order_refl)
  then show ?thesis
    using assms
    by (cases r)
       (force simp: sock_write_def Let_def split: list.splits if_splits write_event.splits)+
qed

lemma write_part_sent:
  assumes "write_part deadline part s = (r, s')"
  shows "\<exists>k. sent s' = sent s @ take k part \<and> (is_ok r \<longrightarrow> take k part = part)"
  using assms
proof (induction deadline part s rule: write_part.induct)
  case (1 deadline part s)
  note step = "1.prems" [unfolded write_part.simps [of deadline part s]]
  show ?case
  proof (cases "part = [] \<or> deadline \<le> now s")
    case True
    then show ?thesis
      using step by (auto simp: left_def intro: exI [of _ 0] split: if_splits)
  next
    case False
    let ?w = "write_by (deadline - now s) s"
    obtain x t where wr: "sock_write part ?w = (x, t)"
      by fastforce
    obtain k where k: "sent t = sent s @ take k part"
      "case x of Inr n \<Rightarrow> take n part = take k part | Inl e \<Rightarrow> k = 0"
      using sock_write_sent [OF wr] by (auto simp: write_by_def)
    have rem: "left deadline s = Inr (deadline - now s)" "part \<noteq> []"
      using False by (auto simp: left_def)
    show ?thesis
    proof (cases x)
      case (Inl e)
      then show ?thesis
        using step rem wr k "1.IH"(1) [OF rem(2,1) wr [symmetric] Inl]
        by (cases "e = Interrupted") (auto intro: exI [of _ 0])
    next
      case (Inr n)
      show ?thesis
      proof (cases "n = 0")
        case True
        then show ?thesis
          using step rem wr k Inr by (auto intro: exI [of _ k])
      next
        case False
        then obtain j where "sent s' = sent t @ take j (drop n part)"
          "is_ok r \<longrightarrow> take j (drop n part) = drop n part"
          using step rem wr Inr "1.IH"(2) [OF rem(2,1) wr [symmetric] Inr False] by auto
        then show ?thesis
          using k Inr append_take_drop_id [of n part]
          by (intro exI [of _ "n + j"]) (auto simp: take_add)
      qed
    qed
  qed
qed

definition frame_of :: "bytes \<Rightarrow> bytes" where
  "frame_of body = to_be_bytes 4 (length body) @ body"

lemma write_frame_by_prefix:
  assumes "write_frame_by body whole s = (r, s')"
  shows "\<exists>k. sent s' = sent s @ take k (frame_of body)
    \<and> (is_ok r \<longrightarrow> take k (frame_of body) = frame_of body \<and> sized (length body) = Inr ())
    \<and> (\<not> is_ok (sized (length body)) \<longrightarrow> s' = s \<and> r = sized (length body))"
proof (cases "is_ok (sized (length body))")
  case False
  then show ?thesis
    using assms by (auto simp: write_frame_by_def is_ok_iff intro!: exI [of _ 0] split: sum.splits)
next
  case True
  then have size: "sized (length body) = Inr ()" "u32_try_from (length body) = Some (length body)"
    by (auto simp: is_ok_iff u32_try_from_def frame_most_def simp del: sized_ok)
       (simp add: sized_ok frame_most_def)
  let ?head = "to_be_bytes 4 (length body)"
  obtain x t where head: "write_part (now s + whole) ?head s = (x, t)"
    by fastforce
  obtain k where k: "sent t = sent s @ take k ?head" "is_ok x \<longrightarrow> take k ?head = ?head"
    using write_part_sent [OF head] by auto
  show ?thesis
  proof (cases x)
    case (Inl e)
    then have "r = Inl e" "s' = t"
      using assms size head by (auto simp: write_frame_by_def)
    then show ?thesis
      using k True by (intro exI [of _ "min k 4"]) (auto simp: frame_of_def min_def)
  next
    case (Inr u)
    then have "write_part (now s + whole) body t = (r, s')"
      using assms size head by (simp add: write_frame_by_def)
    from write_part_sent [OF this] obtain j where
      "sent s' = sent t @ take j body" "is_ok r \<longrightarrow> take j body = body" by auto
    then show ?thesis
      using k Inr size True by (intro exI [of _ "4 + j"]) (auto simp: frame_of_def take_add)
  qed
qed

lemma write_frame_by_frame:
  assumes "write_frame_by body whole s = (Inr u, s')"
  shows "sent s' = sent s @ frame_of body" "1 \<le> length body" "length body \<le> frame_most"
  using write_frame_by_prefix [OF assms] by auto

text \<open>
  whatever the peer takes and whenever, \<open>write_frame_by\<close> sends a prefix of the frame, all of it
  when it reports success, and nothing when the body is empty or over the cap.
\<close>

theorem write_frame_by_sent:
  assumes "write_frame_by body whole s = (r, s')"
  shows "\<exists>k. sent s' = sent s @ take k (frame_of body)
    \<and> (is_ok r \<longrightarrow> take k (frame_of body) = frame_of body \<and> sized (length body) = Inr ())
    \<and> (\<not> is_ok (sized (length body)) \<longrightarrow> s' = s \<and> r = sized (length body))"
  using assms by (rule write_frame_by_prefix)

text \<open>
  C26: the round trip: what \<open>write_frame_by\<close> reports sent, delivered to a steady peer in any
  segmentation, is read back by \<open>read_frame_by\<close> as the same body, and the bytes that follow stay.
\<close>

theorem frame_round_trip:
  assumes "write_frame_by body whole s = (Inr (), s')"
    and "sent s' = sent s @ out" "stream p = out @ rest"
    and "steady p" "spans p \<le> idle" "spans p < whole'"
  shows "\<exists>p'. read_frame_by idle whole' p = (Inr body, p') \<and> stream p' = rest"
proof -
  have "out = frame_of body"
    using write_frame_by_frame(1) [OF assms(1)] assms(2) by simp
  then show ?thesis
    using assms write_frame_by_frame(2,3) [OF assms(1)]
    by (intro frame_is_read) (simp_all add: frame_of_def)
qed

section \<open>Witnesses on a concrete socket\<close>

definition demo_sock :: sock where
  "demo_sock = \<lparr>now = 0, read_timeout = None, write_timeout = None,
     inbox = [(5, Arrive [CHR 0x00, CHR 0x00]), (0, Read_interrupted),
              (2, Arrive [CHR 0x00, CHR 0x02, CHR ''h'', CHR ''i'', CHR ''x''])],
     outbox = [(0, Takes 3), (1, Write_interrupted), (2, Takes 10), (0, Takes 10)],
     sent = []\<rparr>"

lemmas framing_eval = demo_sock_def read_frame_by_def write_frame_by_def first_byte.simps
  filled.simps read_body.simps write_part.simps sock_read_def sock_write_def read_by_def write_by_def
  left_def out_of_time_def millisecond_def Let_def CHUNK_def from_be_bytes_def to_be_bytes_def
  code_def sized_def frame_most_def timed_def u32_try_from_def stream_def steady_def spans_def
  frame_of_def to_le_bytes_numeral

lemma demo_frame_read: "\<exists>s'. read_frame_by 10 100 demo_sock = (Inr ''hi'', s')"
  by (simp add: framing_eval)

lemma demo_frame_written:
  "\<exists>s'. write_frame_by ''hi'' 100 demo_sock = (Inr (), s') \<and> sent s' = frame_of ''hi''"
  by (simp add: framing_eval)

lemma demo_stream: "stream demo_sock = frame_of ''hi'' @ ''x''"
  by code_simp

lemma demo_steady: "steady demo_sock" "spans demo_sock = 7"
  by (simp_all add: framing_eval)

theorem read_frame_by_sound_witness:
  "\<exists>s'. read_frame_by 10 100 demo_sock = (Inr ''hi'', s')
     \<and> stream demo_sock = to_be_bytes 4 2 @ ''hi'' @ stream s'"
proof -
  obtain s' where run: "read_frame_by 10 100 demo_sock = (Inr ''hi'', s')"
    using demo_frame_read by blast
  show ?thesis
    using run read_frame_by_sound [OF run] by (auto simp: numeral_2_eq_2)
qed

theorem read_frame_by_deadline_witness:
  "\<exists>r s' lead s1. first_byte (read_by 10 demo_sock) = (Inr lead, s1)
     \<and> read_frame_by 10 100 demo_sock = (r, s') \<and> now s' \<le> now s1 + 100 + millisecond"
proof -
  obtain lead s1 where lead: "first_byte (read_by 10 demo_sock) = (Inr lead, s1)"
    by (simp add: framing_eval)
  obtain r s' where run: "read_frame_by 10 100 demo_sock = (r, s')"
    by fastforce
  show ?thesis
    using lead run read_frame_by_deadline [OF lead run] by blast
qed


theorem write_frame_by_sent_witness:
  "\<exists>s' k. write_frame_by ''hi'' 100 demo_sock = (Inr (), s')
     \<and> sent s' = sent demo_sock @ take k (frame_of ''hi'')
     \<and> take k (frame_of ''hi'') = frame_of ''hi''"
  using demo_frame_written write_frame_by_sent [of "''hi''" 100 demo_sock "Inr ()"] by fastforce

theorem frame_round_trip_witness:
  "\<exists>s' p'. write_frame_by ''hi'' 100 demo_sock = (Inr (), s')
     \<and> read_frame_by 10 100 demo_sock = (Inr ''hi'', p') \<and> stream p' = ''x''"
proof -
  obtain s' where "write_frame_by ''hi'' 100 demo_sock = (Inr (), s')" "sent s' = frame_of ''hi''"
    using demo_frame_written by blast
  then show ?thesis
    using frame_round_trip [of "''hi''" 100 demo_sock s' "frame_of ''hi''" demo_sock "''x''" 10 100]
    by (simp add: demo_steady demo_stream) (simp add: demo_sock_def)
qed

end
