(* ===== verification/File_Control.thy ===== *)
theory File_Control
  imports File_Snapshot Framing
begin

text \<open>
  \<open>src/files/control.rs\<close> and \<open>src/files/control/payload.rs\<close>: the private packet socket between the
  coordinator and the file worker.  The socket is a script of what polls, sends and receives answer,
  each poll after a delay; a poll that outlasts its timeout answers zero at the deadline.  Exhausted
  scripts answer that the call would block, so a silent peer ends in the deadline.
\<close>

section \<open>The packet socket\<close>

definition CONTROL_WAIT :: duration where "CONTROL_WAIT = 5 * 10 ^ 9"
definition MAX_PACKET :: nat where "MAX_PACKET = 128"
definition KEY_BYTES :: nat where "KEY_BYTES = 64"

record packet =
  truncated :: bool
  other_ancillary :: bool
  body :: bytes
  rights :: "fd list"

record chan =
  clock :: instant
  packet_socket :: "errno + bool"
  polls :: "(duration \<times> (errno + nat)) list"
  sends :: "(errno + nat) list"
  recvs :: "(errno + packet) list"
  outgoing :: "(bytes \<times> fd list) list"

definition expired :: error where
  "expired = (TimedOut, ''file control deadline expired'')"

function ready :: "(errno \<Rightarrow> error) \<Rightarrow> instant \<Rightarrow> chan \<Rightarrow> (error + unit) \<times> chan" where
  "ready err deadline c =
     (if deadline \<le> clock c then (Inl expired, c)
      else case polls c of
        [] \<Rightarrow> (Inl expired, c\<lparr>clock := deadline\<rparr>)
      | (d, answer) # rest \<Rightarrow>
          if deadline - clock c < d
          then (Inl expired, c\<lparr>clock := deadline, polls := (d - (deadline - clock c), answer) # rest\<rparr>)
          else
            (let c' = c\<lparr>clock := clock c + d, polls := rest\<rparr> in
             case answer of
               Inr n \<Rightarrow> if n = 0 then ready err deadline c' else (Inr (), c')
             | Inl e \<Rightarrow> if e = INTR then ready err deadline c' else (Inl (err e), c')))"
  by pat_completeness auto
termination
  by (relation "measure (\<lambda>(err, deadline, c). length (polls c))") auto

declare ready.simps [simp del]

lemma ready_facts:
  assumes "ready err deadline c = (r, c')"
  shows "sends c' = sends c \<and> recvs c' = recvs c \<and> outgoing c' = outgoing c
    \<and> packet_socket c' = packet_socket c \<and> clock c \<le> clock c'
    \<and> clock c' \<le> max (clock c) deadline \<and> length (polls c') \<le> length (polls c)
    \<and> (is_ok r \<longrightarrow> length (polls c') < length (polls c))"
  using assms
proof (induction "length (polls c)" arbitrary: c rule: less_induct)
  case less
  note step = less.prems [unfolded ready.simps [of err deadline c]]
  show ?case
  proof (cases "deadline \<le> clock c \<or> polls c = []")
    case True
    then show ?thesis
      using step by (auto split: if_splits)
  next
    case False
    then obtain d answer rest where p: "polls c = (d, answer) # rest" and t: "clock c < deadline"
      by (cases "polls c") auto
    let ?c = "c\<lparr>clock := clock c + d, polls := rest\<rparr>"
    consider (late) "deadline - clock c < d" | (again) "d \<le> deadline - clock c" "ready err deadline ?c = (r, c')"
      | (stop) "d \<le> deadline - clock c" "c' = ?c"
      using step p t by (auto simp: Let_def split: sum.splits if_splits)
    then show ?thesis
    proof cases
      case late
      then show ?thesis
        using step p t by auto
    next
      case again
      then show ?thesis
        using less.hyps [of ?c] p t by auto
    next
      case stop
      then show ?thesis
        using p t by auto
    qed
  qed
qed

text \<open>\<open>channel\<close>: only a Unix packet socket will do.\<close>

definition channel :: "(errno \<Rightarrow> error) \<Rightarrow> chan \<Rightarrow> error + unit" where
  "channel err c =
     (case packet_socket c of
        Inl e \<Rightarrow> Inl (err e)
      | Inr ok \<Rightarrow> ensure ok (bad_data ''file control needs a private Unix packet socket''))"

text \<open>One \<open>sendmsg\<close>: it reports how many bytes went; a whole packet is then on its way.\<close>

definition sendmsg :: "bytes \<Rightarrow> fd list \<Rightarrow> chan \<Rightarrow> (errno + nat) \<times> chan" where
  "sendmsg bs fds c =
     (case sends c of
        [] \<Rightarrow> (Inl WOULDBLOCK, c)
      | Inl e # rest \<Rightarrow> (Inl e, c\<lparr>sends := rest\<rparr>)
      | Inr n # rest \<Rightarrow>
          (Inr n, c\<lparr>sends := rest,
             outgoing := (if n = length bs then outgoing c @ [(bs, fds)] else outgoing c)\<rparr>))"

function send_loop ::
    "(errno \<Rightarrow> error) \<Rightarrow> instant \<Rightarrow> bytes \<Rightarrow> fd list \<Rightarrow> chan \<Rightarrow> (error + unit) \<times> chan" where
  "send_loop err deadline bs fds c =
     (case sendmsg bs fds c of
        (Inr n, c') \<Rightarrow>
          if n = length bs then (Inr (), c')
          else (Inl (bad_data ''file control packet was incomplete''), c')
      | (Inl e, c') \<Rightarrow>
          if e = WOULDBLOCK \<or> e = INTR
          then (case ready err deadline c' of
                  (Inl why, c'') \<Rightarrow> (Inl why, c'')
                | (Inr _, c'') \<Rightarrow> send_loop err deadline bs fds c'')
          else (Inl (err e), c'))"
  by pat_completeness auto
termination
proof (relation "measure (\<lambda>(err, deadline, bs, fds, c). length (polls c) + length (sends c))", goal_cases)
  case (2 err deadline bs fds c x c' e y c'' u)
  have "length (polls c'') < length (polls c')" "sends c'' = sends c'"
    using ready_facts [of err deadline c' y c''] 2 by auto
  moreover have "length (sends c') \<le> length (sends c)" "polls c' = polls c"
    using 2(1) by (auto simp: sendmsg_def split: list.splits sum.splits)
  ultimately show ?case
    by simp
qed simp

declare send_loop.simps [simp del]

definition send_packet ::
    "(errno \<Rightarrow> error) \<Rightarrow> bytes \<Rightarrow> fd list \<Rightarrow> chan \<Rightarrow> (error + unit) \<times> chan" where
  "send_packet err bs fds c =
     (case channel err c of
        Inl e \<Rightarrow> (Inl e, c)
      | Inr _ \<Rightarrow>
          if bs = [] \<or> length bs > MAX_PACKET \<or> length fds > 1
          then (Inl (bad_data ''file control packet exceeds its bounds''), c)
          else send_loop err (clock c + CONTROL_WAIT) bs fds c)"

function receive_loop ::
    "(errno \<Rightarrow> error) \<Rightarrow> instant \<Rightarrow> chan \<Rightarrow> (error + bytes \<times> fd list) \<times> chan" where
  "receive_loop err deadline c =
     (case (case recvs c of [] \<Rightarrow> (Inl WOULDBLOCK, c) | m # rest \<Rightarrow> (m, c\<lparr>recvs := rest\<rparr>)) of
        (Inr m, c') \<Rightarrow>
          if truncated m then (Inl (bad_data ''truncated file control packet''), c')
          else if other_ancillary m
          then (Inl (bad_data ''unexpected file control ancillary message''), c')
          else if body m = [] then (Inl (UnexpectedEof, ''file control closed''), c')
          else if length (body m) > MAX_PACKET
          then (Inl (bad_data ''invalid file control length''), c')
          else (Inr (body m, rights m), c')
      | (Inl e, c') \<Rightarrow>
          if e = WOULDBLOCK \<or> e = INTR
          then (case ready err deadline c' of
                  (Inl why, c'') \<Rightarrow> (Inl why, c'')
                | (Inr _, c'') \<Rightarrow> receive_loop err deadline c'')
          else (Inl (err e), c'))"
  by pat_completeness auto
termination
proof (relation "measure (\<lambda>(err, deadline, c). length (polls c) + length (recvs c))", goal_cases)
  case (2 err deadline c x c' e y c'' u)
  have "length (polls c'') < length (polls c')" "recvs c'' = recvs c'"
    using ready_facts [of err deadline c' y c''] 2 by auto
  moreover have "length (recvs c') \<le> length (recvs c)" "polls c' = polls c"
    using 2(1) by (auto split: list.splits)
  ultimately show ?case
    by simp
qed simp

declare receive_loop.simps [simp del]

definition receive_packet :: "(errno \<Rightarrow> error) \<Rightarrow> chan \<Rightarrow> (error + bytes \<times> fd list) \<times> chan" where
  "receive_packet err c =
     (case channel err c of
        Inl e \<Rightarrow> (Inl e, c)
      | Inr _ \<Rightarrow> receive_loop err (clock c + CONTROL_WAIT) c)"

lemma sendmsg_facts:
  assumes "sendmsg bs fds c = (r, c')"
  shows "clock c' = clock c \<and> polls c' = polls c \<and> length (sends c') \<le> length (sends c)
    \<and> outgoing c' = outgoing c @ (if r = Inr (length bs) then [(bs, fds)] else [])"
  using assms by (auto simp: sendmsg_def split: list.splits sum.splits)

lemma send_loop_facts:
  assumes "send_loop err deadline bs fds c = (r, c')"
  shows "clock c' \<le> max (clock c) deadline
    \<and> outgoing c' = outgoing c @ (if is_ok r then [(bs, fds)] else [])"
  using assms
proof (induction "length (polls c) + length (sends c)" arbitrary: c rule: less_induct)
  case less
  obtain x c1 where snd1: "sendmsg bs fds c = (x, c1)"
    by fastforce
  note one = sendmsg_facts [OF snd1]
  note step = less.prems [unfolded send_loop.simps [of err deadline bs fds c] snd1]
  show ?case
  proof (cases "x = Inl WOULDBLOCK \<or> x = Inl INTR")
    case False
    then show ?thesis
      using step one by (auto split: sum.splits if_splits)
  next
    case True
    obtain y c2 where rd: "ready err deadline c1 = (y, c2)"
      by fastforce
    note two = ready_facts [OF rd]
    show ?thesis
    proof (cases y)
      case (Inl why)
      then show ?thesis
        using step True rd one two by auto
    next
      case (Inr u)
      then have "send_loop err deadline bs fds c2 = (r, c')"
        using step True rd by auto
      then show ?thesis
        using less.hyps [of c2] one two Inr True by auto
    qed
  qed
qed

lemma receive_loop_facts:
  assumes "receive_loop err deadline c = (r, c')"
  shows "clock c' \<le> max (clock c) deadline
    \<and> (\<forall>bs fds. r = Inr (bs, fds) \<longrightarrow> bs \<noteq> [] \<and> length bs \<le> MAX_PACKET)"
  using assms
proof (induction "length (polls c) + length (recvs c)" arbitrary: c rule: less_induct)
  case less
  obtain x c1 where rcv: "(case recvs c of [] \<Rightarrow> (Inl WOULDBLOCK, c) | m # rest \<Rightarrow> (m, c\<lparr>recvs := rest\<rparr>)) = (x, c1)"
    by fastforce
  then have one: "clock c1 = clock c" "polls c1 = polls c" "length (recvs c1) \<le> length (recvs c)"
    by (auto split: list.splits)
  note step = less.prems [unfolded receive_loop.simps [of err deadline c] rcv]
  show ?case
  proof (cases "x = Inl WOULDBLOCK \<or> x = Inl INTR")
    case False
    then show ?thesis
      using step one by (auto split: sum.splits if_splits)
  next
    case True
    obtain y c2 where rd: "ready err deadline c1 = (y, c2)"
      by fastforce
    note two = ready_facts [OF rd]
    show ?thesis
    proof (cases y)
      case (Inl why)
      then show ?thesis
        using step True rd one two by auto
    next
      case (Inr u)
      then have "receive_loop err deadline c2 = (r, c')"
        using step True rd by auto
      then show ?thesis
        using less.hyps [of c2] one two Inr by auto
    qed
  qed
qed

section \<open>Binding and lease packets\<close>

definition BINDING :: bytes where "BINDING = ''CFB1''"
definition LEASE :: bytes where "LEASE = ''CFL1''"

lemma magic_lengths [simp]: "length BINDING = 4" "length LEASE = 4"
  by (simp_all add: BINDING_def LEASE_def)

definition packet_key :: "bytes \<Rightarrow> nat \<Rightarrow> error + string" where
  "packet_key bs off =
     (if off + KEY_BYTES \<le> length bs
      then (let k = take KEY_BYTES (drop off bs) in
            rbind (ensure (from_utf8 k) (bad_data ''invalid file key encoding'')) (\<lambda>_. Key_from_wire k))
      else Inl (bad_data ''short file key''))"

definition binding_body :: "string \<Rightarrow> bytes" where
  "binding_body k = BINDING @ k"

definition decode_binding :: "bytes \<Rightarrow> error + string" where
  "decode_binding bs =
     rbind (ensure (length bs = length BINDING + KEY_BYTES \<and> prefix BINDING bs)
              (bad_data ''invalid file binding message'')) (\<lambda>_. packet_key bs (length BINDING))"

definition receive_binding ::
    "(errno \<Rightarrow> error) \<Rightarrow> chan \<Rightarrow> (error + string) \<times> chan" where
  "receive_binding err c =
     (case receive_packet err c of
        (Inl e, c') \<Rightarrow> (Inl e, c')
      | (Inr (bs, fds), c') \<Rightarrow>
          (if fds \<noteq> [] then Inl (bad_data ''invalid file binding message'') else decode_binding bs, c'))"

text \<open>The key, device and inode a lease packet names.\<close>

definition lease_body :: "string \<times> 64 word \<times> 64 word \<Rightarrow> bytes" where
  "lease_body = (\<lambda>(k, dev, ino). LEASE @ k @ le64 dev @ le64 ino)"

definition decode_lease :: "bytes \<Rightarrow> error + string \<times> 64 word \<times> 64 word" where
  "decode_lease bs =
     rbind (ensure (length bs = length LEASE + KEY_BYTES + 16 \<and> prefix LEASE bs)
              (bad_data ''invalid file lease message'')) (\<lambda>_.
     rbind (packet_key bs (length LEASE)) (\<lambda>k.
     Inr (k, word_of_nat (from_le_bytes (take 8 (drop 68 bs))),
          word_of_nat (from_le_bytes (drop 76 bs)))))"

lemma lower_hex_utf8: "list_all lower_hex k \<Longrightarrow> from_utf8 k"
proof (induction k)
  case (Cons a k)
  then have "utf8_head a k = Whole 1"
    by (auto simp: utf8_head_def lower_hex_def is_ascii_digit_def)
  then show ?case
    using Cons by (simp add: from_utf8_def utf8_error.simps)
qed (simp add: from_utf8_def)

lemma packet_key_iff:
  "packet_key bs off = Inr k \<longleftrightarrow>
     off + KEY_BYTES \<le> length bs \<and> k = take KEY_BYTES (drop off bs) \<and> wire_key k"
  by (auto simp: packet_key_def Let_def result_simps Key_from_wire_def wire_key_def
      dest: lower_hex_utf8 split: if_splits)

lemma prefix_take: "prefix p bs \<longleftrightarrow> take (length p) bs = p"
  by (metis append_eq_conv_conj prefix_def take_is_prefix)

interpretation binding_wire: wire_format binding_body decode_binding wire_key
proof
  show "decode_binding (binding_body k) = Inr k" if "wire_key k" for k
    using that by (simp add: decode_binding_def binding_body_def packet_key_iff BINDING_def KEY_BYTES_def wire_key_def)
  show "wire_key k \<and> bs = binding_body k" if "decode_binding bs = Inr k" for bs k
    using that
    by (auto simp: decode_binding_def rbind_ensure packet_key_iff binding_body_def BINDING_def KEY_BYTES_def
        prefix_def split: if_splits)
qed

lemma split_after: "drop n bs = take m (drop n bs) @ drop (n + m) bs"
  by (metis add.commute append_take_drop_id drop_drop)

lemma le64_from_le: "length bs = 8 \<Longrightarrow> le64 (word_of_nat (from_le_bytes bs)) = bs"
proof -
  assume len: "length bs = 8"
  have "from_le_bytes bs < 2 ^ 64"
    using from_le_bytes_less [of bs] len by simp
  then have "unat (word_of_nat (from_le_bytes bs) :: 64 word) = from_le_bytes bs"
    by (simp add: unat_of_nat)
  then show ?thesis
    using to_from_le_bytes [of bs] len by (simp add: le64_def)
qed

lemma from_le_le64: "word_of_nat (from_le_bytes (le64 v)) = v"
proof -
  have "unat v < 256 ^ 8"
    by (rule less_le_trans [OF unsigned_less]) simp
  then show ?thesis
    by (simp add: le64_def)
qed

interpretation lease_wire: wire_format lease_body decode_lease "\<lambda>(k, _). wire_key k"
proof
  fix a :: "string \<times> 64 word \<times> 64 word"
  assume "case a of (k, _) \<Rightarrow> wire_key k"
  then show "decode_lease (lease_body a) = Inr a"
    by (cases a) (simp add: decode_lease_def lease_body_def packet_key_iff KEY_BYTES_def
        wire_key_def rbind_eq_Inr from_le_le64)
next
  fix bs and a :: "string \<times> 64 word \<times> 64 word"
  assume run: "decode_lease bs = Inr a"
  then obtain k where a: "length bs = 84" "take 4 bs = LEASE" "k = take 64 (drop 4 bs)" "wire_key k"
      "a = (k, word_of_nat (from_le_bytes (take 8 (drop 68 bs))), word_of_nat (from_le_bytes (drop 76 bs)))"
    by (auto simp: decode_lease_def rbind_ensure rbind_eq_Inr packet_key_iff KEY_BYTES_def
        prefix_take split: if_splits)
  have "bs = take 4 bs @ take 64 (drop 4 bs) @ take 8 (drop 68 bs) @ drop 76 bs"
    using split_after [of 4 bs 64] split_after [of 68 bs 8] append_take_drop_id [of 4 bs] by simp
  then show "(case a of (k, _) \<Rightarrow> wire_key k) \<and> bs = lease_body a"
    using a by (simp add: lease_body_def le64_from_le)
qed

section \<open>Leases over the packet socket\<close>

text \<open>\<open>locking::private\<close>: a registry object nobody else can have touched.\<close>

definition private_file :: "kernel \<Rightarrow> stat \<Rightarrow> bool" where
  "private_file K meta \<longleftrightarrow>
     regular_mode (st_mode meta) \<and> st_uid meta = k_euid K \<and> all_mode_bits (st_mode meta) = 0x180
     \<and> st_nlink meta \<noteq> 0 \<and> st_nlink meta = 1 \<and> st_size meta = 0"

definition private_directory :: "kernel \<Rightarrow> stat \<Rightarrow> bool" where
  "private_directory K meta \<longleftrightarrow>
     directory_mode (st_mode meta) \<and> st_uid meta = k_euid K \<and> all_mode_bits (st_mode meta) = 0x1C0
     \<and> st_nlink meta \<noteq> 0"

definition private_object :: "kernel \<Rightarrow> (stat \<Rightarrow> bool) \<Rightarrow> fd \<Rightarrow> unit sys" where
  "private_object K ok f =
     sbind (sys_fstat K f) (\<lambda>meta.
     sbind (scheck (ok meta) (bad_data ''file lease registry object is not private and regular'')) (\<lambda>_.
     cloexec K f))"

text \<open>\<open>locking::received\<close>.\<close>

definition received :: "kernel \<Rightarrow> fd \<Rightarrow> unit sys" where
  "received K f = private_object K (private_file K) f"

text \<open>What \<open>send_lease\<close> puts into its packet, and what \<open>receive_lease\<close> makes of one.\<close>

definition send_lease :: "kernel \<Rightarrow> string \<Rightarrow> fd \<Rightarrow> (bytes \<times> fd list) sys" where
  "send_lease K k f =
     sbind (received K f) (\<lambda>_.
     sbind (sys_fstat K f) (\<lambda>meta.
     sreturn (lease_body (k, st_dev meta, st_ino meta), [f])))"

definition receive_lease :: "kernel \<Rightarrow> binding \<Rightarrow> bytes \<times> fd list \<Rightarrow> fd sys" where
  "receive_lease K b m =
     sbind (scheck (length (snd m) = 1 \<and> length (fst m) = length LEASE + KEY_BYTES + 16 \<and> prefix LEASE (fst m))
              (bad_data ''invalid file lease message'')) (\<lambda>_.
     sbind (slift (packet_key (fst m) (length LEASE))) (\<lambda>k.
     sbind (scheck (k = key b) (bad_data ''file lease belongs to another binding'')) (\<lambda>_.
     sbind (received K (hd (snd m))) (\<lambda>_.
     sbind (binding_validate K b) (\<lambda>_.
     sbind (sys_fstat K (hd (snd m))) (\<lambda>meta.
     sbind (scheck (drop (length LEASE + KEY_BYTES) (fst m) = le64 (st_dev meta) @ le64 (st_ino meta))
              (bad_data ''file lease descriptor identity changed'')) (\<lambda>_.
     sreturn (hd (snd m)))))))))"

lemma receive_lease_ok:
  assumes "receive_lease K b m w = (Inr f, w')"
  obtains meta h where "snd m = [f]" "fst m = lease_body (key b, st_dev meta, st_ino meta)"
    "wire_key (key b)" "k_fstat K h f = Inr meta" "history w' = h @ [(Fstat f, True)]"
proof -
  from assms obtain meta v where
    m: "length (snd m) = 1" "length (fst m) = 84" "prefix LEASE (fst m)"
      "packet_key (fst m) 4 = Inr (key b)" "hd (snd m) = f"
      "drop 68 (fst m) = le64 (st_dev meta) @ le64 (st_ino meta)" and
    stat: "k_fstat K (history v) f = Inr meta" "w' = v\<lparr>history := history v @ [(Fstat f, True)]\<rparr>"
    unfolding receive_lease_def sys_fstat_def sys_ok by (auto simp: KEY_BYTES_def)
  have one: "snd m = [f]"
    using m(1,5) by (cases "snd m") auto
  have "fst m = take 4 (fst m) @ take 64 (drop 4 (fst m)) @ drop 68 (fst m)"
    using split_after [of 4 "fst m" 64] append_take_drop_id [of 4 "fst m"] by simp
  then have "fst m = lease_body (key b, st_dev meta, st_ino meta)" "wire_key (key b)"
    using m by (auto simp: lease_body_def packet_key_iff KEY_BYTES_def prefix_take)
  then show thesis
    using that [of meta "history v"] one stat by simp
qed

section \<open>The sealed request\<close>

text \<open>
  What the receiving side can see of the descriptor a request arrives in: its metadata, whether all
  four seals and close-on-exec are set, and its content.  \<open>digest\<close> is SHA-256, 32 bytes.
\<close>

record memfd =
  mem_stat :: stat
  mem_sealed :: bool
  mem_cloexec :: bool
  mem_content :: bytes

definition MAGIC :: bytes where "MAGIC = ''CFP1''"

definition request_envelope :: "nat \<times> bytes \<Rightarrow> bytes" where
  "request_envelope = (\<lambda>(len, dig). MAGIC @ to_le_bytes 8 len @ dig)"

definition request_body :: "(bytes \<Rightarrow> bytes) \<Rightarrow> bytes \<Rightarrow> error + bytes" where
  "request_body digest bs =
     (if bs = [] \<or> length bs > frame_most then Inl (bad_data ''native file request exceeds its bounds'')
      else Inr (request_envelope (length bs, digest bs)))"

definition decode_envelope :: "bytes \<Rightarrow> error + nat \<times> bytes" where
  "decode_envelope bs =
     rbind (ensure (length bs = length MAGIC + 8 + 32 \<and> prefix MAGIC bs)
              (bad_data ''invalid native file request envelope'')) (\<lambda>_.
     let len = from_le_bytes (take 8 (drop 4 bs)) in
     rbind (ensure (len \<noteq> 0 \<and> len \<le> frame_most)
              (bad_data ''native file request exceeds its bounds'')) (\<lambda>_.
     Inr (len, drop 12 bs)))"

definition receive_request ::
    "(bytes \<Rightarrow> bytes) \<Rightarrow> 32 word \<Rightarrow> bytes \<times> memfd list \<Rightarrow> error + bytes" where
  "receive_request digest euid m =
     rbind (ensure (length (snd m) = 1) (bad_data ''invalid native file request envelope'')) (\<lambda>_.
     rbind (decode_envelope (fst m)) (\<lambda>(len, dig).
     let f = hd (snd m); meta = mem_stat f in
     rbind (ensure (regular_mode (st_mode meta) \<and> st_nlink meta = 0 \<and> st_uid meta = euid
                    \<and> 0 \<le> sint (st_size meta) \<and> unat (st_size meta) = len
                    \<and> mem_sealed f \<and> mem_cloexec f)
              (bad_data ''native request descriptor is not sealed and complete'')) (\<lambda>_.
     rbind (if len \<le> length (mem_content f) then Inr (take len (mem_content f))
            else Inl (UnexpectedEof, ''failed to fill whole buffer'')) (\<lambda>bs.
     rbind (ensure (dig = digest bs) (bad_data ''native request digest mismatch'')) (\<lambda>_.
     Inr bs)))))"

lemma magic_length [simp]: "length MAGIC = 4"
  by (simp add: MAGIC_def)

lemma frame_most_lt: "n \<le> frame_most \<Longrightarrow> n < 256 ^ 8"
  by (simp add: frame_most_def)

interpretation envelope_wire: wire_format request_envelope decode_envelope
  "\<lambda>(len, dig). 1 \<le> len \<and> len \<le> frame_most \<and> length dig = 32"
proof
  fix a :: "nat \<times> bytes"
  assume "case a of (len, dig) \<Rightarrow> 1 \<le> len \<and> len \<le> frame_most \<and> length dig = 32"
  moreover from this have "fst a < 256 ^ 8"
    by (auto simp: frame_most_def)
  ultimately show "decode_envelope (request_envelope a) = Inr a"
    by (cases a) (simp add: decode_envelope_def request_envelope_def rbind_ensure Let_def)
next
  fix bs and a :: "nat \<times> bytes"
  assume "decode_envelope bs = Inr a"
  then have a: "length bs = 44" "take 4 bs = MAGIC"
      "a = (from_le_bytes (take 8 (drop 4 bs)), drop 12 bs)"
      "1 \<le> fst a" "fst a \<le> frame_most"
    by (auto simp: decode_envelope_def rbind_ensure prefix_take Let_def split: if_splits)
  have "bs = take 4 bs @ take 8 (drop 4 bs) @ drop 12 bs"
    using split_after [of 4 bs 8] append_take_drop_id [of 4 bs] by simp
  moreover have "to_le_bytes 8 (fst a) = take 8 (drop 4 bs)"
    using a to_from_le_bytes [of "take 8 (drop 4 bs)"] by simp
  ultimately show "(case a of (len, dig) \<Rightarrow> 1 \<le> len \<and> len \<le> frame_most \<and> length dig = 32)
      \<and> bs = request_envelope a"
    using a by (auto simp: request_envelope_def)
qed

section \<open>What the control channel guarantees\<close>

text \<open>
  a packet is sent whole or not at all: \<open>send\<close> returns within five seconds whatever the peer and
  the poll answer, and it reports success exactly when the packet it was given, and nothing else,
  went out on the socket.
\<close>

theorem send_packet_exact:
  assumes "send_packet err bs fds c = (r, c')"
  shows "clock c' \<le> clock c + CONTROL_WAIT
    \<and> outgoing c' = outgoing c @ (if is_ok r then [(bs, fds)] else [])
    \<and> (is_ok r \<longrightarrow> bs \<noteq> [] \<and> length bs \<le> MAX_PACKET \<and> length fds \<le> 1)"
proof (cases "send_loop err (clock c + CONTROL_WAIT) bs fds c = (r, c')
    \<and> bs \<noteq> [] \<and> length bs \<le> MAX_PACKET \<and> length fds \<le> 1")
  case True
  then show ?thesis
    using send_loop_facts [of err "clock c + CONTROL_WAIT" bs fds c r c'] by auto
next
  case False
  then have "c' = c" "\<not> is_ok r"
    using assms by (cases "channel err c"; auto simp: send_packet_def split: if_splits)+
  then show ?thesis
    by simp
qed

text \<open>
  the three packets of the protocol have one encoding each: a binding, a lease or a request
  envelope is accepted only when it is byte for byte the encoding of the value it yields, and every
  valid value is accepted.
\<close>

theorem control_packets_exact:
  "(decode_binding bs = Inr k \<longleftrightarrow> wire_key k \<and> bs = binding_body k)
   \<and> (decode_lease cs = Inr l \<longleftrightarrow> wire_key (fst l) \<and> cs = lease_body l)
   \<and> (decode_envelope es = Inr v \<longleftrightarrow>
        (1 \<le> fst v \<and> fst v \<le> frame_most \<and> length (snd v) = 32) \<and> es = request_envelope v)"
  using binding_wire.decode_iff [of bs k] lease_wire.decode_iff [of cs l]
    envelope_wire.decode_iff [of es v]
  by (simp add: case_prod_beta)

lemma receive_request_ok:
  assumes "receive_request digest euid m = Inr bs"
  obtains f where "snd m = [f]" "fst m = request_envelope (length bs, digest bs)"
    "1 \<le> length bs" "length bs \<le> frame_most" "mem_sealed f" "prefix bs (mem_content f)"
    "length (digest bs) = 32" "unat (st_size (mem_stat f)) = length bs"
proof -
  from assms obtain f len dig where
    f: "snd m = [f]" and dec: "decode_envelope (fst m) = Inr (len, dig)" and
    rest: "mem_sealed f" "len \<le> length (mem_content f)" "bs = take len (mem_content f)" "dig = digest bs"
      "unat (st_size (mem_stat f)) = len"
    by (cases "snd m")
       (auto simp: receive_request_def rbind_ensure rbind_eq_Inr Let_def split: if_splits)
  then have "length bs = len" by simp
  then show thesis
    using that [OF f] envelope_wire.exact [OF dec] rest take_is_prefix [of len "mem_content f"] by auto
qed

text \<open>
  the worker accepts a request only out of a sealed descriptor that holds exactly the announced
  number of bytes, between one and the frame cap, with the announced digest; and what the
  coordinator packs into such a descriptor is what the worker reads.
\<close>

theorem request_transfer_exact:
  assumes "length (digest bs) = 32" "request_body digest bs = Inr env"
    "regular_mode (st_mode (mem_stat f))" "st_nlink (mem_stat f) = 0" "st_uid (mem_stat f) = euid"
    "0 \<le> sint (st_size (mem_stat f))" "unat (st_size (mem_stat f)) = length bs"
    "mem_sealed f" "mem_cloexec f" "mem_content f = bs"
  shows "receive_request digest euid (env, [f]) = Inr bs
    \<and> (\<forall>m cs. receive_request digest euid m = Inr cs \<longrightarrow>
         fst m = request_envelope (length cs, digest cs) \<and> 1 \<le> length cs \<and> length cs \<le> frame_most
         \<and> (\<exists>g. snd m = [g] \<and> mem_sealed g \<and> unat (st_size (mem_stat g)) = length cs
               \<and> prefix cs (mem_content g)))"
proof (intro conjI allI impI)
  have "env = request_envelope (length bs, digest bs)" "1 \<le> length bs" "length bs \<le> frame_most"
    using assms(2) by (cases bs; simp add: request_body_def split: if_splits)+
  then have "decode_envelope env = Inr (length bs, digest bs)"
    using envelope_wire.round_trip [of "(length bs, digest bs)"] assms(1) by simp
  then show "receive_request digest euid (env, [f]) = Inr bs"
    using assms by (simp add: receive_request_def)
next
  fix m cs
  assume "receive_request digest euid m = Inr cs"
  then show "fst m = request_envelope (length cs, digest cs)" "1 \<le> length cs" "length cs \<le> frame_most"
    "\<exists>g. snd m = [g] \<and> mem_sealed g \<and> unat (st_size (mem_stat g)) = length cs \<and> prefix cs (mem_content g)"
    by (blast elim: receive_request_ok)+
qed

section \<open>Witnesses on a concrete exchange\<close>

definition demo_chan :: chan where
  "demo_chan = \<lparr>clock = 0, packet_socket = Inr True, polls = [(3, Inl INTR), (4, Inr 1)],
     sends = [Inl WOULDBLOCK, Inr 2], recvs = [], outgoing = []\<rparr>"

lemma demo_sent:
  "\<exists>c'. send_packet (\<lambda>e. other_error []) ''ok'' [] demo_chan = (Inr (), c')"
  by (simp add: send_packet_def channel_def demo_chan_def MAX_PACKET_def CONTROL_WAIT_def
      send_loop.simps sendmsg_def ready.simps Let_def)

theorem send_packet_exact_witness:
  "\<exists>c'. send_packet (\<lambda>e. other_error []) ''ok'' [] demo_chan = (Inr (), c')
     \<and> outgoing c' = [(''ok'', [])] \<and> clock c' \<le> CONTROL_WAIT"
proof -
  obtain c' where run: "send_packet (\<lambda>e. other_error []) ''ok'' [] demo_chan = (Inr (), c')"
    using demo_sent by blast
  show ?thesis
    using run send_packet_exact [OF run] by (simp add: demo_chan_def)
qed

definition demo_digest :: "bytes \<Rightarrow> bytes" where
  "demo_digest bs = replicate 32 (CHR ''d'')"

definition demo_memfd :: memfd where
  "demo_memfd = \<lparr>mem_stat = \<lparr>st_dev = 1, st_ino = 7, st_size = 2, st_mode = 0x8180, st_uid = 1000,
     st_gid = 1000, st_nlink = 0, st_mtime = 5, st_mtime_nsec = 0, st_ctime = 5, st_ctime_nsec = 0\<rparr>,
     mem_sealed = True, mem_cloexec = True, mem_content = ''{}''\<rparr>"

theorem request_transfer_exact_witness:
  "\<exists>env. request_body demo_digest ''{}'' = Inr env
     \<and> receive_request demo_digest 1000 (env, [demo_memfd]) = Inr ''{}''"
proof -
  have env: "request_body demo_digest ''{}'' = Inr (request_envelope (2, replicate 32 (CHR ''d'')))"
    by (simp add: request_body_def demo_digest_def frame_most_def numeral_2_eq_2)
  have "length (demo_digest ''{}'') = 32" "regular_mode (st_mode (mem_stat demo_memfd))"
    "st_nlink (mem_stat demo_memfd) = 0" "st_uid (mem_stat demo_memfd) = 1000"
    "0 \<le> sint (st_size (mem_stat demo_memfd))" "unat (st_size (mem_stat demo_memfd)) = length ''{}''"
    "mem_sealed demo_memfd" "mem_cloexec demo_memfd" "mem_content demo_memfd = ''{}''"
    by (simp_all add: demo_digest_def demo_memfd_def regular_mode_def)
  from request_transfer_exact [OF this(1) env this(2-9)] show ?thesis
    using env by blast
qed

end
