(* ===== verification/Wire.thy ===== *)
theory Wire
  imports Json_Value
begin

text \<open>
  The replies of the family wire (\<open>wire.rs\<close>) and the key of a served socket (\<open>serving/key.rs\<close>).
\<close>

unbundle bit_operations_syntax

section \<open>Calls and replies\<close>

definition FAMILY :: "16 word" where "FAMILY = 1"

record call =
  call_name :: string
  call_args :: "json list"

datatype fault = Refused | Failed

record reply =
  rep_ok :: bool
  rep_family :: "16 word"
  rep_surface :: "16 word option"
  rep_n :: nat
  rep_result :: "json list"
  rep_error :: "string option"
  rep_fault :: "fault option"

definition Reply_of :: "json \<Rightarrow> reply" where
  "Reply_of v = \<lparr>rep_ok = True, rep_family = FAMILY, rep_surface = None, rep_n = 1, rep_result = [v],
     rep_error = None, rep_fault = None\<rparr>"

definition Reply_rows :: "json list \<Rightarrow> reply" where
  "Reply_rows vs = \<lparr>rep_ok = True, rep_family = FAMILY, rep_surface = None, rep_n = length vs,
     rep_result = vs, rep_error = None, rep_fault = None\<rparr>"

definition Reply_done :: reply where
  "Reply_done = \<lparr>rep_ok = True, rep_family = FAMILY, rep_surface = None, rep_n = 0, rep_result = [],
     rep_error = None, rep_fault = None\<rparr>"

definition Reply_refused :: "string \<Rightarrow> reply" where
  "Reply_refused why = \<lparr>rep_ok = False, rep_family = FAMILY, rep_surface = None, rep_n = 0,
     rep_result = [], rep_error = Some why, rep_fault = Some Refused\<rparr>"

definition Reply_failed :: "string \<Rightarrow> reply" where
  "Reply_failed why = (Reply_refused why)\<lparr>rep_fault := Some Failed\<rparr>"

lemmas reply_defs = Reply_of_def Reply_rows_def Reply_done_def Reply_refused_def Reply_failed_def

text \<open>What every reply the constructors build promises a reader.\<close>

definition reply_wf :: "reply \<Rightarrow> bool" where
  "reply_wf r \<longleftrightarrow>
     rep_n r = length (rep_result r) \<and> rep_family r = FAMILY
     \<and> (rep_ok r \<longleftrightarrow> rep_error r = None) \<and> (rep_ok r \<longleftrightarrow> rep_fault r = None)
     \<and> (\<not> rep_ok r \<longrightarrow> rep_result r = [])"

lemma reply_wf_built [simp]:
  "reply_wf (Reply_of v)" "reply_wf (Reply_rows vs)" "reply_wf Reply_done"
  "reply_wf (Reply_refused why)" "reply_wf (Reply_failed why)"
  by (simp_all add: reply_wf_def reply_defs)

section \<open>The key\<close>

definition KEY_LENGTH :: nat where "KEY_LENGTH = 64"

definition KEY_REFUSED :: string where
  "KEY_REFUSED = ''a call to serve needs the key it was started with''"

definition KEY_WANTED :: string where
  "KEY_WANTED = ''serve takes its key on standard input: one line of 64 lowercase hex characters''"

text \<open>
  \<open>Key::read\<close> over what successive one-byte reads answer; an exhausted list is the end of the
  input.  The unread answers are returned beside the result.
\<close>

fun key_line :: "(io_kind \<Rightarrow> string) \<Rightarrow> bytes \<Rightarrow> (io_kind + byte) list \<Rightarrow> (string + bytes) \<times> (io_kind + byte) list" where
  "key_line describe line [] = (Inl (KEY_WANTED @ '', and none arrived''), [])"
| "key_line describe line (Inr b # rest) =
     (if b = newline then (Inr line, rest)
      else if length line = KEY_LENGTH then (Inl (KEY_WANTED @ ''; that is longer''), rest)
      else key_line describe (line @ [b]) rest)"
| "key_line describe line (Inl k # rest) =
     (if k = Interrupted then key_line describe line rest
      else (Inl (KEY_WANTED @ '', and it could not be read: '' @ describe k), rest))"

definition Key_read :: "(io_kind \<Rightarrow> string) \<Rightarrow> (io_kind + byte) list \<Rightarrow> (string + string) \<times> (io_kind + byte) list" where
  "Key_read describe input =
     (case key_line describe [] input of
        (Inl e, rest) \<Rightarrow> (Inl e, rest)
      | (Inr line, rest) \<Rightarrow>
          (if length line = KEY_LENGTH \<and> list_all lower_hex line then Inr line
           else Inl (KEY_WANTED @ ''; that is not one''), rest))"

text \<open>
  \<open>Key::admits\<close>: lengths and bytes are compared with XOR and gathered with OR, without an early
  exit.  A length is a \<open>usize\<close>; slices are never longer than \<open>isize::MAX\<close>.
\<close>

definition byte_at :: "bytes \<Rightarrow> nat \<Rightarrow> nat" where
  "byte_at bs i = (if i < length bs then code (bs ! i) else 0)"

definition differ :: "bytes \<Rightarrow> bytes \<Rightarrow> nat" where
  "differ ours theirs =
     fold (\<lambda>i d. d OR (code (ours ! i) XOR byte_at theirs i)) [0..<length ours]
       (length ours XOR length theirs)"

definition admits :: "string \<Rightarrow> string option \<Rightarrow> bool" where
  "admits k presented =
     (case presented of None \<Rightarrow> False | Some theirs \<Rightarrow> differ k theirs = 0)"

lemma or_zero [simp]: "a OR b = 0 \<longleftrightarrow> a = 0 \<and> b = (0 :: nat)"
  by (auto simp: bit_eq_iff bit_or_iff)

lemma xor_zero [simp]: "a XOR b = 0 \<longleftrightarrow> a = (b :: nat)"
  by (auto simp: bit_eq_iff bit_xor_iff)

lemma fold_or_zero:
  "fold (\<lambda>i d. d OR f i) is d = (0 :: nat) \<longleftrightarrow> d = 0 \<and> (\<forall>i \<in> set is. f i = 0)"
  by (induction "is" arbitrary: d) auto

lemma admits_same: "admits k presented \<longleftrightarrow> presented = Some k"
proof (cases presented)
  case (Some theirs)
  have "differ k theirs = 0 \<longleftrightarrow>
      length k = length theirs \<and> (\<forall>i < length k. code (k ! i) = byte_at theirs i)"
    unfolding differ_def fold_or_zero by auto
  also have "\<dots> \<longleftrightarrow> k = theirs"
    by (auto simp: byte_at_def list_eq_iff_nth_eq)
  finally show ?thesis
    by (auto simp: admits_def Some)
qed (simp add: admits_def)

text \<open>
  the constant-time comparison of a presented key is equality: only the key \<open>serve\<close> was started
  with is admitted, and it always is.
\<close>

theorem key_admits_exactly: "admits k presented \<longleftrightarrow> presented = Some k"
  by (rule admits_same)

lemma key_line_ok:
  assumes "key_line describe line input = (Inr l, rest)" "length line \<le> KEY_LENGTH"
  shows "length l \<le> KEY_LENGTH \<and> (\<exists>tail. l = line @ tail \<and> newline \<notin> set tail
    \<and> filter (\<lambda>r. r \<noteq> Inl Interrupted) input = map Inr tail @ Inr newline # filter (\<lambda>r. r \<noteq> Inl Interrupted) rest)"
  using assms
proof (induction describe line input rule: key_line.induct)
  case (2 describe line b rest')
  show ?case
  proof (cases "b = newline")
    case True
    then show ?thesis
      using 2 by auto
  next
    case False
    then have more: "length line \<noteq> KEY_LENGTH" "key_line describe (line @ [b]) rest' = (Inr l, rest)"
      using 2(2) by (auto split: if_splits)
    then obtain tail where "length l \<le> KEY_LENGTH" "l = (line @ [b]) @ tail" "newline \<notin> set tail"
      "filter (\<lambda>r. r \<noteq> Inl Interrupted) rest' = map Inr tail @ Inr newline # filter (\<lambda>r. r \<noteq> Inl Interrupted) rest"
      using 2(1,3) False by fastforce
    then show ?thesis
      using False by (intro conjI exI [of _ "b # tail"]) auto
  qed
qed (auto split: if_splits)

text \<open>
  a key is accepted only from one whole line of 64 lowercase hexadecimal characters, and
  nothing after that line is consumed.
\<close>

theorem key_read_exact:
  assumes "Key_read describe input = (Inr k, rest)"
  shows "length k = 64 \<and> list_all lower_hex k
    \<and> filter (\<lambda>r. r \<noteq> Inl Interrupted) input
        = map Inr k @ Inr newline # filter (\<lambda>r. r \<noteq> Inl Interrupted) rest"
proof -
  have line: "key_line describe [] input = (Inr k, rest)" and good: "length k = 64" "list_all lower_hex k"
    using assms by (auto simp: Key_read_def KEY_LENGTH_def split: prod.splits sum.splits if_splits)
  show ?thesis
    using key_line_ok [OF line] good by auto
qed

definition demo_key :: string where
  "demo_key = replicate 64 (CHR ''a'')"

lemma key_line_plain:
  "length line + length tail \<le> KEY_LENGTH \<Longrightarrow> newline \<notin> set tail \<Longrightarrow>
   key_line describe line (map Inr tail @ Inr newline # rest) = (Inr (line @ tail), rest)"
  by (induction tail arbitrary: line) auto

lemma demo_key_read:
  "Key_read (\<lambda>_. []) (map Inr demo_key @ [Inr newline, Inr (CHR ''x'')]) = (Inr demo_key, [Inr (CHR ''x'')])"
proof -
  have "key_line (\<lambda>_. []) [] (map Inr demo_key @ Inr newline # [Inr (CHR ''x'')]) = (Inr ([] @ demo_key), [Inr (CHR ''x'')])"
    by (rule key_line_plain) (simp_all add: demo_key_def KEY_LENGTH_def newline_def)
  then show ?thesis
    by (simp add: Key_read_def) (simp add: demo_key_def KEY_LENGTH_def list_all_iff lower_hex_def code_def)
qed

theorem key_read_exact_witness:
  "Key_read (\<lambda>_. []) (map Inr demo_key @ [Inr newline, Inr (CHR ''x'')]) = (Inr demo_key, [Inr (CHR ''x'')])
    \<and> length demo_key = 64"
  using demo_key_read key_read_exact [OF demo_key_read] by blast

section \<open>The verbs\<close>

definition CLI_VERBS :: "(string \<times> string) list" where
  "CLI_VERBS = [
     (''workflows'', ''read bounded workflow metadata or one selected source''),
     (''replace-source'', ''replace an existing source from bounded UTF-8 stdin''),
     (''image'', ''read and resize one raster attachment''),
     (''code'', ''source skeletons, directory entries or bounded complete text''),
     (''grammar'', ''fetch, build or list the parsers code reads with''),
     (''mcp'', ''expose configured tools over MCP JSON-RPC stdio''),
     (''mcp-auth'', ''explicitly authorize a configured MCP server in a browser''),
     (''mcp-status'', ''inspect a configured MCP server's authentication status''),
     (''mcp-logout'', ''invalidate a configured MCP server's credentials and sessions''),
     (''verbs'', ''what this program answers, and on which door''),
     (''tools'', ''every tool it offers, with schemas and what each needs''),
     (''run'', ''run one; the call arrives as JSON on stdin''),
     (''surface'', ''hold rows on the harness's screen and draw into them''),
     (''needs'', ''what a coordinator may tell it, as declarations''),
     (''configure'', ''take that configuration, as Lua on stdin''),
     (''client'', ''the client library for its surface '' @ [CHR 0xE2, CHR 0x80, CHR 0x94] @ '' casper has none, and says so''),
     (''acknowledge'', ''clear the installed packages, so their declarations may run''),
     (''serve'', ''bind a session's socket and answer tools and run on it'')]"

definition SOCKET_VERBS :: "(string \<times> string) list" where
  "SOCKET_VERBS = [
     (''tools'', ''every tool it offers, with schemas and what each needs''),
     (''run'', ''run one; the call arrives as a framed JSON or CBOR body'')]"

definition known :: "string \<Rightarrow> bool" where
  "known verb \<longleftrightarrow> list_ex (\<lambda>(name, _). name = verb) CLI_VERBS"

text \<open>No verb is listed twice on one door, and \<open>serve\<close>, which opens the socket, is on the command line.\<close>

lemma verbs_listed_once: "distinct (map fst CLI_VERBS)" "distinct (map fst SOCKET_VERBS)" "known ''serve''"
  by (simp_all add: CLI_VERBS_def SOCKET_VERBS_def known_def)

end
