(* ===== verification/File_Worker.thy ===== *)
theory File_Worker
  imports File_Transaction File_Reading File_Control Wire
begin

text \<open>
  The file worker as a process (\<open>files/worker.rs\<close>): \<open>serve\<close> is what the contained worker does with
  one request, \<open>exchange\<close> what the coordinator makes of the process, and \<open>mutation\<close> how it tells a
  refusal from an outcome it cannot know.  The process machinery, the control channel's packets and
  \<open>serde_json\<close> are parameters.
\<close>

section \<open>The worker\<close>

definition worker_stage :: "string \<Rightarrow> error \<Rightarrow> error" where
  "worker_stage name e = (fst e, ''native '' @ name @ '': '' @ snd e)"

definition staged :: "string \<Rightarrow> 'a sys \<Rightarrow> 'a sys" where
  "staged name m = stry m (\<lambda>r. slift (map_err (worker_stage name) r))"

datatype worker_value =
    Reading_Value reading
  | Presence_Value presence_report
  | Snapshot_Value snapshot
  | Commit_Value commit_report

text \<open>What the process is given: the marker in its environment and the packets of the channel.\<close>

record worker_input =
  in_marker :: "string option"
  in_request :: "error + bytes"
  in_sent :: "error + unit"
  in_lease :: "error + bytes \<times> fd list"

definition resolve_for :: "kernel \<Rightarrow> request \<Rightarrow> resolved sys" where
  "resolve_for K req =
     (case operation req of
        Presence_of \<Rightarrow> Resolved_bind K (path req)
      | Read_lines _ _ \<Rightarrow> Resolved_bind K (path req)
      | Create _ \<Rightarrow> Resolved_resolve K (path req) True
      | _ \<Rightarrow> Resolved_resolve K (path req) False)"

definition perform :: "kernel \<Rightarrow> resolved \<Rightarrow> request \<Rightarrow> worker_value sys" where
  "perform K R req =
     (case operation req of
        Read_lines off limit \<Rightarrow>
          sbind (staged ''read acquisition'' (read_lines K R off limit)) (\<lambda>x. sreturn (Reading_Value x))
      | Presence_of \<Rightarrow>
          sbind (staged ''presence acquisition'' (presence K R)) (\<lambda>x. sreturn (Presence_Value x))
      | Observe \<Rightarrow>
          sbind (staged ''snapshot acquisition'' (capture K R)) (\<lambda>x. sreturn (Snapshot_Value x))
      | _ \<Rightarrow>
          sbind (staged ''transaction'' (transaction_run K R req)) (\<lambda>x. sreturn (Commit_Value x)))"

definition serve :: "kernel \<Rightarrow> (bytes \<Rightarrow> error + request) \<Rightarrow> worker_input \<Rightarrow> worker_value sys" where
  "serve K request_of input =
     sbind (scheck (in_marker input = Some ''1'')
              (PermissionDenied, ''native file worker needs a prepared channel'')) (\<lambda>_.
     sbind (staged ''request receive'' (slift (in_request input))) (\<lambda>bs.
     sbind (slift (request_of bs)) (\<lambda>req.
     sbind (slift (request_validate req)) (\<lambda>_.
     sbind (staged ''source binding'' (resolve_for K req)) (\<lambda>R.
     sbind (staged ''binding send'' (slift (in_sent input))) (\<lambda>_.
     sbind (staged ''lease receive''
              (sbind (slift (in_lease input)) (\<lambda>packet. receive_lease K (binding R) packet))) (\<lambda>lease.
     perform K R req)))))))"

text \<open>The reply the worker process prints (\<open>main.rs\<close>).\<close>

definition worker_reply :: "(worker_value \<Rightarrow> json) \<Rightarrow> error + worker_value \<Rightarrow> reply" where
  "worker_reply to_value r =
     (case r of Inr v \<Rightarrow> Reply_of (to_value v) | Inl why \<Rightarrow> Reply_refused (snd why))"

section \<open>The coordinator\<close>

definition REPLY_BYTES :: nat where
  "REPLY_BYTES = (EDIT_BYTES + RUNNING_MOST) * 6 + 8192"

text \<open>An error, and whether it carries the mark that the request was refused before any effect.\<close>

datatype coordinator_error = Rejected error | Plain error

text \<open>How preparing, spawning, handing over and waiting went.\<close>

record outcome =
  o_json :: "error + bytes"
  o_prepared :: "error + unit"
  o_pair :: "error + unit"
  o_spawned :: "error + unit"
  o_readers :: "error + unit"
  o_request :: "error + unit"
  o_binding :: "error + string"
  o_domain :: "error + unit"
  o_lease :: "error + unit"
  o_valid :: "error + unit"
  o_handoff :: "error + unit"
  o_output :: "error + bytes"
  o_waited :: "error + unit"
  o_exit :: "error + bool \<times> string"
  o_joined :: "error + bytes"
  o_restored :: "string list"

definition handover :: "outcome \<Rightarrow> error + string" where
  "handover out =
     rbind (o_request out) (\<lambda>_.
     rbind (o_binding out) (\<lambda>k.
     rbind (map_err (worker_stage ''registry provisioning'') (o_domain out)) (\<lambda>_.
     rbind (map_err (worker_stage ''lease acquisition'') (o_lease out)) (\<lambda>_.
     rbind (map_err (worker_stage ''registry validation'') (o_valid out)) (\<lambda>_.
     rbind (map_err (worker_stage ''lease handoff'') (o_handoff out)) (\<lambda>_.
     Inr k))))))"

definition got_key :: "outcome \<Rightarrow> bool" where
  "got_key out \<longleftrightarrow> is_ok (o_request out) \<and> is_ok (o_binding out)"

text \<open>The reader thread's answer, and what waiting for it gave.\<close>

definition reply_bytes :: "outcome \<Rightarrow> error + bytes" where
  "reply_bytes out =
     rbind (o_waited out) (\<lambda>_.
     rbind (o_output out) (\<lambda>all.
     let bs = take (REPLY_BYTES + 1) all in
     if length bs > REPLY_BYTES then Inl (other_error ''native file reply exceeded its bound'')
     else Inr bs))"

definition reply_fields_ok :: "reply \<Rightarrow> bool" where
  "reply_fields_ok r \<longleftrightarrow>
     rep_family r = FAMILY \<and> rep_n r = length (rep_result r)
     \<and> (if rep_ok r then rep_n r = 1 \<and> rep_error r = None \<and> rep_fault r = None
        else rep_n r = 0 \<and> rep_fault r = Some Refused
          \<and> (case rep_error r of None \<Rightarrow> False | Some e \<Rightarrow> e \<noteq> [] \<and> length e \<le> 4096))"

definition verified_reply ::
  "(bytes \<Rightarrow> error + json) \<Rightarrow> (json \<Rightarrow> error + reply) \<Rightarrow> bytes \<Rightarrow> error + reply" where
  "verified_reply parse reply_of bs =
     rbind (parse bs) (\<lambda>v.
     rbind (ensure (list_all (\<lambda>k. json_get k v \<noteq> None) [''ok'', ''family'', ''n'', ''result''])
              (other_error ''native worker reply is incomplete'')) (\<lambda>_.
     rbind (reply_of v) (\<lambda>r.
     rbind (ensure (reply_fields_ok r)
              (other_error ''native worker returned an incomplete or unsupported reply'')) (\<lambda>_.
     Inr r))))"

definition exchange ::
  "(bytes \<Rightarrow> error + json) \<Rightarrow> (json \<Rightarrow> error + reply) \<Rightarrow> request \<Rightarrow> outcome \<Rightarrow> coordinator_error + string \<times> json" where
  "exchange parse reply_of req out =
     rbind (map_err Plain (request_validate req)) (\<lambda>_.
     rbind (map_err Plain (o_json out)) (\<lambda>_.
     rbind (map_err (\<lambda>e. Rejected (worker_stage ''containment preparation'' e)) (o_prepared out)) (\<lambda>_.
     rbind (map_err Plain (o_pair out)) (\<lambda>_.
     rbind (map_err (\<lambda>e. Rejected (worker_stage ''worker spawn'' e)) (o_spawned out)) (\<lambda>_.
     rbind (map_err Plain (o_readers out)) (\<lambda>_.
     rbind (map_err Plain (reply_bytes out)) (\<lambda>bs.
     rbind (map_err Plain (o_exit out)) (\<lambda>(success, shown_status).
     rbind (map_err Plain (o_joined out)) (\<lambda>errs.
     rbind (ensure (o_restored out = []) (Plain (other_error ''native worker changed protected state''))) (\<lambda>_.
     rbind (ensure success (Plain (other_error (''native file worker exited '' @ shown_status @ '': ''
              @ from_utf8_lossy errs)))) (\<lambda>_.
     rbind (map_err Plain (verified_reply parse reply_of bs)) (\<lambda>r.
     if \<not> rep_ok r then
       Inl (Rejected (case (handover out, got_key out) of
         (Inl e, True) \<Rightarrow> e
       | _ \<Rightarrow> other_error (case rep_error r of Some e \<Rightarrow> e | None \<Rightarrow> ''native worker refused'')))
     else
       rbind (map_err Plain (handover out)) (\<lambda>k.
       rbind (ok_or (case rep_result r of [] \<Rightarrow> None | v # _ \<Rightarrow> Some v)
                (Plain (other_error ''native snapshot missing''))) (\<lambda>v.
       Inr (k, v)))))))))))))))"

text \<open>\<open>transaction::Failure\<close>.\<close>

datatype mutation_failure = Mutation_Refused error | Mutation_Unknown error

definition outcome_unknown :: "mutation_failure \<Rightarrow> bool" where
  "outcome_unknown f = (case f of Mutation_Unknown _ \<Rightarrow> True | Mutation_Refused _ \<Rightarrow> False)"

definition failure_text :: "mutation_failure \<Rightarrow> string" where
  "failure_text f =
     (case f of
        Mutation_Refused e \<Rightarrow> snd e
      | Mutation_Unknown e \<Rightarrow>
          ''native mutation outcome unknown; reread required, do not replay: '' @ snd e)"

definition classified :: "coordinator_error \<Rightarrow> mutation_failure" where
  "classified e = (case e of Rejected x \<Rightarrow> Mutation_Refused x | Plain x \<Rightarrow> Mutation_Unknown x)"

definition plain_error :: "coordinator_error \<Rightarrow> error" where
  "plain_error e = (case e of Rejected x \<Rightarrow> x | Plain x \<Rightarrow> x)"

text \<open>The operations that change nothing: \<open>Observe\<close>, \<open>Presence\<close> and \<open>Read\<close>.\<close>

fun looking :: "operation \<Rightarrow> bool" where
  "looking Observe = True"
| "looking Presence_of = True"
| "looking (Read_lines _ _) = True"
| "looking _ = False"

record readers =
  rd_parse :: "bytes \<Rightarrow> error + json"
  rd_reply :: "json \<Rightarrow> error + reply"
  rd_snapshot :: "json \<Rightarrow> error + snapshot"
  rd_presence :: "json \<Rightarrow> error + presence_report"
  rd_reading :: "json \<Rightarrow> error + reading"
  rd_commit :: "json \<Rightarrow> error + commit_report"
  rd_request :: "bytes \<Rightarrow> error + request"

definition worker_mutation :: "readers \<Rightarrow> request \<Rightarrow> outcome \<Rightarrow> mutation_failure + commit_report" where
  "worker_mutation V req out =
     rbind (map_err Mutation_Refused (request_validate req)) (\<lambda>_.
     rbind (ensure (\<not> looking (operation req))
              (Mutation_Refused (other_error ''transaction needs a mutation operation''))) (\<lambda>_.
     rbind (map_err classified (exchange (rd_parse V) (rd_reply V) req out)) (\<lambda>(k, v).
     rbind (map_err Mutation_Unknown (rd_commit V v)) (\<lambda>c.
     rbind (map_err Mutation_Unknown (commit_validate k req c)) (\<lambda>_.
     Inr c)))))"

definition mutation_input :: "readers \<Rightarrow> error + bytes \<Rightarrow> (request \<Rightarrow> outcome) \<Rightarrow> mutation_failure + commit_report" where
  "mutation_input V input run =
     rbind (map_err Mutation_Refused input) (\<lambda>all.
     let bs = take (frame_most + 1) all in
     rbind (ensure (length bs \<le> frame_most)
              (Mutation_Refused (other_error ''native request exceeds its bound''))) (\<lambda>_.
     rbind (map_err Mutation_Refused (rd_request V bs)) (\<lambda>req.
     worker_mutation V req (run req))))"

definition observe :: "readers \<Rightarrow> string \<Rightarrow> (request \<Rightarrow> outcome) \<Rightarrow> error + snapshot" where
  "observe V p run =
     (let req = \<lparr>path = p, operation = Observe, request_guard = None\<rparr> in
      rbind (map_err plain_error (exchange (rd_parse V) (rd_reply V) req (run req))) (\<lambda>(k, v).
      rbind (rd_snapshot V v) (\<lambda>s.
      rbind (snapshot_validate k s) (\<lambda>_. Inr s))))"

definition observe_presence :: "readers \<Rightarrow> string \<Rightarrow> (request \<Rightarrow> outcome) \<Rightarrow> error + presence_report" where
  "observe_presence V p run =
     (let req = \<lparr>path = p, operation = Presence_of, request_guard = None\<rparr> in
      rbind (map_err plain_error (exchange (rd_parse V) (rd_reply V) req (run req))) (\<lambda>(k, v).
      rbind (rd_presence V v) (\<lambda>x.
      rbind (presence_validate k x) (\<lambda>_. Inr x))))"

definition observe_lines :: "readers \<Rightarrow> string \<Rightarrow> nat \<Rightarrow> nat \<Rightarrow> (request \<Rightarrow> outcome) \<Rightarrow> error + reading" where
  "observe_lines V p off limit run =
     (let req = \<lparr>path = p, operation = Read_lines off limit, request_guard = None\<rparr> in
      rbind (map_err plain_error (exchange (rd_parse V) (rd_reply V) req (run req))) (\<lambda>(k, v).
      rbind (rd_reading V v) (\<lambda>x.
      rbind (reading_validate k off limit x) (\<lambda>_. Inr x))))"

text \<open>The reply of \<open>casper code --file-transaction\<close> (\<open>main.rs\<close>).\<close>

definition transact_reply :: "(commit_report \<Rightarrow> json) \<Rightarrow> mutation_failure + commit_report \<Rightarrow> reply" where
  "transact_reply to_value r =
     (case r of
        Inr c \<Rightarrow> Reply_of (to_value c)
      | Inl why \<Rightarrow> if outcome_unknown why then Reply_failed (failure_text why) else Reply_refused (failure_text why))"


section \<open>What a worker does to the target\<close>

lemma staged_issues [issues_intros]: "issues P m \<Longrightarrow> issues P (staged name m)"
  unfolding staged_def by (intro issues_intros)

lemma received_harmless [issues_intros]: "issues harmless (received K f)"
  unfolding received_def private_object_def cloexec_def sys_fstat_def
  by (intro issues_intros) (simp_all add: harmless_def)

lemma binding_validate_harmless [issues_intros]: "issues harmless (binding_validate K b)"
  unfolding binding_validate_def by (intro issues_intros)

lemma receive_lease_harmless [issues_intros]: "issues harmless (receive_lease K b m)"
  unfolding receive_lease_def sys_fstat_def by (intro issues_intros) (simp_all add: harmless_def)

lemma reads_of_harmless [issues_intros]: "issues harmless (reads_of K f)"
  by (simp add: issues_def reads_of_def harmless_def)

lemma read_lines_harmless [issues_intros]: "issues harmless (read_lines K R off limit)"
  unfolding read_lines_def read_target_def sys_fstat_def Let_def
  by (intro issues_intros) (simp_all add: harmless_def)

lemma resolve_for_harmless [issues_intros]: "issues harmless (resolve_for K req)"
  unfolding resolve_for_def by (cases "operation req") (simp_all add: issues_intros)

definition serve_front :: "kernel \<Rightarrow> worker_input \<Rightarrow> request \<Rightarrow> resolved sys" where
  "serve_front K input req =
     sbind (scheck (in_marker input = Some ''1'')
              (PermissionDenied, ''native file worker needs a prepared channel'')) (\<lambda>_.
     sbind (slift (request_validate req)) (\<lambda>_.
     sbind (staged ''source binding'' (resolve_for K req)) (\<lambda>R.
     sbind (staged ''binding send'' (slift (in_sent input))) (\<lambda>_.
     sbind (staged ''lease receive''
              (sbind (slift (in_lease input)) (\<lambda>packet. receive_lease K (binding R) packet))) (\<lambda>lease.
     sreturn R)))))"

lemma staged_lift [simp]: "sbind (staged name (slift (Inr a))) f = f a"
  by (rule ext) (simp add: staged_def sbind_def stry_def slift_def)

lemma slift_bind [simp]: "sbind (slift (Inr a)) f = f a"
  by (rule ext) (simp add: sbind_def slift_def)

lemma serve_split:
  assumes "in_request input = Inr bs" "request_of bs = Inr req"
  shows "serve K request_of input = sbind (serve_front K input req) (\<lambda>R. perform K R req)"
  unfolding serve_def serve_front_def by (simp add: assms sbind_assoc)

lemma serve_front_harmless: "issues harmless (serve_front K input req)"
  unfolding serve_front_def by (intro issues_intros)

lemma staged_ok [sys_ok]: "staged name m w = (Inr a, w') \<longleftrightarrow> m w = (Inr a, w')"
  by (auto simp: staged_def stry_def slift_def split: prod.splits)

lemma Resolved_bind_leaf: "Resolved_bind K p w = (Inr R, w') \<Longrightarrow> leaf R = snd (split_path p)"
  by (auto simp: Resolved_bind_def sys_ok split: prod.splits)

lemma Resolved_resolve_leaf: "Resolved_resolve K p c w = (Inr R, w') \<Longrightarrow> leaf R = snd (split_path p)"
  by (auto simp: Resolved_resolve_def sys_ok dest: Resolved_bind_leaf split: if_splits)

lemma serve_front_leaf: "serve_front K input req w = (Inr R, w') \<Longrightarrow> leaf R = snd (split_path (path req))"
  unfolding serve_front_def resolve_for_def
  by (auto simp: sys_ok dest: Resolved_bind_leaf Resolved_resolve_leaf split: operation.splits)

lemma perform_looking: "looking (operation req) \<Longrightarrow> issues harmless (perform K R req)"
  unfolding perform_def by (cases "operation req") (simp_all add: issues_intros)

lemma perform_mutating:
  assumes "\<not> looking (operation req)"
  shows "perform K R req = sbind (staged ''transaction'' (transaction_run K R req)) (\<lambda>x. sreturn (Commit_Value x))"
  using assms unfolding perform_def by (cases "operation req") simp_all

lemma perform_counts:
  assumes "\<not> looking (operation req)" "\<not> staging_name (leaf R)" "perform K R req w = (r, w')"
  obtains es where "history w' = history w @ es" "length (filter (commits_to R) es) = (if is_ok r then 1 else 0)"
    "\<And>v. r = Inr v \<Longrightarrow> \<exists>c. v = Commit_Value c"
proof -
  have "counts R 1 (transaction_run K R req)"
    unfolding transaction_run_def using assms(2) by (intro run_with_counts issues_return)
  moreover obtain x u where x: "transaction_run K R req w = (x, u)"
    by fastforce
  ultimately obtain es where "history u = history w @ es"
    "length (filter (commits_to R) es) = (if is_ok x then 1 else 0)"
    unfolding counts_def by blast
  moreover have "w' = u" "is_ok r = is_ok x" "r = Inr v \<Longrightarrow> \<exists>c. v = Commit_Value c" for v
    using assms(3) x unfolding perform_mutating [OF assms(1)]
    by (cases x; auto simp: sbind_def staged_def stry_def slift_def sreturn_def)+
  ultimately show ?thesis
    using that by metis
qed

text \<open>
  Whatever happens, a worker that is asked to look changes nothing, and one that is asked to change
  the target either stops before it touches anything or counts its commits as the transaction does.
\<close>

definition target_bound :: "request \<Rightarrow> nat \<Rightarrow> event list \<Rightarrow> bool" where
  "target_bound req n es \<longleftrightarrow>
     (\<exists>R. leaf R = snd (split_path (path req)) \<and> length (filter (commits_to R) es) = n)"

lemma filter_harmless: "list_all harmless es \<Longrightarrow> filter (commits_to R) es = []"
  by (auto simp: filter_empty_conv list_all_iff dest: harmless_quiet)

lemma serve_effects:
  assumes run: "serve K request_of input w = (r, w')"
    and req: "in_request input = Inr bs" "request_of bs = Inr req"
    and leaf: "\<not> staging_name (snd (split_path (path req)))"
  obtains es where "history w' = history w @ es" "looking (operation req) \<Longrightarrow> list_all harmless es"
    "\<not> looking (operation req) \<Longrightarrow> is_ok r \<Longrightarrow> target_bound req 1 es"
    "\<not> looking (operation req) \<Longrightarrow> \<not> is_ok r \<Longrightarrow> list_all harmless es \<or> target_bound req 0 es"
    "\<not> looking (operation req) \<Longrightarrow> is_ok r \<Longrightarrow> \<exists>c. r = Inr (Commit_Value c)"
proof -
  obtain x u where front: "serve_front K input req w = (x, u)"
    by fastforce
  obtain es1 where es1: "history u = history w @ es1" "list_all harmless es1"
    using serve_front_harmless front by (rule issuesD)
  show ?thesis
  proof (cases x)
    case (Inl e)
    then have "r = Inl e" "w' = u"
      using run front unfolding serve_split [where request_of = request_of, OF req] by (simp_all add: sbind_def)
    then show ?thesis
      using es1 that by simp
  next
    case (Inr R)
    then have act: "perform K R req u = (r, w')"
      using run front unfolding serve_split [where request_of = request_of, OF req] by (simp add: sbind_def)
    have R: "leaf R = snd (split_path (path req))"
      using serve_front_leaf front Inr by blast
    show ?thesis
    proof (cases "looking (operation req)")
      case True
      obtain es2 where "history w' = history u @ es2" "list_all harmless es2"
        using perform_looking [OF True] act by (rule issuesD)
      then show ?thesis
        using es1 True that [of "es1 @ es2"] by simp
    next
      case False
      obtain es2 where es2: "history w' = history u @ es2"
        "length (filter (commits_to R) es2) = (if is_ok r then 1 else 0)"
        "\<And>v. r = Inr v \<Longrightarrow> \<exists>c. v = Commit_Value c"
        using perform_counts [OF False _ act] leaf R by metis
      then have "target_bound req (if is_ok r then 1 else 0) (es1 @ es2)"
        unfolding target_bound_def using R filter_harmless [OF es1(2)] by auto
      then show ?thesis
        using es1 es2 False that [of "es1 @ es2"] by (cases r) auto
    qed
  qed
qed

text \<open>
  C16: a worker asked to observe, to test presence or to read issues no call that changes the file
  system, whatever the kernel answers and however the run ends.
\<close>

theorem worker_observation_reads_only:
  assumes "serve K request_of input w = (r, w')" "in_request input = Inr bs" "request_of bs = Inr req"
    and "looking (operation req)"
  shows "\<exists>es. history w' = history w @ es \<and> list_all harmless es"
proof -
  have "issues harmless (serve K request_of input)"
    unfolding serve_split [where request_of = request_of, OF assms(2,3)]
    by (intro issues_intros serve_front_harmless perform_looking assms(4))
  then show ?thesis
    using assms(1) by (metis issuesD)
qed

lemma first_of_list: "(case xs of [] \<Rightarrow> None | v # _ \<Rightarrow> Some v) = Some x \<longleftrightarrow> xs \<noteq> [] \<and> hd xs = x"
  by (cases xs) auto

lemma exchange_ok:
  "exchange parse reply_of req out = Inr (k, v) \<Longrightarrow>
     \<exists>bs r. reply_bytes out = Inr bs \<and> verified_reply parse reply_of bs = Inr r \<and> rep_ok r \<and> hd (rep_result r) = v"
  by (auto simp: exchange_def result_simps first_of_list split: if_splits prod.splits)

lemma exchange_rejected:
  assumes "exchange parse reply_of req out = Inl (Rejected e)" "o_prepared out = Inr ()" "o_spawned out = Inr ()"
  shows "\<exists>bs r. reply_bytes out = Inr bs \<and> verified_reply parse reply_of bs = Inr r \<and> \<not> rep_ok r"
  using assms
  by (auto simp: exchange_def result_simps map_err_def split: if_splits list.splits prod.splits sum.splits)

lemma printed_reply:
  assumes "o_output out = Inr printed" "length printed \<le> REPLY_BYTES"
    and "rd_parse V printed = Inr j" "rd_reply V j = Inr rep"
    and "reply_bytes out = Inr bs" "verified_reply (rd_parse V) (rd_reply V) bs = Inr r"
  shows "r = rep"
  using assms by (auto simp: reply_bytes_def verified_reply_def result_simps Let_def split: if_splits)


end
