(* ===== verification/Read_Broker.thy ===== *)
theory Read_Broker
  imports Tools File_Worker
begin

text \<open>
  The native read broker of the MCP client (\<open>mcp_client/read_broker.rs\<close>): the negotiated descriptor,
  the envelopes a server's read data travels in, the window that consumes each envelope at most once,
  and the two sides of acquiring the data.
\<close>

definition BROKER_LIMIT :: nat where "BROKER_LIMIT = 4000000"

record broker_descriptor =
  bd_version :: nat
  bd_operation :: string
  bd_root :: string

definition broker_descriptor_for :: "string \<Rightarrow> broker_descriptor" where
  "broker_descriptor_for root = \<lparr>bd_version = 1, bd_operation = ''read'', bd_root = root\<rparr>"

definition negotiated :: "(json \<Rightarrow> broker_descriptor option) \<Rightarrow> json option \<Rightarrow> string \<Rightarrow> string + bool" where
  "negotiated descriptor_of v root =
     (case v of
        None \<Rightarrow> Inr False
      | Some j \<Rightarrow>
          rbind (ok_or (descriptor_of j) ''invalid native read broker descriptor'') (\<lambda>d.
          rbind (ensure (bd_version d = 1 \<and> bd_operation d = ''read'' \<and> bd_root d = root)
                   ''unsupported native read broker version, operation or launch root'') (\<lambda>_.
          Inr True)))"

record broker_envelope =
  en_version :: nat
  en_sequence :: "64 word"
  en_root :: string
  en_tool :: string
  en_args :: json
  en_data :: read_data

definition Envelope_new :: "64 word \<Rightarrow> string \<Rightarrow> string \<Rightarrow> json \<Rightarrow> read_data \<Rightarrow> broker_envelope" where
  "Envelope_new n root tool args d =
     \<lparr>en_version = 1, en_sequence = n, en_root = root, en_tool = tool, en_args = args, en_data = d\<rparr>"

section \<open>The window\<close>

record consumed =
  co_high :: "64 word"
  co_seen :: "64 word set"

definition Consumed_default :: consumed where
  "Consumed_default = \<lparr>co_high = 0, co_seen = {}\<rparr>"

text \<open>\<open>high.saturating_sub(1024)\<close>.\<close>

definition window_floor :: "64 word \<Rightarrow> 64 word" where
  "window_floor high = (if high < 1024 then 0 else high - 1024)"

definition consumed_take ::
  "(json \<Rightarrow> string + read_args) \<Rightarrow> broker_envelope \<Rightarrow> string \<Rightarrow> string \<Rightarrow> json \<Rightarrow> consumed
     \<Rightarrow> (string + read_data) \<times> consumed" where
  "consumed_take args_of e root tool args c =
     (if en_version e \<noteq> 1 \<or> en_root e \<noteq> root \<or> en_tool e \<noteq> tool \<or> en_args e \<noteq> args
      then (Inl ''native read broker data does not match this call'', c)
      else case ReadArgs_parse args_of args of
        Inl why \<Rightarrow> (Inl why, c)
      | Inr _ \<Rightarrow>
          if en_sequence e = 0 \<or> en_sequence e \<le> window_floor (co_high c) \<or> en_sequence e \<in> co_seen c
          then (Inl ''native read broker sequence is stale or already consumed'', c)
          else
            let high = max (co_high c) (en_sequence e);
                seen = insert (en_sequence e) (co_seen c)
            in (Inr (en_data e), \<lparr>co_high = high, co_seen = {n \<in> seen. n > window_floor high}\<rparr>))"

text \<open>A sequence of envelopes, each for a call; the numbers taken so far.\<close>

record broker_offer =
  of_envelope :: broker_envelope
  of_root :: string
  of_tool :: string
  of_args :: json

fun broker_run ::
  "(json \<Rightarrow> string + read_args) \<Rightarrow> broker_offer list \<Rightarrow> consumed \<Rightarrow> 64 word list \<times> consumed" where
  "broker_run args_of [] c = ([], c)"
| "broker_run args_of (x # xs) c =
     (case consumed_take args_of (of_envelope x) (of_root x) (of_tool x) (of_args x) c of
        (Inr _, d) \<Rightarrow> (case broker_run args_of xs d of (ns, f) \<Rightarrow> (en_sequence (of_envelope x) # ns, f))
      | (Inl _, d) \<Rightarrow> broker_run args_of xs d)"

text \<open>The specification: a set of all numbers ever taken, and the highest.\<close>

definition window_inv :: "64 word set \<Rightarrow> consumed \<Rightarrow> bool" where
  "window_inv all c \<longleftrightarrow>
     0 \<notin> all \<and> (\<forall>n\<in>all. n \<le> co_high c) \<and> co_seen c = {n \<in> all. n > window_floor (co_high c)}"

lemma window_floor_mono: "a \<le> b \<Longrightarrow> window_floor a \<le> window_floor b"
proof -
  assume "a \<le> b"
  then show ?thesis
    by (auto simp: window_floor_def not_less word_le_nat_alt word_less_nat_alt unat_sub)
qed

lemma consumed_take_step:
  assumes "window_inv all c" "consumed_take args_of e root tool args c = (r, d)"
  shows "case r of
      Inr x \<Rightarrow> en_sequence e \<notin> all \<and> window_inv (insert (en_sequence e) all) d \<and> x = en_data e
        \<and> en_root e = root \<and> en_tool e = tool \<and> en_args e = args
    | Inl _ \<Rightarrow> d = c"
proof (cases r)
  case (Inl a)
  with assms(2) show ?thesis
    by (auto simp: consumed_take_def Let_def split: if_splits sum.splits)
next
  case (Inr x)
  let ?n = "en_sequence e" and ?high = "max (co_high c) (en_sequence e)"
  have ok: "?n \<noteq> 0" "\<not> ?n \<le> window_floor (co_high c)" "?n \<notin> co_seen c"
      "d = \<lparr>co_high = ?high, co_seen = {m \<in> insert ?n (co_seen c). m > window_floor ?high}\<rparr>"
      "x = en_data e" "en_root e = root" "en_tool e = tool" "en_args e = args"
    using assms(2) Inr by (auto simp: consumed_take_def Let_def split: if_splits sum.splits)
  have fresh: "?n \<notin> all"
    using assms(1) ok(2,3) by (auto simp: window_inv_def)
  have "window_floor (co_high c) \<le> window_floor ?high"
    by (intro window_floor_mono) simp
  then have "window_inv (insert ?n all) d"
    using assms(1) ok(1,4) by (auto simp: window_inv_def le_max_iff_disj)
  with fresh ok Inr show ?thesis
    by simp
qed

lemma broker_run_once:
  "window_inv all c \<Longrightarrow> broker_run args_of xs c = (ns, d) \<Longrightarrow>
     distinct ns \<and> set ns \<inter> all = {} \<and> window_inv (all \<union> set ns) d"
proof (induction xs arbitrary: all c ns)
  case (Cons x xs)
  obtain r e where r: "consumed_take args_of (of_envelope x) (of_root x) (of_tool x) (of_args x) c = (r, e)"
    by fastforce
  note step = consumed_take_step [OF Cons.prems(1) r]
  show ?case
  proof (cases r)
    case (Inl a)
    with step Cons r show ?thesis
      by auto
  next
    case (Inr a)
    let ?n = "en_sequence (of_envelope x)"
    obtain ms where ms: "broker_run args_of xs e = (ms, d)" "ns = ?n # ms"
      using Cons.prems(2) r Inr by (auto split: prod.splits)
    then have "distinct ms" "set ms \<inter> insert ?n all = {}" "window_inv (insert ?n all \<union> set ms) d"
      using Cons.IH [of "insert ?n all" e ms] step Inr by auto
    then show ?thesis
      using step Inr ms(2) by (auto simp: insert_commute)
  qed
qed simp

lemma window_card: "window_inv all c \<Longrightarrow> card (co_seen c) \<le> 1024"
proof -
  assume inv: "window_inv all c"
  have "unat ` co_seen c \<subseteq> {unat (window_floor (co_high c))<..unat (co_high c)}"
    using inv by (auto simp: window_inv_def word_less_nat_alt word_le_nat_alt)
  then have "card (unat ` co_seen c) \<le> card {unat (window_floor (co_high c))<..unat (co_high c)}"
    by (intro card_mono) simp_all
  also have "\<dots> \<le> 1024"
    by (auto simp: window_floor_def not_less word_le_nat_alt word_less_nat_alt unat_sub)
  finally show ?thesis
    by (simp add: card_image inj_on_def unsigned_word_eqI)
qed

lemma consumed_take_iff:
  assumes "window_inv all c"
  shows "fst (consumed_take args_of e root tool args c) = Inr x \<longleftrightarrow>
     x = en_data e \<and> en_version e = 1 \<and> en_root e = root \<and> en_tool e = tool \<and> en_args e = args
     \<and> is_ok (ReadArgs_parse args_of args) \<and> en_sequence e \<noteq> 0
     \<and> window_floor (co_high c) < en_sequence e \<and> en_sequence e \<notin> all"
  using assms by (auto simp: consumed_take_def window_inv_def is_ok_iff Let_def not_le split: sum.splits)

text \<open>
  C21: the data of one envelope is consumed at most once: whatever envelopes arrive for whatever calls
  and in whatever order, no sequence number is taken twice, an envelope that names another root, tool
  or arguments changes nothing, every number above the window that was not taken before is taken when
  its call is well-formed, and the window never remembers more than 1024 numbers.
\<close>

theorem broker_consumes_once:
  assumes "broker_run args_of xs Consumed_default = (ns, c)"
  shows "distinct ns \<and> 0 \<notin> set ns \<and> card (co_seen c) \<le> 1024
    \<and> (\<forall>e root tool args x.
         fst (consumed_take args_of e root tool args c) = Inr x \<longleftrightarrow>
           x = en_data e \<and> en_version e = 1 \<and> en_root e = root \<and> en_tool e = tool \<and> en_args e = args
           \<and> is_ok (ReadArgs_parse args_of args) \<and> en_sequence e \<noteq> 0
           \<and> window_floor (co_high c) < en_sequence e \<and> en_sequence e \<notin> set ns)"
proof -
  have "window_inv {} Consumed_default"
    by (simp add: window_inv_def Consumed_default_def)
  from broker_run_once [OF this assms] have run: "distinct ns" "window_inv (set ns) c"
    by simp_all
  then show ?thesis
    using window_card [OF run(2)] consumed_take_iff [OF run(2)] by (simp add: window_inv_def)
qed

definition demo_args_of :: "json \<Rightarrow> string + read_args" where
  "demo_args_of j = Inr \<lparr>ra_path = ''p'', ra_offset = None, ra_limit = None\<rparr>"

definition demo_offer :: "64 word \<Rightarrow> broker_offer" where
  "demo_offer n =
     \<lparr>of_envelope = Envelope_new n ''/r'' ''read'' JNull (Read_Image \<lparr>im_data = [], im_media_type = []\<rparr>),
      of_root = ''/r'', of_tool = ''read'', of_args = JNull\<rparr>"

theorem broker_consumes_once_witness:
  "\<exists>c. broker_run demo_args_of [demo_offer 2, demo_offer 1, demo_offer 2] Consumed_default = ([2, 1], c)
     \<and> card (co_seen c) \<le> 1024"
proof -
  have "fst (broker_run demo_args_of [demo_offer 2, demo_offer 1, demo_offer 2] Consumed_default) = [2, 1]"
    by (simp add: demo_offer_def Envelope_new_def consumed_take_def ReadArgs_parse_def demo_args_of_def Consumed_default_def
        window_floor_def Let_def max_def NUL_def)
  then obtain c where ran: "broker_run demo_args_of [demo_offer 2, demo_offer 1, demo_offer 2] Consumed_default = ([2, 1], c)"
    by (metis prod.collapse)
  with broker_consumes_once [OF this] show ?thesis
    by blast
qed

section \<open>Acquiring the data\<close>

text \<open>The worker side: \<open>jailed\<close>, the image a path holds, and the native read are what it finds.\<close>

record acquire_env =
  ae_parse :: "bytes \<Rightarrow> string + json"
  ae_args :: "json \<Rightarrow> string + read_args"
  ae_jailed :: bool
  ae_image :: "string \<Rightarrow> string + image option"
  ae_readers :: readers
  ae_run :: "request \<Rightarrow> outcome"
  ae_to_value :: "read_data \<Rightarrow> string + json"

definition acquire_input :: "acquire_env \<Rightarrow> string + bytes \<Rightarrow> string + json" where
  "acquire_input A input =
     rbind input (\<lambda>all.
     let bs = take (32 * 1024 + 1) all in
     rbind (ensure (length bs \<le> 32 * 1024) ''broker read arguments exceed their bound'') (\<lambda>_.
     rbind (ae_parse A bs) (\<lambda>v.
     rbind (ReadArgs_parse (ae_args A) v) (\<lambda>a.
     rbind (ensure (ae_jailed A) ''broker acquisition requires containment'') (\<lambda>_.
     rbind (ae_image A (ra_path a)) (\<lambda>found.
     rbind (case found of
              Some i \<Rightarrow> Inr (Read_Image i)
            | None \<Rightarrow>
                rbind (map_err snd (observe_lines (ae_readers A) (ra_path a) (args_offset a) (args_limit a) (ae_run A))) (\<lambda>r.
                Inr (Read_Text (presentation r)))) (\<lambda>d.
     ae_to_value A d)))))))"

text \<open>The client side: how starting the worker, writing to it, reading from it and waiting went.\<close>

record acquire_outcome =
  ao_prepared :: "string + unit"
  ao_spawned :: "string + unit"
  ao_written :: "string + unit"
  ao_output :: "string + bytes"
  ao_exit :: "string + bool"

definition broker_acquire ::
  "(json \<Rightarrow> string + read_args) \<Rightarrow> (bytes \<Rightarrow> string + reply) \<Rightarrow> (json \<Rightarrow> string + read_data)
     \<Rightarrow> json \<Rightarrow> acquire_outcome \<Rightarrow> string + read_data" where
  "broker_acquire args_of reply_of data_of args A =
     rbind (ReadArgs_parse args_of args) (\<lambda>_.
     rbind (ao_prepared A) (\<lambda>_.
     rbind (ao_spawned A) (\<lambda>_.
     rbind (ao_written A) (\<lambda>_.
     rbind (ao_output A) (\<lambda>all.
     let bs = take (BROKER_LIMIT + 1) all in
     rbind (ensure (length bs \<le> BROKER_LIMIT) ''broker read data exceeds the transport bound'') (\<lambda>_.
     rbind (ao_exit A) (\<lambda>success.
     rbind (ensure success ''broker acquisition failed'') (\<lambda>_.
     rbind (reply_of bs) (\<lambda>r.
     if \<not> rep_ok r
     then Inl (case rep_error r of Some e \<Rightarrow> e | None \<Rightarrow> ''broker acquisition refused'')
     else
       rbind (ensure (rep_family r = FAMILY \<and> rep_n r = 1 \<and> length (rep_result r) = 1
                      \<and> rep_error r = None \<and> rep_fault r = None)
                ''broker acquisition returned an invalid reply'') (\<lambda>_.
       rbind (ok_or (case rep_result r of [] \<Rightarrow> None | v # _ \<Rightarrow> Some v) ''broker read data missing'') (\<lambda>v.
       data_of v)))))))))))"

text \<open>
  What the worker side prints is what the client side takes: a text acquired natively passes the bounds
  the client's own check makes for the same arguments.
\<close>

lemma observe_lines_validated:
  "observe_lines V p off limit run = Inr r \<Longrightarrow> \<exists>k. reading_validate k off limit r = Inr ()"
  by (auto simp: observe_lines_def result_simps Let_def)

lemma acquired_text_accepted:
  assumes "acquire_input A input = Inr v" "ReadArgs_parse (ae_args A) j = Inr a"
    and "\<And>d. ae_to_value A d = Inr v \<Longrightarrow> d = Read_Text t"
    and "\<And>all. input = Inr all \<Longrightarrow> ae_parse A (take (32 * 1024 + 1) all) = Inr j"
  shows "\<exists>r k. t = presentation r \<and> reading_validate k (args_offset a) (args_limit a) r = Inr ()"
proof -
  obtain d where "ae_to_value A d = Inr v"
      "d = Read_Text t \<Longrightarrow> \<exists>r. t = presentation r \<and> observe_lines (ae_readers A) (ra_path a) (args_offset a) (args_limit a) (ae_run A) = Inr r"
    using assms(1,2,4) by (auto simp: acquire_input_def result_simps Let_def split: option.splits if_splits)
  then show ?thesis
    using assms(3) observe_lines_validated by blast
qed

end
