(* ===== verification/Setup.thy ===== *)
theory Setup
  imports Json_Value Text
begin

text \<open>
  Being configured (\<open>setup.rs\<close>): which settings are taken, which are in force, what a tool's flags say,
  and how a tool's output is cut to the size a coordinator allows.
\<close>

section \<open>Settings\<close>

datatype need_kind = Kind_Text | Kind_Number | Kind_Flag | Kind_Table

record need =
  need_name :: string
  need_kind :: need_kind
  need_required :: bool
  need_default :: "json option"

definition setup_needs :: "need list" where
  "setup_needs =
     [\<lparr>need_name = ''mcp_catalog'', need_kind = Kind_Table, need_required = False, need_default = None\<rparr>,
      \<lparr>need_name = ''mcp_discovery_errors'', need_kind = Kind_Table, need_required = False, need_default = None\<rparr>,
      \<lparr>need_name = ''mcp_servers'', need_kind = Kind_Table, need_required = False, need_default = None\<rparr>,
      \<lparr>need_name = ''web'', need_kind = Kind_Table, need_required = False, need_default = None\<rparr>,
      \<lparr>need_name = ''tools'', need_kind = Kind_Table, need_required = False, need_default = None\<rparr>,
      \<lparr>need_name = ''load'', need_kind = Kind_Text, need_required = False, need_default = None\<rparr>,
      \<lparr>need_name = ''output_bytes'', need_kind = Kind_Number, need_required = False,
       need_default = Some (JNumber (PosInt 262144))\<rparr>]"

record applied =
  ap_set :: "string list"
  ap_refused :: "(string \<times> string) list"

definition NO_SETTING :: string where
  "NO_SETTING = ''casper takes no setting by that name; `needs` lists what it takes''"

definition apply_setting :: "string \<times> json \<Rightarrow> applied \<times> (string \<times> json) list \<Rightarrow> applied \<times> (string \<times> json) list" where
  "apply_setting nv st =
     (let (name, v) = nv; (a, kept) = st in
      if name \<in> set (map need_name setup_needs)
      then (a\<lparr>ap_set := ap_set a @ [name]\<rparr>, kept @ [(name, v)])
      else (a\<lparr>ap_refused := ap_refused a @ [(name, NO_SETTING)]\<rparr>, kept))"

text \<open>\<open>TOLD\<close> is set once; a second configuration reports what it would have set and changes nothing.\<close>

definition setup_apply :: "(string \<times> json) list \<Rightarrow> json option \<Rightarrow> applied \<times> json option" where
  "setup_apply settings told_before =
     (let (a, kept) = fold apply_setting settings (\<lparr>ap_set = [], ap_refused = []\<rparr>, [])
      in (a, case told_before of None \<Rightarrow> Some (JObject kept) | Some t \<Rightarrow> Some t))"

text \<open>\<open>from_env\<close> is \<open>CASPER_CONFIGURE\<close> as far as it is there and reads as JSON.\<close>

definition in_force :: "json option \<Rightarrow> json option \<Rightarrow> json" where
  "in_force told_before from_env =
     (case told_before of Some t \<Rightarrow> t | None \<Rightarrow> (case from_env of Some v \<Rightarrow> v | None \<Rightarrow> JObject []))"

definition told :: "json \<Rightarrow> string \<Rightarrow> json option" where
  "told settings name = json_get name settings"

definition tool_flag :: "json \<Rightarrow> string \<Rightarrow> string \<Rightarrow> bool" where
  "tool_flag settings tool which \<longleftrightarrow>
     Option.bind (told settings ''tools'') (\<lambda>ts. Option.bind (json_get tool ts) (json_get which)) = Some (JBool True)"

definition is_off :: "json \<Rightarrow> string \<Rightarrow> bool" where
  "is_off settings tool = tool_flag settings tool ''off''"

definition is_hidden :: "json \<Rightarrow> string \<Rightarrow> bool" where
  "is_hidden settings tool = tool_flag settings tool ''hidden''"

definition DEFAULT_OUTPUT :: nat where "DEFAULT_OUTPUT = 262144"

definition output_bytes :: "json \<Rightarrow> nat" where
  "output_bytes settings =
     (case Option.bind (told settings ''output_bytes'') as_u64 of
        Some n \<Rightarrow> if unat n > 0 then unat n else DEFAULT_OUTPUT
      | None \<Rightarrow> DEFAULT_OUTPUT)"

section \<open>Cutting a text\<close>

definition is_char_boundary :: "string \<Rightarrow> nat \<Rightarrow> bool" where
  "is_char_boundary s at \<longleftrightarrow> at = 0 \<or> at = length s \<or> at < length s \<and> \<not> continuation (s ! at)"

fun floor_from :: "string \<Rightarrow> nat \<Rightarrow> nat" where
  "floor_from s 0 = 0"
| "floor_from s (Suc at) = (if is_char_boundary s (Suc at) then Suc at else floor_from s at)"

definition floor_char_boundary :: "string \<Rightarrow> nat \<Rightarrow> nat" where
  "floor_char_boundary s at = floor_from s (min at (length s))"

function ceil_from :: "string \<Rightarrow> nat \<Rightarrow> nat" where
  "ceil_from s at = (if at < length s \<and> \<not> is_char_boundary s at then ceil_from s (at + 1) else at)"
  by pat_completeness auto
termination
  by (relation "measure (\<lambda>(s, at). length s - at)") auto

declare ceil_from.simps [simp del]

definition ceil_char_boundary :: "string \<Rightarrow> nat \<Rightarrow> nat" where
  "ceil_char_boundary s at = ceil_from s (min at (length s))"

definition ellipsis :: string where
  "ellipsis = [CHR 0xE2, CHR 0x80, CHR 0xA6]"

definition cut_note :: "nat \<Rightarrow> nat \<Rightarrow> string" where
  "cut_note dropped whole =
     [newline] @ ellipsis @ '' '' @ dec_text dropped @ '' bytes dropped, of '' @ dec_text whole @ '' '' @ ellipsis @ [newline]"

definition bounded :: "nat \<Rightarrow> string \<Rightarrow> string" where
  "bounded cap s =
     (if length s \<le> cap then s
      else let half = cap div 2;
               head = floor_char_boundary s half;
               tail = ceil_char_boundary s (length s - (cap - half))
           in take head s @ cut_note (tail - head) (length s) @ drop tail s)"

section \<open>A cut text is a text\<close>

lemma tail_bytes_continuation:
  "tail_bytes n k bs = Whole m \<Longrightarrow> i < n \<Longrightarrow> continuation (bs ! i)"
proof (induction n k bs arbitrary: i rule: tail_bytes.induct)
  case (3 n k b bs)
  then show ?case
    by (cases i) (auto split: if_splits)
qed auto

lemma is_char_continuation:
  assumes "is_char c" "0 < i" "i < length c"
  shows "continuation (c ! i)"
proof -
  obtain a as where c: "c = a # as" "utf8_head a as = Whole (Suc (length as))"
    using assms(1) by (cases c) (auto simp: is_char_def)
  then obtain b bs where as: "as = b # bs"
    using assms(2,3) by (cases as) auto
  have second: "continuation b"
    using c(2) as by (auto simp: utf8_head_def after_second_def second3_def second4_def continuation_def split: if_splits)
  have rest: "continuation (bs ! j)" if "j < length bs" for j
  proof -
    have "\<exists>n. tail_bytes n 2 bs = Whole (Suc (Suc (length bs)))"
      using c(2) as unfolding utf8_head_def after_second_def by (auto split: if_splits simp del: tail_bytes.simps)
    then obtain n where "tail_bytes n 2 bs = Whole (Suc (Suc (length bs)))" by blast
    then show ?thesis
      using that tail_bytes_size(1) [of n 2 bs] tail_bytes_continuation [of n 2 bs _ j] by auto
  qed
  show ?thesis
    using assms(2,3) c(1) as second rest by (cases i; cases "i - 1") auto
qed

lemma is_char_length: "is_char c \<Longrightarrow> length c \<le> 4"
proof -
  assume "is_char c"
  then obtain a as where "c = a # as" "utf8_head a as = Whole (Suc (length as))"
    by (cases c) (auto simp: is_char_def)
  then show ?thesis
    by (auto simp: utf8_head_def after_second_def dest!: tail_bytes_size split: if_splits list.splits)
qed

lemma char_first: "is_char c \<Longrightarrow> \<not> continuation (hd c)"
  by (cases c) (auto simp: is_char_def utf8_head_def continuation_def split: if_splits)

text \<open>Where a position inside a text lies among its characters.\<close>

lemma position_in_chars:
  "list_all is_char cs \<Longrightarrow> at < length (concat cs) \<Longrightarrow>
     \<exists>as c bs. cs = as @ c # bs \<and> length (concat as) \<le> at \<and> at < length (concat as) + length c"
proof (induction cs arbitrary: at)
  case (Cons c cs)
  show ?case
  proof (cases "at < length c")
    case True
    then have "c # cs = [] @ c # cs \<and> length (concat []) \<le> at \<and> at < length (concat []) + length c"
      by simp
    then show ?thesis by blast
  next
    case False
    then obtain as d bs where "cs = as @ d # bs" "length (concat as) \<le> at - length c"
        "at - length c < length (concat as) + length d"
      using Cons.IH [of "at - length c"] Cons.prems by fastforce
    then have "c # cs = (c # as) @ d # bs \<and> length (concat (c # as)) \<le> at
        \<and> at < length (concat (c # as)) + length d"
      using False by auto
    then show ?thesis by blast
  qed
qed simp

lemma boundary_split:
  assumes "from_utf8 s" "is_char_boundary s at"
  shows "from_utf8 (take at s) \<and> from_utf8 (drop at s)"
proof (cases "at < length s")
  case True
  have cs: "list_all is_char (chars s)" "concat (chars s) = s"
    using assms(1) by (simp_all add: chars_is_char concat_chars)
  then obtain as c bs where p: "chars s = as @ c # bs" "length (concat as) \<le> at" "at < length (concat as) + length c"
    using position_in_chars [of "chars s" at] True by auto
  have s: "s = concat as @ c @ concat bs"
    using cs(2) p(1) by auto
  have "at = length (concat as)"
  proof (rule ccontr)
    assume "at \<noteq> length (concat as)"
    then have "continuation (c ! (at - length (concat as)))"
      using cs(1) p by (intro is_char_continuation) auto
    moreover have "s ! at = c ! (at - length (concat as))"
    proof -
      have "s ! at = (c @ concat bs) ! (at - length (concat as))"
        using s p(2) by (metis nth_append not_le)
      then show ?thesis
        using p(2,3) by (simp add: nth_append) linarith
    qed
    ultimately show False
      using assms(2) True p \<open>at \<noteq> length (concat as)\<close> by (auto simp: is_char_boundary_def)
  qed
  then show ?thesis
    using cs(1) p(1) s from_utf8_chars [of as] from_utf8_chars [of "c # bs"] by simp
qed (use assms in \<open>auto simp: is_char_boundary_def from_utf8_def\<close>)

lemma floor_from_props:
  "is_char_boundary s (floor_from s at) \<and> floor_from s at \<le> at
     \<and> (\<forall>k. k \<le> at \<longrightarrow> is_char_boundary s k \<longrightarrow> k \<le> floor_from s at)"
  by (induction s at rule: floor_from.induct) (auto simp: is_char_boundary_def le_Suc_eq)

lemma ceil_from_props:
  "at \<le> length s \<Longrightarrow> is_char_boundary s (ceil_from s at) \<and> at \<le> ceil_from s at \<and> ceil_from s at \<le> length s
     \<and> (\<forall>k. at \<le> k \<longrightarrow> is_char_boundary s k \<longrightarrow> ceil_from s at \<le> k)"
proof (induction s at rule: ceil_from.induct)
  case (1 s at)
  show ?case
  proof (cases "at < length s \<and> \<not> is_char_boundary s at")
    case True
    then have step: "ceil_from s at = ceil_from s (at + 1)"
      by (subst ceil_from.simps) simp
    have "at + 1 \<le> k" if "is_char_boundary s k" "at \<le> k" for k
      using that True by (cases "k = at") auto
    with 1 True show ?thesis
      unfolding step by (auto dest: Suc_leD)
  next
    case False
    then have "ceil_from s at = at"
      by (subst ceil_from.simps) (simp only: if_False)
    with 1 False show ?thesis
      by (auto simp: is_char_boundary_def)
  qed
qed

text \<open>No four positions in a row lie inside characters.\<close>

lemma boundary_near:
  assumes "from_utf8 s" "at \<le> length s"
  shows "\<exists>k j. is_char_boundary s k \<and> k \<le> at \<and> at \<le> k + 3 \<and> is_char_boundary s j \<and> at \<le> j \<and> j \<le> at + 3"
proof (cases "at < length s")
  case True
  have cs: "list_all is_char (chars s)" "concat (chars s) = s"
    using assms(1) by (simp_all add: chars_is_char concat_chars)
  then obtain as c bs where p: "chars s = as @ c # bs" "length (concat as) \<le> at" "at < length (concat as) + length c"
    using position_in_chars [of "chars s" at] True by auto
  have s: "s = concat as @ c @ concat bs"
    using cs(2) p(1) by auto
  have chars_ok: "is_char c" "list_all is_char bs"
    using cs(1) p(1) by auto
  have len: "length c \<le> 4" "c \<noteq> []"
    using chars_ok(1) is_char_length by (auto simp: is_char_def)
  have start: "is_char_boundary s (length (concat as))"
    using char_first [OF chars_ok(1)] s len by (auto simp: is_char_boundary_def nth_append hd_conv_nth)
  have "is_char_boundary s (length (concat as) + length c)"
  proof (cases bs)
    case Nil
    then show ?thesis using s by (simp add: is_char_boundary_def)
  next
    case (Cons d ds)
    then have "\<not> continuation (hd d)" "d \<noteq> []"
      using chars_ok(2) char_first by (auto simp: is_char_def)
    then show ?thesis
      using s Cons by (auto simp: is_char_boundary_def nth_append hd_conv_nth)
  qed
  moreover have "at = length (concat as) \<or> length (concat as) + length c \<le> at + 3"
    using p(2,3) len(1) by linarith
  ultimately consider "is_char_boundary s at"
    | "is_char_boundary s (length (concat as) + length c)" "length (concat as) + length c \<le> at + 3"
    using start by auto
  then show ?thesis
  proof cases
    case 1
    then show ?thesis by (intro exI [of _ at]) simp
  next
    case 2
    then show ?thesis
      using start p(2,3) len(1)
      by (intro exI [of _ "length (concat as)"] exI [of _ "length (concat as) + length c"]) auto
  qed
next
  case False
  with assms(2) have "is_char_boundary s at"
    by (simp add: is_char_boundary_def)
  then show ?thesis
    by (intro exI [of _ at]) simp
qed

lemma floor_char_boundary_props:
  assumes "from_utf8 s" "at \<le> length s"
  shows "is_char_boundary s (floor_char_boundary s at)" "floor_char_boundary s at \<le> at" "at \<le> floor_char_boundary s at + 3"
  using floor_from_props [of s at] boundary_near [OF assms] assms(2)
  by (auto simp: floor_char_boundary_def min_def)

lemma ceil_char_boundary_props:
  assumes "from_utf8 s" "at \<le> length s"
  shows "is_char_boundary s (ceil_char_boundary s at)" "at \<le> ceil_char_boundary s at"
    "ceil_char_boundary s at \<le> at + 3" "ceil_char_boundary s at \<le> length s"
  using ceil_from_props [OF assms(2)] boundary_near [OF assms] assms(2)
  by (auto simp: ceil_char_boundary_def min_def intro: le_trans)

lemma from_utf8_dec_text: "from_utf8 (dec_text n)"
proof (induction n rule: dec_text.induct)
  case (1 n)
  show ?case
  proof (cases "n < 10")
    case True
    then show ?thesis
      by (subst dec_text.simps) (simp add: from_utf8_ascii)
  next
    case False
    then have "from_utf8 (dec_text (n div 10))"
      using 1 by simp
    moreover have "from_utf8 [char_of (48 + n mod 10)]"
      by (rule from_utf8_ascii) simp
    ultimately show ?thesis
      using False by (subst dec_text.simps) (simp add: from_utf8_append)
  qed
qed

lemma from_utf8_cut_note: "from_utf8 (cut_note d n)"
proof -
  have "from_utf8 [newline]" "from_utf8 ellipsis" "from_utf8 '' ''" "from_utf8 '' bytes dropped, of ''"
    by (simp_all add: from_utf8_ascii code_newline)
      (simp_all add: from_utf8_def ellipsis_def utf8_error.simps utf8_head_def after_second_def second3_def
        continuation_def code_def)
  then show ?thesis
    unfolding cut_note_def by (simp only: from_utf8_append from_utf8_dec_text append_Nil2)
qed

text \<open>
  C24: what a model reads of a tool's output is the output itself when it fits, and otherwise a
  beginning and an end of it, cut between characters, of at most the allowed size together and at most
  six bytes less, around a note that states exactly how many bytes of how many are missing; a text
  stays a text.
\<close>

theorem bounded_exact:
  assumes "from_utf8 s"
  shows "from_utf8 (bounded cap s)
    \<and> (length s \<le> cap \<longrightarrow> bounded cap s = s)
    \<and> (cap < length s \<longrightarrow> (\<exists>h t. h \<le> t \<and> t \<le> length s \<and> h + (length s - t) \<le> cap \<and> cap \<le> h + (length s - t) + 6
         \<and> from_utf8 (take h s) \<and> from_utf8 (drop t s)
         \<and> bounded cap s = take h s @ cut_note (t - h) (length s) @ drop t s))"
proof (cases "length s \<le> cap")
  case True
  then show ?thesis
    using assms by (simp add: bounded_def)
next
  case False
  define h where "h = floor_char_boundary s (cap div 2)"
  define t where "t = ceil_char_boundary s (length s - (cap - cap div 2))"
  have h: "is_char_boundary s h" "h \<le> cap div 2" "cap div 2 \<le> h + 3"
    using floor_char_boundary_props [OF assms, of "cap div 2"] False by (auto simp: h_def)
  have t: "is_char_boundary s t" "length s - (cap - cap div 2) \<le> t" "t \<le> length s - (cap - cap div 2) + 3" "t \<le> length s"
    using ceil_char_boundary_props [OF assms, of "length s - (cap - cap div 2)"] False by (auto simp: t_def)
  have cut: "bounded cap s = take h s @ cut_note (t - h) (length s) @ drop t s"
    using False by (simp add: bounded_def h_def t_def Let_def)
  have texts: "from_utf8 (take h s)" "from_utf8 (drop t s)"
    using boundary_split [OF assms h(1)] boundary_split [OF assms t(1)] by auto
  have "from_utf8 (bounded cap s)"
    unfolding cut using texts by (simp add: from_utf8_append from_utf8_cut_note)
  moreover have "h \<le> t" "h + (length s - t) \<le> cap" "cap \<le> h + (length s - t) + 6"
    using h(2,3) t(2,3,4) False by linarith+
  ultimately show ?thesis
    using cut texts t(4) False by (intro conjI impI exI [of _ h] exI [of _ t]) simp_all
qed

theorem bounded_exact_witness:
  "from_utf8 (bounded 4 ''abcdefgh'')
   \<and> (\<exists>h t. h + (length ''abcdefgh'' - t) \<le> 4
        \<and> bounded 4 ''abcdefgh'' = take h ''abcdefgh'' @ cut_note (t - h) (length ''abcdefgh'') @ drop t ''abcdefgh'')"
proof -
  have "from_utf8 ''abcdefgh''" and long: "4 < length ''abcdefgh''"
    by (simp_all add: from_utf8_def utf8_error.simps utf8_head_def code_def)
  from bounded_exact [OF this(1), of 4] long show ?thesis
    by blast
qed

end
