(* ===== verification/Event_Schema.thy ===== *)
theory Event_Schema
  imports Json_Value
begin

unbundle bit_operations_syntax

text \<open>
  The events casper reports about itself: opaque identities and their text, correlations, the lineage
  a process is bound to (\<open>events/schema.rs\<close>, \<open>events/lineage.rs\<close>), and how a request from the parent
  process gives the work it starts a lineage of its own (\<open>events/requests.rs\<close>).
\<close>

section \<open>Identities\<close>

type_synonym event_id = bytes

definition BAD_ID :: string where
  "BAD_ID = ''invalid opaque event identity''"

definition id_digit :: "byte \<Rightarrow> 8 word" where
  "id_digit b = (if code b \<le> 57 then of_nat (code b) - 48 else of_nat (code b) - 97 + 10)"

definition id_pair :: "byte \<Rightarrow> byte \<Rightarrow> byte" where
  "id_pair high low = char_of (unat (push_bit 4 (id_digit high) OR id_digit low))"

fun id_pairs :: "bytes \<Rightarrow> bytes" where
  "id_pairs (high # low # rest) = id_pair high low # id_pairs rest"
| "id_pairs _ = []"

definition Id_try_from :: "string \<Rightarrow> string + event_id" where
  "Id_try_from v =
     rbind (ensure (length v = 32 \<and> list_all lower_hex v) BAD_ID) (\<lambda>_. Inr (id_pairs v))"

text \<open>\<open>{byte:02x}\<close>.\<close>

definition hex2 :: "byte \<Rightarrow> string" where
  "hex2 b = [hex_digit (code b div 16), hex_digit (code b mod 16)]"

definition Id_text :: "event_id \<Rightarrow> string" where
  "Id_text i = concat (map hex2 i)"

definition Id_local :: "(bytes \<Rightarrow> bytes) \<Rightarrow> event_id \<Rightarrow> nat \<Rightarrow> event_id" where
  "Id_local sha256 producer counter =
     take 16 (sha256 (''casper-local-event-identity-v1'' @ producer @ to_be_bytes 8 counter))"

lemma hex_digit_cases: "lower_hex b \<Longrightarrow> \<exists>d<16. b = hex_digit d"
proof -
  assume "lower_hex b"
  then consider "48 \<le> code b" "code b \<le> 57" | "97 \<le> code b" "code b \<le> 102"
    by (auto simp: lower_hex_def is_ascii_digit_def)
  then show ?thesis
  proof cases
    case 1
    then show ?thesis
      by (intro exI [of _ "code b - 48"]) (simp add: hex_digit_def flip: code_inject)
  next
    case 2
    then show ?thesis
      by (intro exI [of _ "code b - 87"]) (auto simp: hex_digit_def simp flip: code_inject)
  qed
qed

lemma code_hex_digit: "d < 16 \<Longrightarrow> code (hex_digit d) = (if d < 10 then 48 + d else 87 + d)"
  by (simp add: hex_digit_def)

lemma id_digit_hex: "d < 16 \<Longrightarrow> id_digit (hex_digit d) = of_nat d"
  by (simp add: id_digit_def code_hex_digit algebra_simps)

lemma nibbles_or:
  assumes "d < 16" "e < 16"
  shows "unat (push_bit 4 (of_nat d) OR of_nat e :: 8 word) = 16 * d + e"
proof -
  have e: "e = take_bit 4 e"
    using assms(2) by (simp add: take_bit_eq_mod)
  have "\<not> bit (push_bit 4 d) n \<or> \<not> bit e n" for n
    by (subst e) (auto simp: bit_simps)
  then have "push_bit 4 d OR e = 16 * d + e"
    by (simp add: disjunctive_add [symmetric] push_bit_eq_mult)
  moreover have "push_bit 4 (of_nat d :: 8 word) OR of_nat e = of_nat (push_bit 4 d OR e)"
    by (simp add: of_nat_or_eq push_bit_of_nat)
  ultimately have "push_bit 4 (of_nat d :: 8 word) OR of_nat e = of_nat (16 * d + e)"
    by (simp only:)
  moreover have "unat (of_nat (16 * d + e) :: 8 word) = 16 * d + e"
    using assms by (simp only: unat_of_nat) simp
  ultimately show ?thesis
    by (simp only:)
qed

lemma id_pair_hex: "d < 16 \<Longrightarrow> e < 16 \<Longrightarrow> id_pair (hex_digit d) (hex_digit e) = char_of (16 * d + e)"
  by (simp add: id_pair_def id_digit_hex nibbles_or)

lemma id_pair_hex2: "id_pair (hex_digit (code b div 16)) (hex_digit (code b mod 16)) = b"
proof -
  have "code b div 16 < 16"
    using code_less [of b] by linarith
  then show ?thesis
    by (simp add: id_pair_hex)
qed

lemma hex2_pair: "lower_hex h \<Longrightarrow> lower_hex l \<Longrightarrow> hex2 (id_pair h l) = [h, l]"
  by (auto dest!: hex_digit_cases simp: hex2_def id_pair_hex)

lemma id_pairs_text: "id_pairs (Id_text i) = i"
  by (induction i) (simp_all add: Id_text_def hex2_def id_pair_hex2)

lemma text_id_pairs: "even (length v) \<Longrightarrow> list_all lower_hex v \<Longrightarrow> Id_text (id_pairs v) = v"
  by (induction v rule: id_pairs.induct) (auto simp: Id_text_def hex2_pair)

lemma length_id_pairs: "length (id_pairs v) = length v div 2"
  by (induction v rule: id_pairs.induct) auto

lemma Id_text_lower: "list_all lower_hex (Id_text i)"
proof (induction i)
  case (Cons b i)
  have "code b div 16 < 16"
    using code_less [of b] by linarith
  then show ?case
    using Cons by (simp add: Id_text_def hex2_def lower_hex_digit)
qed (simp add: Id_text_def)

lemma length_Id_text: "length (Id_text i) = 2 * length i"
  by (induction i) (simp_all add: Id_text_def hex2_def)

interpretation event_id_wire: wire_format Id_text Id_try_from "\<lambda>i. length i = 16"
proof unfold_locales
  show "Id_try_from (Id_text a) = Inr a" if "length a = 16" for a
    using that by (simp add: Id_try_from_def length_Id_text Id_text_lower id_pairs_text)
next
  show "length a = 16 \<and> bs = Id_text a" if "Id_try_from bs = Inr a" for bs a
    using that by (auto simp: Id_try_from_def result_simps length_id_pairs text_id_pairs split: if_splits)
qed

text \<open>
  the text of an event identity is exactly the 32 lowercase hexadecimal digits of its sixteen
  bytes: that text decodes to the identity and no other text does.
\<close>

theorem event_identity_exact: "Id_try_from v = Inr i \<longleftrightarrow> length i = 16 \<and> v = Id_text i"
  by (rule event_id_wire.decode_iff)


section \<open>Correlations and lineage\<close>

record correlation =
  run_id :: "event_id option"
  agent_id :: "event_id option"
  turn_id :: "event_id option"
  request_id :: "event_id option"
  ask_id :: "event_id option"
  attempt_id :: "event_id option"
  job_id :: "event_id option"
  tool_call_id :: "event_id option"

definition Correlation_default :: correlation where
  "Correlation_default =
     \<lparr>run_id = None, agent_id = None, turn_id = None, request_id = None, ask_id = None,
      attempt_id = None, job_id = None, tool_call_id = None\<rparr>"

record lineage =
  lin_run :: "event_id option"
  lin_agent :: "event_id option"
  lin_turn :: "event_id option"
  lin_ask :: "event_id option"

definition Lineage_default :: lineage where
  "Lineage_default = \<lparr>lin_run = None, lin_agent = None, lin_turn = None, lin_ask = None\<rparr>"

definition Lineage_root :: "event_id \<Rightarrow> event_id \<Rightarrow> lineage" where
  "Lineage_root run agent = Lineage_default\<lparr>lin_run := Some run, lin_agent := Some agent\<rparr>"

definition lineage_valid :: "lineage \<Rightarrow> bool" where
  "lineage_valid l =
     (case (lin_run l, lin_agent l) of
        (Some _, Some _) \<Rightarrow> True
      | (None, None) \<Rightarrow> lin_turn l = None \<and> lin_ask l = None
      | _ \<Rightarrow> False)"

text \<open>\<open>Option::or\<close>.\<close>

definition opt_or :: "'a option \<Rightarrow> 'a option \<Rightarrow> 'a option" where
  "opt_or a b = (case a of None \<Rightarrow> b | Some _ \<Rightarrow> a)"

definition lineage_apply :: "lineage \<Rightarrow> correlation \<Rightarrow> correlation" where
  "lineage_apply l c =
     c\<lparr>run_id := opt_or (lin_run l) (run_id c), agent_id := opt_or (lin_agent l) (agent_id c),
       turn_id := opt_or (lin_turn l) (turn_id c), ask_id := opt_or (lin_ask l) (ask_id c)\<rparr>"

definition lineage_accepts :: "lineage \<Rightarrow> correlation \<Rightarrow> bool" where
  "lineage_accepts l c =
     list_all (\<lambda>(bound, actual). bound = None \<or> bound = actual)
       [(lin_run l, run_id c), (lin_agent l, agent_id c), (lin_turn l, turn_id c), (lin_ask l, ask_id c)]"

lemma opt_or_simps [simp]:
  "opt_or None b = b" "opt_or (Some a) b = Some a" "opt_or b None = b"
  by (simp_all add: opt_or_def split: option.splits)

lemma lineage_accepts_apply: "lineage_accepts l (lineage_apply l c)"
  by (auto simp: lineage_accepts_def lineage_apply_def opt_or_def split: option.splits)

text \<open>Applying an inner lineage that extends the outer one never leaves the outer.\<close>

definition extends :: "lineage \<Rightarrow> lineage \<Rightarrow> bool" where
  "extends inner outer \<longleftrightarrow>
     list_all (\<lambda>(out, inn). out = None \<or> out = inn)
       [(lin_run outer, lin_run inner), (lin_agent outer, lin_agent inner),
        (lin_turn outer, lin_turn inner), (lin_ask outer, lin_ask inner)]"

lemma accepts_extends: "extends inner outer \<Longrightarrow> lineage_accepts outer (lineage_apply inner c)"
  by (auto simp: extends_def lineage_accepts_def lineage_apply_def opt_or_def split: option.splits)

section \<open>Writers with a bound\<close>

text \<open>
  \<open>serde_json::to_writer\<close> prints a value with one \<open>write_all\<close> per piece; \<open>Count\<close> of \<open>events/requests.rs\<close>
  only counts and refuses past 256 bytes, \<open>Encoded\<close> of \<open>events/mod.rs\<close> keeps the bytes and refuses what
  does not fit into 4096.
\<close>

definition U64_MAX :: nat where "U64_MAX = 2 ^ 64 - 1"

definition REQUEST_MOST :: nat where "REQUEST_MOST = 256"

definition count_write :: "nat \<Rightarrow> bytes \<Rightarrow> io_kind + nat" where
  "count_write n bs =
     (let m = min (n + length bs) U64_MAX in
      if m > REQUEST_MOST then Inl FileTooLarge else Inr m)"

fun counted :: "nat \<Rightarrow> bytes list \<Rightarrow> io_kind + nat" where
  "counted n [] = Inr n"
| "counted n (p # ps) = rbind (count_write n p) (\<lambda>m. counted m ps)"

lemma counted_iff: "n \<le> REQUEST_MOST \<Longrightarrow> is_ok (counted n ps) \<longleftrightarrow> n + length (concat ps) \<le> REQUEST_MOST"
proof (induction ps arbitrary: n)
  case (Cons p ps)
  show ?case
  proof (cases "n + length p \<le> REQUEST_MOST")
    case True
    then have "count_write n p = Inr (n + length p)"
      by (simp add: count_write_def U64_MAX_def REQUEST_MOST_def)
    with True Cons.IH [of "n + length p"] show ?thesis
      by (simp add: add.assoc)
  next
    case False
    then have "count_write n p = Inl FileTooLarge"
      by (simp add: count_write_def U64_MAX_def REQUEST_MOST_def)
    with False show ?thesis
      by simp
  qed
qed simp

section \<open>Requests from the parent\<close>

record event_request =
  rq_schema :: nat
  rq_run :: event_id
  rq_agent :: event_id
  rq_turn :: "event_id option"
  rq_ask :: "event_id option"

record source_binding =
  src_parent :: nat
  src_uid :: nat
  src_root :: lineage

text \<open>What printing and reading back a JSON value give: the pieces written, and the request.\<close>

record request_format =
  rf_pieces :: "json \<Rightarrow> bytes list"
  rf_request :: "json \<Rightarrow> event_request option"

definition source_accept :: "request_format \<Rightarrow> source_binding \<Rightarrow> json \<Rightarrow> nat \<Rightarrow> nat \<Rightarrow> lineage option" where
  "source_accept F src v pid uid =
     (if pid \<noteq> src_parent src \<or> uid \<noteq> src_uid src then None
      else if \<not> is_ok (counted 0 (rf_pieces F v)) then None
      else case rf_request F v of
        None \<Rightarrow> None
      | Some r \<Rightarrow>
          if rq_schema r \<noteq> 1 \<or> Some (rq_run r) \<noteq> lin_run (src_root src)
             \<or> Some (rq_agent r) \<noteq> lin_agent (src_root src) then None
          else Some ((src_root src)\<lparr>lin_turn := rq_turn r, lin_ask := rq_ask r\<rparr>))"

text \<open>The process-wide \<open>SOURCE\<close> (set once) and the thread's \<open>CURRENT\<close> lineage.\<close>

record request_state =
  rs_source :: "source_binding option"
  rs_current :: "lineage option"

definition source_install :: "nat \<Rightarrow> nat \<Rightarrow> lineage \<Rightarrow> request_state \<Rightarrow> request_state" where
  "source_install parent euid root s =
     (if lin_run root \<noteq> None \<and> lin_agent root \<noteq> None \<and> lin_turn root = None \<and> lin_ask root = None
         \<and> rs_source s = None
      then s\<lparr>rs_source := Some \<lparr>src_parent = parent, src_uid = euid, src_root = root\<rparr>\<rparr>
      else s)"

definition source_available :: "request_state \<Rightarrow> bool" where
  "source_available s \<longleftrightarrow> rs_source s \<noteq> None"

definition request_context_revision :: "request_state \<Rightarrow> nat option" where
  "request_context_revision s = (if source_available s then Some 1 else None)"

definition scoped :: "lineage option \<Rightarrow> (request_state \<Rightarrow> 'a \<times> request_state) \<Rightarrow> request_state \<Rightarrow> 'a \<times> request_state" where
  "scoped context_of work s =
     (let (a, t) = work (s\<lparr>rs_current := context_of\<rparr>) in (a, t\<lparr>rs_current := rs_current s\<rparr>))"

definition peer_context :: "request_format \<Rightarrow> nat option \<Rightarrow> (nat \<times> nat) option \<Rightarrow> json option \<Rightarrow> request_state \<Rightarrow> lineage option" where
  "peer_context F ppid peer v s =
     Option.bind v (\<lambda>x.
     Option.bind (rs_source s) (\<lambda>src.
     if ppid \<noteq> Some (src_parent src) then None
     else Option.bind peer (\<lambda>(pid, uid). source_accept F src x pid uid)))"

definition with_peer ::
  "request_format \<Rightarrow> nat option \<Rightarrow> (nat \<times> nat) option \<Rightarrow> json option
     \<Rightarrow> (request_state \<Rightarrow> 'a \<times> request_state) \<Rightarrow> request_state \<Rightarrow> 'a \<times> request_state" where
  "with_peer F ppid peer v work s = scoped (peer_context F ppid peer v s) work s"

definition capture_correlation :: "request_state \<Rightarrow> correlation \<Rightarrow> correlation" where
  "capture_correlation s c = (case rs_current s of None \<Rightarrow> c | Some l \<Rightarrow> lineage_apply l c)"

lemma source_accept_Some:
  "source_accept F src v pid uid = Some l \<longleftrightarrow>
     pid = src_parent src \<and> uid = src_uid src \<and> length (concat (rf_pieces F v)) \<le> REQUEST_MOST
     \<and> (\<exists>r. rf_request F v = Some r \<and> rq_schema r = 1 \<and> Some (rq_run r) = lin_run (src_root src)
         \<and> Some (rq_agent r) = lin_agent (src_root src)
         \<and> l = (src_root src)\<lparr>lin_turn := rq_turn r, lin_ask := rq_ask r\<rparr>)"
  using counted_iff [of 0 "rf_pieces F v"]
  by (auto simp: source_accept_def REQUEST_MOST_def split: option.splits if_splits)

text \<open>An installed source is a root: nothing but its run and its agent is bound.\<close>

definition source_rooted :: "request_state \<Rightarrow> bool" where
  "source_rooted s \<longleftrightarrow>
     (case rs_source s of None \<Rightarrow> True
      | Some src \<Rightarrow> \<exists>run agent. src_root src = Lineage_root run agent)"

lemma source_install_rooted: "source_rooted s \<Longrightarrow> source_rooted (source_install parent euid root s)"
  by (cases root) (auto simp: source_rooted_def source_install_def Lineage_root_def Lineage_default_def)

text \<open>
  C38: work done for a caller is reported under a turn or a question of the run only when the caller is
  the process that started casper, under the same user, and names the very run and agent casper was
  started for, in at most 256 bytes; everything the work reports then stays within that run and agent,
  and when the work ends the thread's own context is back.
\<close>

theorem peer_context_confined:
  assumes "with_peer F ppid peer v work s = (a, t)" "source_rooted s" "peer_context F ppid peer v s = Some l"
  shows "rs_current t = rs_current s
    \<and> (\<exists>src x r. rs_source s = Some src \<and> ppid = Some (src_parent src) \<and> peer = Some (src_parent src, src_uid src)
           \<and> v = Some x \<and> length (concat (rf_pieces F x)) \<le> 256 \<and> rf_request F x = Some r
           \<and> lin_turn l = rq_turn r \<and> lin_ask l = rq_ask r
           \<and> (\<forall>c. lineage_accepts (src_root src) (capture_correlation (s\<lparr>rs_current := Some l\<rparr>) c)
                 \<and> run_id (capture_correlation (s\<lparr>rs_current := Some l\<rparr>) c) = Some (rq_run r)
                 \<and> agent_id (capture_correlation (s\<lparr>rs_current := Some l\<rparr>) c) = Some (rq_agent r)))"
proof
  show "rs_current t = rs_current s"
    using assms(1) by (auto simp: with_peer_def scoped_def Let_def split: prod.splits)
next
  obtain src x where src: "rs_source s = Some src" "v = Some x" "ppid = Some (src_parent src)"
    and accepted: "source_accept F src x (src_parent src) (src_uid src) = Some l"
    and peer: "peer = Some (src_parent src, src_uid src)"
    using assms(3) by (auto simp: peer_context_def source_accept_Some bind_eq_Some_conv split: if_splits)
  then obtain r where r: "rf_request F x = Some r" "Some (rq_run r) = lin_run (src_root src)"
      "Some (rq_agent r) = lin_agent (src_root src)" "length (concat (rf_pieces F x)) \<le> REQUEST_MOST"
      "l = (src_root src)\<lparr>lin_turn := rq_turn r, lin_ask := rq_ask r\<rparr>"
    by (auto simp: source_accept_Some)
  have "extends l (src_root src)"
    using assms(2) src(1) r by (auto simp: extends_def source_rooted_def Lineage_root_def Lineage_default_def)
  then have "lineage_accepts (src_root src) (capture_correlation (s\<lparr>rs_current := Some l\<rparr>) c)
      \<and> run_id (capture_correlation (s\<lparr>rs_current := Some l\<rparr>) c) = Some (rq_run r)
      \<and> agent_id (capture_correlation (s\<lparr>rs_current := Some l\<rparr>) c) = Some (rq_agent r)" for c
    using accepts_extends [of l "src_root src" c] r(2) [symmetric] r(3) [symmetric] r(5)
    by (simp add: capture_correlation_def lineage_apply_def)
  with src peer r show "\<exists>src x r. rs_source s = Some src \<and> ppid = Some (src_parent src)
      \<and> peer = Some (src_parent src, src_uid src) \<and> v = Some x \<and> length (concat (rf_pieces F x)) \<le> 256
      \<and> rf_request F x = Some r \<and> lin_turn l = rq_turn r \<and> lin_ask l = rq_ask r
      \<and> (\<forall>c. lineage_accepts (src_root src) (capture_correlation (s\<lparr>rs_current := Some l\<rparr>) c)
            \<and> run_id (capture_correlation (s\<lparr>rs_current := Some l\<rparr>) c) = Some (rq_run r)
            \<and> agent_id (capture_correlation (s\<lparr>rs_current := Some l\<rparr>) c) = Some (rq_agent r))"
    by (intro exI [of _ src] exI [of _ x] exI [of _ r]) (auto simp: REQUEST_MOST_def)
qed

definition demo_event_source :: source_binding where
  "demo_event_source = \<lparr>src_parent = 7, src_uid = 1000, src_root = Lineage_root ''R'' ''A''\<rparr>"

definition demo_event_format :: request_format where
  "demo_event_format =
     \<lparr>rf_pieces = (\<lambda>_. [''{'', ''}'']),
      rf_request = (\<lambda>_. Some \<lparr>rq_schema = 1, rq_run = ''R'', rq_agent = ''A'', rq_turn = Some ''T'', rq_ask = None\<rparr>)\<rparr>"

theorem peer_context_confined_witness:
  "\<exists>l. peer_context demo_event_format (Some 7) (Some (7, 1000)) (Some JNull)
         \<lparr>rs_source = Some demo_event_source, rs_current = None\<rparr> = Some l
     \<and> run_id (capture_correlation \<lparr>rs_source = Some demo_event_source, rs_current = Some l\<rparr> Correlation_default) = Some ''R''"
proof -
  let ?s = "\<lparr>rs_source = Some demo_event_source, rs_current = None\<rparr>"
  let ?l = "\<lparr>lin_run = Some ''R'', lin_agent = Some ''A'', lin_turn = Some ''T'', lin_ask = None\<rparr>"
  have given: "peer_context demo_event_format (Some 7) (Some (7, 1000)) (Some JNull) ?s = Some ?l"
    by (simp add: peer_context_def source_accept_def demo_event_format_def demo_event_source_def count_write_def
        U64_MAX_def REQUEST_MOST_def Lineage_root_def Lineage_default_def)
  have rooted: "source_rooted ?s"
    by (auto simp: source_rooted_def demo_event_source_def)
  show ?thesis
    using peer_context_confined [where work = "\<lambda>t. ((), t)" and a = "()" and t = ?s, OF _ rooted given] given
    by (auto simp: with_peer_def scoped_def demo_event_format_def)
qed

section \<open>Facts\<close>

datatype tool_outcome =
    Tool_Admitted | Tool_Started | Tool_Waiting | Tool_Succeeded | Tool_Failed | Tool_Cancelled
  | Tool_Refused | Tool_Unknown

datatype durability_fact = Durability_Confirmed | Durability_Unconfirmed
datatype observation_fact = Observation_Confirmed | Observation_Unconfirmed
datatype delivery_fact = Delivery_Reported | Delivery_Unconfirmed

datatype mutation_state =
    State_Committed durability_fact observation_fact delivery_fact
  | State_Refused
  | State_Unknown

datatype server_outcome =
    Server_Connecting | Server_Connected | Server_CloseRequested | Server_Disconnected
  | Server_AuthenticationRequired | Server_Refused | Server_Failed | Server_Unknown

datatype fact =
    Fact_Tool tool_outcome "nat option"
  | Fact_Mutation mutation_state
  | Fact_ToolServer server_outcome

text \<open>\<open>schema\<close> and \<open>program\<close> have one value each (revision 1, \<open>casper\<close>) and need no field.\<close>

record event =
  ev_version :: "nat list"
  ev_producer :: event_id
  ev_sequence :: nat
  ev_correlation :: correlation
  ev_fact :: fact

definition MAX_EVENT_BYTES :: nat where "MAX_EVENT_BYTES = 4096"

datatype decode_error = Oversized | Invalid_event

definition event_decode :: "(bytes \<Rightarrow> event option) \<Rightarrow> bytes \<Rightarrow> decode_error + event" where
  "event_decode from_slice bs =
     (if length bs > MAX_EVENT_BYTES then Inl Oversized else ok_or (from_slice bs) Invalid_event)"

definition schema_revision :: "nat \<Rightarrow> string + unit" where
  "schema_revision n = ensure (n = 1) ''unsupported event revision''"

text \<open>\<open>elapsed\<close>: milliseconds when they fit into 64 bits.\<close>

definition elapsed_ms :: "duration \<Rightarrow> nat option" where
  "elapsed_ms d = (if d div 1000000 \<le> U64_MAX then Some (d div 1000000) else None)"

end
