(* ===== verification/Calling.thy ===== *)
theory Calling
  imports Read_Broker Setup Event_Schema
begin

text \<open>
  The one path a tool call takes (\<open>calling.rs\<close>), the native file tools on it (\<open>calling/files.rs\<close>), and
  the facts it reports (\<open>calling/observing.rs\<close>).  The Lua engine, the MCP client, image decoding and
  syntax highlighting are what the code calls and are inputs of the model.
\<close>

section \<open>The trace of a call\<close>

record call_trace =
  tz_correlation :: "correlation option"
  tz_began :: instant
  tz_started :: bool
  tz_finished :: bool
  tz_facts :: "(correlation \<times> fact) list"

definition trace_new :: "request_state \<Rightarrow> event_id option \<Rightarrow> instant \<Rightarrow> call_trace" where
  "trace_new rs fresh at =
     \<lparr>tz_correlation = map_option (\<lambda>i. capture_correlation rs (Correlation_default\<lparr>tool_call_id := Some i\<rparr>)) fresh,
      tz_began = at, tz_started = False, tz_finished = False, tz_facts = []\<rparr>"

definition trace_emit :: "fact \<Rightarrow> call_trace \<Rightarrow> call_trace" where
  "trace_emit f t =
     (case tz_correlation t of None \<Rightarrow> t | Some c \<Rightarrow> t\<lparr>tz_facts := tz_facts t @ [(c, f)]\<rparr>)"

definition trace_tool :: "instant \<Rightarrow> tool_outcome \<Rightarrow> bool \<Rightarrow> call_trace \<Rightarrow> call_trace" where
  "trace_tool at oc terminal t =
     trace_emit (Fact_Tool oc (if terminal then elapsed_ms (at - tz_began t) else None)) t"

definition trace_enabled :: "call_trace \<Rightarrow> bool" where
  "trace_enabled t \<longleftrightarrow> tz_correlation t \<noteq> None"

definition trace_start :: "instant \<Rightarrow> call_trace \<Rightarrow> call_trace" where
  "trace_start at t = trace_tool at Tool_Started False (t\<lparr>tz_started := True\<rparr>)"

definition trace_mutation :: "mutation_state \<Rightarrow> call_trace \<Rightarrow> call_trace" where
  "trace_mutation m t = trace_emit (Fact_Mutation m) t"

definition call_outcome :: "ran \<Rightarrow> tool_outcome" where
  "call_outcome r =
     (let oc = map_option fmu_outcome (fm_mutation (ran_files r)) in
      if oc = Some ''unknown'' then Tool_Unknown
      else if oc = Some ''refused'' then Tool_Refused
      else if ran_waiting r then Tool_Waiting
      else if ran_failed r then Tool_Failed
      else Tool_Succeeded)"

definition trace_finish :: "instant \<Rightarrow> string + ran \<Rightarrow> call_trace \<Rightarrow> call_trace" where
  "trace_finish at result t =
     (let t1 = t\<lparr>tz_finished := True\<rparr> in
      if \<not> trace_enabled t1 then t1
      else trace_tool at
        (case result of
           Inl _ \<Rightarrow> if tz_started t1 then Tool_Unknown else Tool_Refused
         | Inr r \<Rightarrow> call_outcome r) True t1)"

definition trace_drop :: "instant \<Rightarrow> call_trace \<Rightarrow> call_trace" where
  "trace_drop at t =
     (if \<not> tz_finished t
      then trace_tool at (if tz_started t then Tool_Unknown else Tool_Refused) True t
      else t)"

section \<open>Native file tools\<close>

record file_tools =
  ft_args :: "json \<Rightarrow> string + read_args"
  ft_edit :: "json \<Rightarrow> string + string \<times> string \<times> string"
  ft_write :: "json \<Rightarrow> string + string \<times> string"
  ft_jailed :: bool
  ft_image :: "string \<Rightarrow> string + image option"
  ft_encoded :: "string \<Rightarrow> string \<Rightarrow> string + image"
  ft_readers :: readers
  ft_run :: "request \<Rightarrow> outcome"
  ft_render :: "string \<Rightarrow> json \<Rightarrow> json \<Rightarrow> ran option"
  ft_highlight :: "string \<Rightarrow> string \<Rightarrow> line list"
  ft_mutation_json :: "mutation_result \<Rightarrow> json"

definition file_metadata_of :: "snapshot option \<Rightarrow> file_mutation option \<Rightarrow> file_metadata" where
  "file_metadata_of s m =
     \<lparr>fm_absence = None, fm_contract = Some 1,
      fm_observations = (case s of None \<Rightarrow> []
        | Some v \<Rightarrow> [\<lparr>ob_path_key = snap_path_key v, ob_revision = revision v, ob_coverage = coverage v\<rparr>]),
      fm_mutation = m\<rparr>"

text \<open>The first line that is not blank, cut to 117 characters and an ellipsis past 120.\<close>

definition failure_line :: "string \<Rightarrow> string" where
  "failure_line said =
     (let l = str_trim (case find (\<lambda>l. str_trim l \<noteq> []) (str_lines said) of None \<Rightarrow> [] | Some l \<Rightarrow> l) in
      if length (chars l) > 120 then concat (take 117 (chars l)) @ ''...'' else l)"

definition keep_failure :: "ran \<Rightarrow> ran" where
  "keep_failure r =
     (if ran_failed r
      then r\<lparr>ran_keep := True, ran_brief := Some (case ran_brief r of Some b \<Rightarrow> b | None \<Rightarrow> failure_line (ran_said r))\<rparr>
      else r)"

definition json_opt :: "string option \<Rightarrow> json" where
  "json_opt v = (case v of None \<Rightarrow> JNull | Some s \<Rightarrow> JString s)"

definition json_nat :: "nat \<Rightarrow> json" where
  "json_nat n = JNumber (PosInt (of_nat n))"

definition read_span :: "read_text \<Rightarrow> bool \<times> string" where
  "read_span t =
     (let ranged = (rt_first_line t > 1 \<or> rt_last_line t < rt_total_lines t) in
      (ranged,
       if ranged
       then ''lines '' @ dec_text (rt_first_line t) @ ''-'' @ dec_text (rt_last_line t) @ '' of '' @ dec_text (rt_total_lines t)
       else dec_text (rt_total_lines t) @ '' lines''))"

definition present_said :: "read_text \<Rightarrow> string" where
  "present_said t =
     (let (ranged, span_text) = read_span t in
      (if ranged then rt_text t @ [newline] @ ''('' @ span_text @ '')'' else rt_text t)
      @ (if rt_omitted_bytes t > 0
         then [newline] @ ellipsis @ '' '' @ dec_text (rt_omitted_bytes t) @ '' more bytes, not shown'' else [])
      @ (if rt_source_text t = None
         then [newline] @ ''Read-only preview; no editable revision was acquired.'' else []))"

definition present :: "file_tools \<Rightarrow> tool_call \<Rightarrow> string \<Rightarrow> read_text \<Rightarrow> ran" where
  "present T tc p t =
     (let said = present_said t; span_text = snd (read_span t);
          d = JObject [(''source_text'', json_opt (rt_source_text t)), (''source_bytes'', json_nat (rt_source_bytes t)),
                (''text'', JString (rt_text t)), (''said'', JString said), (''span'', JString span_text)]
      in case ft_render T (tc_tool tc) (tc_args tc) d of
           Some r \<Rightarrow> r
         | None \<Rightarrow>
             Ran_default\<lparr>ran_said := said, ran_shown := Some (Painted (ft_highlight T (rt_text t) p)),
               ran_brief := Some (''read '' @ p @ '' ('' @ span_text @ '')''), ran_back := Some (''read '' @ p)\<rparr>)"

definition image_ran :: "string \<Rightarrow> string \<Rightarrow> image \<Rightarrow> ran" where
  "image_ran p media shown_image =
     Ran_default\<lparr>ran_said := ''Read image '' @ p @ '' ['' @ media @ ''; resized for inline vision]'',
       ran_images := [shown_image], ran_brief := Some (''image '' @ p), ran_back := Some (''read '' @ p)\<rparr>"

definition file_read :: "file_tools \<Rightarrow> tool_call \<Rightarrow> ran" where
  "file_read T tc =
     (case ReadArgs_parse (ft_args T) (tc_args tc) of
        Inl e \<Rightarrow> Ran_failed e
      | Inr a \<Rightarrow>
          if \<not> ft_jailed T then Ran_failed ''native file reads require containment''
          else
            let reading =
              (case ft_image T (ra_path a) of
                 Inl e \<Rightarrow> Ran_failed e
               | Inr (Some i) \<Rightarrow> (image_ran (ra_path a) (im_media_type i) i)\<lparr>ran_files := file_metadata_of None None\<rparr>
               | Inr None \<Rightarrow>
                   (case observe_lines (ft_readers T) (ra_path a) (args_offset a) (args_limit a) (ft_run T) of
                      Inl e \<Rightarrow> Ran_failed (snd e)
                    | Inr r \<Rightarrow>
                        (present T tc (ra_path a) (presentation r))\<lparr>ran_files := file_metadata_of (read_snapshot r) None\<rparr>))
            in if revision_recovering (tc_revision tc)
               then (case observe_presence (ft_readers T) (ra_path a) (ft_run T) of
                       Inl e \<Rightarrow> Ran_failed (snd e)
                     | Inr p \<Rightarrow>
                         if state p = Absent
                         then Ran_default\<lparr>
                           ran_said := ra_path a @ '' is absent; no contents were read. A write may only create without replacing another file.'',
                           ran_files := (file_metadata_of None None)\<lparr>fm_absence := Some \<lparr>ab_version = 1, ab_path_key = pres_path_key p\<rparr>\<rparr>\<rparr>
                         else reading)
               else reading)"

definition file_brokered :: "file_tools \<Rightarrow> tool_call \<Rightarrow> read_data \<Rightarrow> instant \<Rightarrow> call_trace \<Rightarrow> (string + ran) \<times> call_trace" where
  "file_brokered T tc d at t =
     (case ReadArgs_parse (ft_args T) (tc_args tc) of
        Inl e \<Rightarrow> (Inl e, t)
      | Inr a \<Rightarrow>
          (case d of
             Read_Text x \<Rightarrow>
               (case read_text_validate a x of
                  Inl e \<Rightarrow> (Inl e, t)
                | Inr _ \<Rightarrow>
                    (Inr (keep_failure ((present T tc (ra_path a) x)\<lparr>ran_files := FileMetadata_default\<rparr>)), trace_start at t))
           | Read_Image i \<Rightarrow>
               (case ft_encoded T (im_data i) (im_media_type i) of
                  Inl e \<Rightarrow> (Inl e, t)
                | Inr j \<Rightarrow>
                    (Inr (keep_failure ((image_ran (ra_path a) (im_media_type i) j)\<lparr>ran_files := FileMetadata_default\<rparr>)),
                     trace_start at t))))"

text \<open>A mutation: the request the arguments and the guard give, what a failure is called, and what is said.\<close>

record planned =
  pl_request :: request
  pl_before :: "string option"
  pl_text :: string

definition mutation_guard :: "tool_guard \<Rightarrow> guard" where
  "mutation_guard g = \<lparr>revision_contract = 1, expected_revision = tg_expected g, mutation_id = tg_mutation g\<rparr>"

definition plan_write :: "file_tools \<Rightarrow> tool_call \<Rightarrow> tool_guard \<Rightarrow> string + planned" where
  "plan_write T tc g =
     rbind (ft_write T (tc_args tc)) (\<lambda>(p, contents).
     let existed = (tg_expected g \<noteq> ''absent'') in
     Inr \<lparr>pl_request = \<lparr>path = p, operation = (if existed then Replace contents else Create contents),
             request_guard = Some (mutation_guard g)\<rparr>,
          pl_before = None,
          pl_text = ''wrote '' @ p @ '': '' @ dec_text (length (str_lines contents)) @ '' lines, '' @ dec_text (length contents)
             @ '' bytes, '' @ (if existed then ''replaced'' else ''new file'')\<rparr>)"

definition joined_lines :: "byte \<Rightarrow> string \<Rightarrow> string" where
  "joined_lines mark s = (let ls = map (\<lambda>l. mark # l) (str_lines s) in
     concat (map (\<lambda>(i, l). (if i = 0 then [] else [newline]) @ l) (zip [0..<length ls] ls)))"

definition hunk_text :: "string \<Rightarrow> string \<Rightarrow> string \<Rightarrow> string \<Rightarrow> string" where
  "hunk_text p src old new =
     (let at = (case str_find old src of None \<Rightarrow> 1 | Some i \<Rightarrow> length (filter (\<lambda>b. b = newline) (take i src)) + 1) in
      ''--- '' @ p @ [newline] @ ''+++ '' @ p @ [newline] @ ''@@ -'' @ dec_text at @ '','' @ dec_text (length (str_lines old))
      @ '' +'' @ dec_text at @ '','' @ dec_text (length (str_lines new)) @ '' @@'' @ [newline]
      @ joined_lines (CHR ''-'') old @ [newline] @ joined_lines (CHR ''+'') new)"

definition plan_edit :: "file_tools \<Rightarrow> tool_call \<Rightarrow> tool_guard \<Rightarrow> string + planned" where
  "plan_edit T tc g =
     rbind (ensure (tg_expected g \<noteq> ''absent'') ''native edit requires an existing-file observation; reread first'') (\<lambda>_.
     rbind (ft_edit T (tc_args tc)) (\<lambda>(p, old, new).
     let draft = \<lparr>path = p, operation = Edit old new, request_guard = Some (mutation_guard g)\<rparr> in
     rbind (map_err snd (request_validate draft)) (\<lambda>_.
     rbind (map_err snd (observe (ft_readers T) p (ft_run T))) (\<lambda>before.
     rbind (ensure (revision before = tg_expected g) ''native source revision is stale; reread before mutation'') (\<lambda>_.
     Inr \<lparr>pl_request = draft, pl_before = Some (source_text before),
          pl_text = hunk_text p (source_text before) old new\<rparr>)))))"

definition plan_mutation :: "file_tools \<Rightarrow> tool_call \<Rightarrow> file_operation \<Rightarrow> tool_guard \<Rightarrow> string + planned" where
  "plan_mutation T tc kind g =
     (case kind of
        Op_Write \<Rightarrow> plan_write T tc g
      | Op_Edit \<Rightarrow> plan_edit T tc g
      | Op_Read \<Rightarrow> Inl ''read is not a mutation'')"

definition committed_state :: "commit_report \<Rightarrow> mutation_state" where
  "committed_state c =
     State_Committed
       (if durability (mutation c) = ''synced'' then Durability_Confirmed else Durability_Unconfirmed)
       (if observation c \<noteq> None then Observation_Confirmed else Observation_Unconfirmed)
       Delivery_Unconfirmed"

definition committed_ran :: "file_tools \<Rightarrow> tool_call \<Rightarrow> file_operation \<Rightarrow> tool_guard \<Rightarrow> planned \<Rightarrow> commit_report \<Rightarrow> ran" where
  "committed_ran T tc kind g P c =
     (let d = JObject [(''before'', json_opt (pl_before P)),
            (''source_text'', json_opt (map_option source_text (observation c))),
            (''existed'', JBool (tg_expected g \<noteq> ''absent'')), (''said'', JString (pl_text P)),
            (''mutation'', ft_mutation_json T (mutation c)), (''warning'', json_opt (warning c))];
          r0 = (case ft_render T (tc_tool tc) (tc_args tc) d of Some r \<Rightarrow> r | None \<Rightarrow> Ran_said (pl_text P));
          r1 = (if ran_failed r0
                then r0\<lparr>ran_said := ''Native file mutation committed; presentation failed: '' @ ran_said r0\<rparr> else r0);
          r2 = (case warning c of None \<Rightarrow> r1
                | Some w \<Rightarrow> r1\<lparr>ran_said := ran_said r1 @ [newline] @ w, ran_keep := True\<rparr>);
          p = path (pl_request P)
      in r2\<lparr>ran_brief := Some (case ran_brief r2 of Some b \<Rightarrow> b
                | None \<Rightarrow> (if kind = Op_Edit then ''edited'' else ''wrote'') @ '' '' @ p),
            ran_back := Some (case ran_back r2 of Some b \<Rightarrow> b | None \<Rightarrow> ''read '' @ p),
            ran_files := file_metadata_of (observation c)
              (Some \<lparr>fmu_id = result_id (mutation c), fmu_outcome = mutation_result.outcome (mutation c),
                     fmu_durability = Some (durability (mutation c))\<rparr>)\<rparr>)"

definition file_mutate ::
  "file_tools \<Rightarrow> tool_call \<Rightarrow> file_operation \<Rightarrow> tool_guard \<Rightarrow> call_trace \<Rightarrow> ((string \<times> string) + ran) \<times> call_trace" where
  "file_mutate T tc kind g t =
     (case plan_mutation T tc kind g of
        Inl e \<Rightarrow> (Inl (''refused'', e), t)
      | Inr P \<Rightarrow>
          (case worker_mutation (ft_readers T) (pl_request P) (ft_run T (pl_request P)) of
             Inl why \<Rightarrow> (Inl (if outcome_unknown why then ''unknown'' else ''refused'', failure_text why), t)
           | Inr c \<Rightarrow> (Inr (committed_ran T tc kind g P c), trace_mutation (committed_state c) t)))"

definition failed_mutation_ran :: "tool_guard \<Rightarrow> string \<Rightarrow> string \<Rightarrow> ran" where
  "failed_mutation_ran g oc e =
     (keep_failure (Ran_failed e))\<lparr>ran_files :=
        \<lparr>fm_absence = None, fm_contract = Some 1, fm_observations = [],
         fm_mutation = Some \<lparr>fmu_id = tg_mutation g, fmu_outcome = oc, fmu_durability = None\<rparr>\<rparr>\<rparr>"

definition files_run ::
  "file_tools \<Rightarrow> tool_call \<Rightarrow> string option \<Rightarrow> file_operation \<Rightarrow> instant \<Rightarrow> call_trace \<Rightarrow> (string + ran) \<times> call_trace" where
  "files_run T tc inside_tool kind at t =
     (if kind = Op_Read then
        if mutation_requested (tc_revision tc)
        then (Inl ''file revision mutation guards cannot be used for a read'', t)
        else
          let r = keep_failure (file_read T tc);
              r1 = (if inside_tool \<noteq> None \<or> ran_failed r
                    then r\<lparr>ran_files := (ran_files r)\<lparr>fm_observations := [], fm_absence := None\<rparr>\<rparr> else r)
          in (Inr r1, trace_start at t)
      else
        case revision_guard (tc_revision tc) of
          Inl e \<Rightarrow> (Inl e, t)
        | Inr g \<Rightarrow>
            (case file_mutate T tc kind g (trace_start at t) of
               (Inr r, t2) \<Rightarrow> (Inr (keep_failure r), t2)
             | (Inl (oc, e), t2) \<Rightarrow>
                 (Inr (failed_mutation_ran g oc e),
                  trace_mutation (if oc = ''unknown'' then State_Unknown else State_Refused) t2)))"

section \<open>A call\<close>

record engine =
  eg_native :: "string \<Rightarrow> file_operation option"
  eg_declarations :: bool
  eg_declares :: "string \<Rightarrow> bool"
  eg_call :: "string \<Rightarrow> json \<Rightarrow> ran option"

text \<open>What loading the declarations gives, alone and with effects, and the settings in force.\<close>

record call_env =
  ce_capability :: "json \<Rightarrow> file_capability option"
  ce_declarations :: "string + engine"
  ce_loaded :: "string + engine"
  ce_settings :: json
  ce_tools :: file_tools
  ce_mcp :: "string \<Rightarrow> json \<Rightarrow> ran"

definition call_given :: "tool_call \<Rightarrow> json" where
  "call_given tc =
     (case tc_answered tc of
        None \<Rightarrow> tc_args tc
      | Some a \<Rightarrow>
          (case tc_args tc of
             JObject kvs \<Rightarrow>
               JObject (if ''answered'' \<in> fst ` set kvs
                        then map (\<lambda>(k, v). (k, if k = ''answered'' then JString a else v)) kvs
                        else kvs @ [(''answered'', JString a)])
           | _ \<Rightarrow> JObject [(''answered'', JString a)]))"

definition call_engine :: "call_env \<Rightarrow> tool_call \<Rightarrow> string + engine" where
  "call_engine C tc =
     (case ce_declarations C of
        Inr e \<Rightarrow> if revision_requested (tc_revision tc) \<or> eg_native e (tc_tool tc) \<noteq> None then Inr e else ce_loaded C
      | Inl why \<Rightarrow> if revision_requested (tc_revision tc) then Inl why else ce_loaded C)"

definition native_admitted :: "engine \<Rightarrow> tool_call \<Rightarrow> file_capability option \<Rightarrow> string + file_operation option" where
  "native_admitted e tc admission =
     (let native = eg_native e (tc_tool tc) in
      rbind (ensure (\<not> (revision_requested (tc_revision tc) \<and> native = None))
               ''file revision contract is not supported by this declaration; guarded calls cannot run'') (\<lambda>_.
      case native of
        None \<Rightarrow> Inr None
      | Some kind \<Rightarrow>
          rbind (ensure (eg_declarations e) ''file revision declarations could not be admitted without effects'') (\<lambda>_.
          rbind (ensure (case admission of None \<Rightarrow> True | Some claimed \<Rightarrow> cap_operation claimed = kind)
                   ''file revision operation changed since capability discovery'') (\<lambda>_.
          Inr (Some kind)))))"

definition call_perform ::
  "call_env \<Rightarrow> tool_call \<Rightarrow> string option \<Rightarrow> instant \<Rightarrow> call_trace \<Rightarrow> (string + ran) \<times> call_trace" where
  "call_perform C tc inside_tool at t =
     (case rbind (revision_validate (ce_capability C) (tc_revision tc)) (\<lambda>admission.
           rbind (call_engine C tc) (\<lambda>e.
           rbind (ensure (\<not> is_off (ce_settings C) (tc_tool tc)) (''no such tool: '' @ tc_tool tc)) (\<lambda>_.
           rbind (native_admitted e tc admission) (\<lambda>native. Inr (e, native))))) of
        Inl why \<Rightarrow> (Inl why, t)
      | Inr (e, native) \<Rightarrow>
          (let (result, t1) =
             (case native of
                Some kind \<Rightarrow>
                  (case files_run (ce_tools C) tc inside_tool kind at t of
                     (Inl why, t2) \<Rightarrow> (Inl why, t2) | (Inr r, t2) \<Rightarrow> (Inr (Some r), t2))
              | None \<Rightarrow>
                  if starts_with (tc_tool tc) ''mcp__'' \<or> starts_with (tc_tool tc) ''mcp_''
                  then (Inr (Some (ce_mcp C (tc_tool tc) (tc_args tc))), trace_start at t)
                  else (Inr (eg_call e (tc_tool tc) (call_given tc)),
                        if trace_enabled t \<and> eg_declares e (tc_tool tc) then trace_start at t else t))
           in case result of
                Inl why \<Rightarrow> (Inl why, t1)
              | Inr None \<Rightarrow> (Inl (''no such tool: '' @ tc_tool tc), t1)
              | Inr (Some r) \<Rightarrow> (Inr (r\<lparr>ran_said := bounded (output_bytes (ce_settings C)) (ran_said r)\<rparr>), t1)))"

definition call_ran ::
  "call_env \<Rightarrow> tool_call \<Rightarrow> string option \<Rightarrow> call_trace \<Rightarrow> instant \<Rightarrow> instant \<Rightarrow> (string + ran) \<times> call_trace" where
  "call_ran C tc inside_tool t at end_at =
     (let (result, t1) = call_perform C tc inside_tool at t
      in (result, trace_drop end_at (trace_finish end_at result t1)))"

definition present_brokered ::
  "call_env \<Rightarrow> tool_call \<Rightarrow> read_data \<Rightarrow> instant \<Rightarrow> call_trace \<Rightarrow> (string + ran) \<times> call_trace" where
  "present_brokered C tc d at t =
     (if revision_requested (tc_revision tc) \<or> is_off (ce_settings C) (tc_tool tc)
      then (Inl ''broker data cannot authorize a guarded or disabled tool'', t)
      else case ce_declarations C of
        Inl why \<Rightarrow> (Inl why, t)
      | Inr e \<Rightarrow>
          if \<not> eg_declarations e \<or> eg_native e (tc_tool tc) \<noteq> Some Op_Read
          then (Inl ''broker data requires a declaration-only native read'', t)
          else case file_brokered (ce_tools C) tc d at t of
            (Inl why, t1) \<Rightarrow> (Inl why, t1)
          | (Inr r, t1) \<Rightarrow> (Inr (r\<lparr>ran_said := bounded (output_bytes (ce_settings C)) (ran_said r)\<rparr>), t1))"

definition brokered_read ::
  "call_env \<Rightarrow> tool_call \<Rightarrow> read_data \<Rightarrow> call_trace \<Rightarrow> instant \<Rightarrow> instant \<Rightarrow> (string + ran) \<times> call_trace" where
  "brokered_read C tc d t at end_at =
     (let (result, t1) = present_brokered C tc d at t
      in (result, trace_drop end_at (trace_finish end_at result t1)))"

fun call_arguments :: "json \<Rightarrow> nat" where
  "call_arguments (JObject kvs) = length kvs"
| "call_arguments (JArray items) = length items"
| "call_arguments JNull = 0"
| "call_arguments _ = 1"

section \<open>What a file tool reports\<close>

lemma trace_emit_simps [simp]:
  "tz_correlation (trace_emit f t) = tz_correlation t"
  "tz_started (trace_emit f t) = tz_started t"
  "tz_finished (trace_emit f t) = tz_finished t"
  "tz_correlation t = Some c \<Longrightarrow> tz_facts (trace_emit f t) = tz_facts t @ [(c, f)]"
  by (simp_all add: trace_emit_def split: option.splits)

lemma plan_mutation_guard:
  "plan_mutation T tc kind g = Inr P \<Longrightarrow> request_guard (pl_request P) = Some (mutation_guard g)"
  by (auto simp: plan_mutation_def plan_write_def plan_edit_def result_simps Let_def
      split: file_operation.splits if_splits prod.splits)

text \<open>The metadata and the fact a mutation must leave, by what the worker reported.\<close>

definition mutation_told :: "tool_guard \<Rightarrow> mutation_failure + commit_report \<Rightarrow> ran \<Rightarrow> fact \<Rightarrow> bool" where
  "mutation_told g w r f =
     (case w of
        Inr c \<Rightarrow>
          fm_mutation (ran_files r) = Some \<lparr>fmu_id = result_id (mutation c), fmu_outcome = mutation_result.outcome (mutation c),
            fmu_durability = Some (durability (mutation c))\<rparr>
          \<and> f = Fact_Mutation (committed_state c)
      | Inl why \<Rightarrow>
          fm_mutation (ran_files r) = Some \<lparr>fmu_id = tg_mutation g,
            fmu_outcome = (if outcome_unknown why then ''unknown'' else ''refused''), fmu_durability = None\<rparr>
          \<and> fm_observations (ran_files r) = [] \<and> ran_failed r
          \<and> f = Fact_Mutation (if outcome_unknown why then State_Unknown else State_Refused))"

lemma keep_failure_files [simp]:
  "ran_files (keep_failure r) = ran_files r" "ran_failed (keep_failure r) = ran_failed r"
  by (simp_all add: keep_failure_def)

text \<open>
  C2: a native edit or write tells the truth about the file: when nothing could be planned, what the
  call leaves says refused and no request was sent; otherwise one request was sent under the very guard
  the call carried, and the metadata and the reported fact say committed with the worker's own report
  exactly when the worker reported a commit, unknown exactly when the outcome is unknown, and refused
  otherwise.
\<close>

theorem file_mutation_told:
  assumes "files_run T tc inside_tool kind at t = (result, t2)" "kind \<noteq> Op_Read"
    and "revision_guard (tc_revision tc) = Inr g" "tz_correlation t = Some c"
  shows "\<exists>r f. result = Inr r \<and> tz_facts t2 = tz_facts t @ [(c, Fact_Tool Tool_Started None), (c, f)]
    \<and> (case plan_mutation T tc kind g of
         Inl e \<Rightarrow> mutation_told g (Inl (Mutation_Refused (OtherKind, e))) r f
       | Inr P \<Rightarrow> request_guard (pl_request P) = Some (mutation_guard g)
           \<and> mutation_told g (worker_mutation (ft_readers T) (pl_request P) (ft_run T (pl_request P))) r f)"
proof -
  have started: "tz_correlation (trace_start at t) = Some c"
      "tz_facts (trace_start at t) = tz_facts t @ [(c, Fact_Tool Tool_Started None)]"
    using assms(4) by (simp_all add: trace_start_def trace_tool_def trace_emit_def)
  show ?thesis
  proof (cases "plan_mutation T tc kind g")
    case (Inl e)
    then show ?thesis
      using assms started
      by (auto simp: files_run_def file_mutate_def mutation_told_def failed_mutation_ran_def outcome_unknown_def
          trace_mutation_def Ran_failed_def)
  next
    case (Inr P)
    then show ?thesis
      using assms started plan_mutation_guard [OF Inr]
      by (cases "worker_mutation (ft_readers T) (pl_request P) (ft_run T (pl_request P))")
        (auto simp: files_run_def file_mutate_def mutation_told_def failed_mutation_ran_def trace_mutation_def
          Ran_failed_def committed_ran_def file_metadata_of_def Let_def split: option.splits)
  qed
qed

section \<open>One terminal fact per call\<close>

definition terminal_fact :: "fact \<Rightarrow> bool" where
  "terminal_fact f = (case f of Fact_Tool Tool_Started _ \<Rightarrow> False | Fact_Tool Tool_Admitted _ \<Rightarrow> False
     | Fact_Tool _ _ \<Rightarrow> True | _ \<Rightarrow> False)"

text \<open>What a running call has reported under its correlation since it began, none of it terminal.\<close>

definition running :: "correlation \<Rightarrow> fact list \<Rightarrow> call_trace \<Rightarrow> bool" where
  "running c fs t \<longleftrightarrow>
     tz_correlation t = Some c \<and> \<not> tz_finished t \<and> tz_facts t = map (Pair c) fs
     \<and> list_all (\<lambda>f. \<not> terminal_fact f) fs \<and> (tz_started t \<longleftrightarrow> Fact_Tool Tool_Started None \<in> set fs)"

definition runs_on :: "correlation \<Rightarrow> fact list \<Rightarrow> call_trace \<Rightarrow> bool" where
  "runs_on c fs t \<longleftrightarrow> (\<exists>gs. running c (fs @ gs) t)"

lemma runs_on_refl: "running c fs t \<Longrightarrow> runs_on c fs t"
  by (auto simp: runs_on_def intro: exI [of _ "[]"])

lemma running_start: "running c fs t \<Longrightarrow> running c (fs @ [Fact_Tool Tool_Started None]) (trace_start at t)"
  by (auto simp: running_def trace_start_def trace_tool_def trace_emit_def terminal_fact_def)

lemma running_mutation: "running c fs t \<Longrightarrow> running c (fs @ [Fact_Mutation m]) (trace_mutation m t)"
  by (auto simp: running_def trace_mutation_def trace_emit_def terminal_fact_def)

lemma runs_on_start: "running c fs t \<Longrightarrow> runs_on c fs (trace_start at t)"
  using running_start [of c fs t at] by (auto simp: runs_on_def)

lemma file_mutate_runs:
  "running c fs t \<Longrightarrow> file_mutate T tc kind g t = (r, u) \<Longrightarrow> runs_on c fs u"
  by (auto simp: file_mutate_def runs_on_def intro: exI [of _ "[]"] running_mutation split: sum.splits)

lemma runs_on_mutation: "runs_on c fs t \<Longrightarrow> runs_on c fs (trace_mutation m t)"
  using running_mutation unfolding runs_on_def by (metis append.assoc)

lemma runs_on_snoc: "runs_on c (fs @ gs) t \<Longrightarrow> runs_on c fs t"
  by (auto simp: runs_on_def)

lemma files_run_runs:
  assumes "running c fs t" "files_run T tc inside_tool kind at t = (r, u)"
  shows "runs_on c fs u"
proof (cases "kind = Op_Read")
  case True
  with assms show ?thesis
    by (auto simp: files_run_def Let_def runs_on_start runs_on_refl split: if_splits)
next
  case False
  show ?thesis
  proof (cases "revision_guard (tc_revision tc)")
    case (Inl e)
    with False assms show ?thesis
      by (auto simp: files_run_def runs_on_refl)
  next
    case (Inr g)
    obtain q v where m: "file_mutate T tc kind g (trace_start at t) = (q, v)"
      by fastforce
    have "runs_on c fs v"
      using file_mutate_runs [OF running_start [OF assms(1)] m] by (rule runs_on_snoc)
    with False Inr m assms(2) show ?thesis
      by (auto simp: files_run_def intro: runs_on_mutation split: sum.splits prod.splits)
  qed
qed

lemma call_perform_runs:
  assumes "running c fs t" "call_perform C tc inside_tool at t = (r, u)"
  shows "runs_on c fs u"
proof -
  have "runs_on c fs v" if "files_run (ce_tools C) tc inside_tool kind at t = (q, v)" for kind q v
    using assms(1) that by (rule files_run_runs)
  with assms show ?thesis
    by (auto simp: call_perform_def Let_def runs_on_refl runs_on_start
        split: sum.splits prod.splits option.splits if_splits)
qed

lemma call_outcome_terminal: "terminal_fact (Fact_Tool (call_outcome r) d)"
  by (simp add: terminal_fact_def call_outcome_def Let_def)

text \<open>
  C17: every call is reported from its beginning to its end: under one correlation, any number of facts
  that are not final and then exactly one final fact, which is the outcome of the result, refused when
  the call was turned away before it started, and unknown when it had started and gave no result.
\<close>

theorem call_ends_once:
  assumes "call_ran C tc inside_tool (trace_new rs (Some i) began) at end_at = (result, u)"
  shows "\<exists>fs oc d. tz_facts u
      = map (Pair (capture_correlation rs (Correlation_default\<lparr>tool_call_id := Some i\<rparr>))) (fs @ [Fact_Tool oc d])
    \<and> list_all (\<lambda>f. \<not> terminal_fact f) fs \<and> terminal_fact (Fact_Tool oc d)
    \<and> oc = (case result of
         Inl _ \<Rightarrow> if Fact_Tool Tool_Started None \<in> set fs then Tool_Unknown else Tool_Refused
       | Inr r \<Rightarrow> call_outcome r)"
proof -
  let ?c = "capture_correlation rs (Correlation_default\<lparr>tool_call_id := Some i\<rparr>)"
  obtain t1 where ran: "call_perform C tc inside_tool at (trace_new rs (Some i) began) = (result, t1)"
      "u = trace_drop end_at (trace_finish end_at result t1)"
    using assms by (auto simp: call_ran_def split: prod.splits)
  have "running ?c [] (trace_new rs (Some i) began)"
    by (simp add: running_def trace_new_def)
  from call_perform_runs [OF this ran(1)] obtain fs where fs: "running ?c fs t1"
    by (auto simp: runs_on_def)
  let ?oc = "case result of Inl _ \<Rightarrow> if Fact_Tool Tool_Started None \<in> set fs then Tool_Unknown else Tool_Refused
       | Inr r \<Rightarrow> call_outcome r"
  have "u = trace_tool end_at ?oc True (t1\<lparr>tz_finished := True\<rparr>)"
    using ran(2) fs
    by (auto simp: trace_drop_def trace_finish_def trace_tool_def trace_enabled_def running_def Let_def split: sum.splits)
  then obtain d where "tz_facts u = map (Pair ?c) (fs @ [Fact_Tool ?oc d])"
    using fs by (auto simp: running_def trace_tool_def trace_emit_def)
  moreover have "terminal_fact (Fact_Tool ?oc d)"
    by (auto simp: call_outcome_terminal split: sum.splits) (simp_all add: terminal_fact_def)
  ultimately show ?thesis
    using fs by (auto simp: running_def)
qed

text \<open>
  C19: data that came through the broker authorizes nothing: a brokered read leaves no file metadata at
  all, and it is refused for a guarded call, for a tool that is off, for a declaration that is not a
  plain native read, and for a text outside the bounds of the arguments it was asked for.
\<close>

theorem brokered_read_unprivileged:
  assumes "present_brokered C tc d at t = (Inr r, u)"
  shows "ran_files r = FileMetadata_default \<and> \<not> revision_requested (tc_revision tc) \<and> \<not> is_off (ce_settings C) (tc_tool tc)
    \<and> (\<exists>e a. ce_declarations C = Inr e \<and> eg_declarations e \<and> eg_native e (tc_tool tc) = Some Op_Read
         \<and> ReadArgs_parse (ft_args (ce_tools C)) (tc_args tc) = Inr a
         \<and> (\<forall>x. d = Read_Text x \<longrightarrow> read_text_validate a x = Inr ()))"
  using assms
  by (auto simp: present_brokered_def file_brokered_def split: if_splits sum.splits read_data.splits prod.splits)

section \<open>Calls\<close>

definition no_worker :: outcome where
  "no_worker =
     (let no = (OtherKind, ''no worker'') in
      \<lparr>o_json = Inr [], o_prepared = Inl no, o_pair = Inl no, o_spawned = Inl no, o_readers = Inl no, o_request = Inl no,
       o_binding = Inl no, o_domain = Inl no, o_lease = Inl no, o_valid = Inl no, o_handoff = Inl no, o_output = Inl no,
       o_waited = Inl no, o_exit = Inl no, o_joined = Inl no, o_restored = []\<rparr>)"

definition no_readers :: readers where
  "no_readers =
     (let no = (OtherKind, ''unreadable'') in
      \<lparr>rd_parse = (\<lambda>_. Inl no), rd_reply = (\<lambda>_. Inl no), rd_snapshot = (\<lambda>_. Inl no), rd_presence = (\<lambda>_. Inl no),
       rd_reading = (\<lambda>_. Inl no), rd_commit = (\<lambda>_. Inl no), rd_request = (\<lambda>_. Inl no)\<rparr>)"

definition demo_tools :: file_tools where
  "demo_tools =
     \<lparr>ft_args = demo_args_of, ft_edit = (\<lambda>_. Inl ''not an edit''), ft_write = (\<lambda>_. Inr (''/w/f'', ''x'')), ft_jailed = True,
      ft_image = (\<lambda>_. Inr None), ft_encoded = (\<lambda>_ _. Inl ''no image''), ft_readers = no_readers, ft_run = (\<lambda>_. no_worker),
      ft_render = (\<lambda>_ _ _. None), ft_highlight = (\<lambda>_ _. []), ft_mutation_json = (\<lambda>_. JNull)\<rparr>"

definition demo_call :: tool_call where
  "demo_call =
     \<lparr>tc_tool = ''write'', tc_args = JNull, tc_cwd = [], tc_answered = None,
      tc_revision = \<lparr>rv_file_revision = None, rv_file_recovery = None, rv_contract = Some (JNumber (PosInt 1)),
        rv_expected = Some (JString ''absent''), rv_mutation = Some (JString ''m1'')\<rparr>\<rparr>"

definition demo_trace :: call_trace where
  "demo_trace = trace_new \<lparr>rs_source = None, rs_current = None\<rparr> (Some ''i'') 0"

theorem file_mutation_told_witness:
  "\<exists>r. fst (files_run demo_tools demo_call None Op_Write 0 demo_trace) = Inr r
     \<and> map_option fmu_outcome (fm_mutation (ran_files r)) = Some ''refused''"
proof -
  obtain result t2 where ran: "files_run demo_tools demo_call None Op_Write 0 demo_trace = (result, t2)"
    by fastforce
  let ?g = "\<lparr>tg_expected = ''absent'', tg_mutation = ''m1''\<rparr>"
  have g: "revision_guard (tc_revision demo_call) = Inr ?g"
    by (simp add: revision_guard_def demo_call_def is_ascii_alphanumeric_def is_ascii_digit_def is_ascii_lowercase_def
        code_def)
  obtain P where plan: "plan_mutation demo_tools demo_call Op_Write ?g = Inr P"
      and sent: "pl_request P = \<lparr>path = ''/w/f'', operation = Create ''x'', request_guard = Some (mutation_guard ?g)\<rparr>"
    by (simp add: plan_mutation_def plan_write_def demo_tools_def)
  have "worker_mutation (ft_readers demo_tools) (pl_request P) (ft_run demo_tools (pl_request P))
      = Inl (Mutation_Refused (OtherKind, ''native containment preparation: no worker''))"
    unfolding sent
    by (simp add: worker_mutation_def exchange_def demo_tools_def no_worker_def no_readers_def Let_def request_validate_def
        path_ok_def NUL_def guard_ok_def mutation_guard_def identity_ok_def identity_char_def is_ascii_alphanumeric_def
        is_ascii_digit_def is_ascii_lowercase_def code_def mutation_text_def text_ok_def EDIT_BYTES_def
        worker_stage_def classified_def)
  with file_mutation_told [OF ran _ g, of "capture_correlation \<lparr>rs_source = None, rs_current = None\<rparr>
      (Correlation_default\<lparr>tool_call_id := Some ''i''\<rparr>)"] ran plan show ?thesis
    by (auto simp: demo_trace_def trace_new_def mutation_told_def outcome_unknown_def)
qed

definition demo_engine :: engine where
  "demo_engine =
     \<lparr>eg_native = (\<lambda>tool. if tool = ''write'' then Some Op_Write else if tool = ''read'' then Some Op_Read else None),
      eg_declarations = True, eg_declares = (\<lambda>_. True), eg_call = (\<lambda>_ _. None)\<rparr>"

definition demo_env :: call_env where
  "demo_env =
     \<lparr>ce_capability = (\<lambda>_. None), ce_declarations = Inr demo_engine, ce_loaded = Inr demo_engine, ce_settings = JObject [],
      ce_tools = demo_tools, ce_mcp = (\<lambda>_ _. Ran_default)\<rparr>"

theorem call_ends_once_witness:
  "\<exists>result u fs oc d. call_ran demo_env demo_call None demo_trace 1 2 = (result, u)
     \<and> map snd (tz_facts u) = fs @ [Fact_Tool oc d] \<and> list_all (\<lambda>f. \<not> terminal_fact f) fs"
proof -
  obtain result u where ran: "call_ran demo_env demo_call None demo_trace 1 2 = (result, u)"
    by fastforce
  from call_ends_once [OF this [unfolded demo_trace_def]] obtain fs oc d c where
    "tz_facts u = map (Pair c) (fs @ [Fact_Tool oc d])" "list_all (\<lambda>f. \<not> terminal_fact f) fs"
    by blast
  with ran show ?thesis
    by (intro exI [of _ result] exI [of _ u] exI [of _ fs] exI [of _ oc] exI [of _ d]) (simp add: o_def)
qed

definition demo_read_call :: tool_call where
  "demo_read_call =
     \<lparr>tc_tool = ''read'', tc_args = JNull, tc_cwd = [], tc_answered = None,
      tc_revision = \<lparr>rv_file_revision = None, rv_file_recovery = None, rv_contract = None, rv_expected = None, rv_mutation = None\<rparr>\<rparr>"

theorem brokered_read_unprivileged_witness:
  "\<exists>r u. present_brokered demo_env demo_read_call (Read_Text (presentation demo_reading)) 0 demo_trace = (Inr r, u)
     \<and> ran_files r = FileMetadata_default"
proof -
  have "read_text_validate \<lparr>ra_path = ''p'', ra_offset = None, ra_limit = None\<rparr> (presentation demo_reading) = Inr ()"
    by (simp add: read_text_validate_def presentation_def demo_reading_def args_offset_def args_limit_def saturating_add_def
        usize_max_def RUNNING_MOST_def)
  then obtain r u where ran: "present_brokered demo_env demo_read_call (Read_Text (presentation demo_reading)) 0 demo_trace = (Inr r, u)"
    by (auto simp: present_brokered_def demo_env_def demo_engine_def demo_read_call_def revision_requested_def
        mutation_requested_def is_off_def tool_flag_def told_def file_brokered_def demo_tools_def ReadArgs_parse_def
        demo_args_of_def NUL_def)
  with brokered_read_unprivileged [OF this] show ?thesis
    by blast
qed

end
