(* ===== verification/Jail_Filter.thy ===== *)
theory Jail_Filter
  imports Casper_Prelude
begin

unbundle bit_operations_syntax

text \<open>
  The system calls a jailed command loses (\<open>jail.rs\<close>, \<open>jail/filter.rs\<close>): the rules of the three
  filters, on x86-64.  Compiling rules and running a filter are \<open>seccompiler\<close>'s and the kernel's;
  what is relied on is their documented meaning, named in the theorems.
\<close>

section \<open>System calls and rules\<close>

record syscall =
  sy_nr :: "32 word"
  sy_args :: "nat \<Rightarrow> 64 word"

definition low :: "syscall \<Rightarrow> nat \<Rightarrow> 32 word" where
  "low c i = ucast (sy_args c i)"

datatype cmp_op = Op_Ne | Op_Eq | Op_MaskedEq "64 word"

type_synonym condition = "nat \<times> cmp_op \<times> 64 word"
type_synonym seccomp_rules = "nat \<rightharpoonup> condition list list"

record sock_filter =
  sf_code :: "16 word"
  sf_jt :: "8 word"
  sf_jf :: "8 word"
  sf_k :: "32 word"

record 'p seccomp =
  sk_rule :: "condition list \<Rightarrow> bool"
  sk_compile :: "seccomp_rules \<Rightarrow> nat \<Rightarrow> 'p option"
  sk_load :: "sock_filter list \<Rightarrow> 'p"
  sk_verdict :: "'p \<Rightarrow> syscall \<Rightarrow> 32 word"

definition RET_ALLOW :: "32 word" where "RET_ALLOW = 0x7FFF0000"
definition RET_ERRNO :: "32 word" where "RET_ERRNO = 0x00050000"
definition EPERM :: nat where "EPERM = 1"
definition ENOSYS :: nat where "ENOSYS = 38"
definition EAFNOSUPPORT :: nat where "EAFNOSUPPORT = 97"

section \<open>The filters\<close>

definition SYS_socket :: nat where "SYS_socket = 41"
definition SYS_connect :: nat where "SYS_connect = 42"
definition SYS_sendto :: nat where "SYS_sendto = 44"
definition SYS_sendmsg :: nat where "SYS_sendmsg = 46"
definition SYS_socketpair :: nat where "SYS_socketpair = 53"
definition SYS_clone :: nat where "SYS_clone = 56"
definition SYS_personality :: nat where "SYS_personality = 135"
definition SYS_sendmmsg :: nat where "SYS_sendmmsg = 307"
definition SYS_clone3 :: nat where "SYS_clone3 = 435"

text \<open>
  \<open>ptrace\<close>, \<open>process_vm_readv\<close>, \<open>process_vm_writev\<close>, \<open>io_uring_setup\<close>, \<open>io_uring_enter\<close>, \<open>io_uring_register\<close>, \<open>keyctl\<close>,
  \<open>add_key\<close>, \<open>request_key\<close>, \<open>bpf\<close>, \<open>perf_event_open\<close>, \<open>userfaultfd\<close>, \<open>unshare\<close>, \<open>setns\<close>, \<open>mount\<close>, \<open>umount2\<close>,
  \<open>pivot_root\<close>, \<open>kexec_load\<close>, \<open>kexec_file_load\<close>, \<open>init_module\<close>, \<open>finit_module\<close> and \<open>delete_module\<close>.
\<close>

definition FORBIDDEN :: "nat list" where
  "FORBIDDEN =
     [101, 310, 311, 425, 426, 427, 250, 248, 249, 321, 298, 323, 272, 308, 165, 166, 155, 246, 320, 175, 313, 176]"

definition PERSONAS :: "64 word list" where
  "PERSONAS = [0, 0x8, 0x20000, 0x20008, 0xFFFFFFFF]"

definition UNREACHED :: "nat list" where
  "UNREACHED = [SYS_socket, SYS_connect, SYS_sendto, SYS_sendmsg, SYS_sendmmsg]"

definition CLONE_NEWUSER :: "64 word" where "CLONE_NEWUSER = 0x10000000"

definition AF_UNIX :: "64 word" where "AF_UNIX = 1"
definition AF_INET :: "64 word" where "AF_INET = 2"
definition AF_INET6 :: "64 word" where "AF_INET6 = 10"
definition AF_NETLINK :: "64 word" where "AF_NETLINK = 16"
definition NETLINK_ROUTE :: "64 word" where "NETLINK_ROUTE = 0"

definition NETWORK :: "64 word list" where
  "NETWORK = [AF_INET, AF_INET6, AF_NETLINK]"

text \<open>\<open>built\<close>: one rule that will not build leaves no filter; a later entry for a call replaces an earlier one.\<close>

definition built :: "'p seccomp \<Rightarrow> (nat \<times> condition list list) list \<Rightarrow> nat \<Rightarrow> 'p option" where
  "built S rules errno =
     (if list_all (\<lambda>(nr, rs). list_all (sk_rule S) rs) rules
      then sk_compile S (fold (\<lambda>(nr, rs) m. m(nr \<mapsto> rs)) rules Map.empty) errno
      else None)"

definition syscall_rules :: "bool \<Rightarrow> bool \<Rightarrow> (nat \<times> condition list list) list" where
  "syscall_rules reach native_control =
     [(SYS_clone, [[(0, Op_MaskedEq CLONE_NEWUSER, CLONE_NEWUSER)]]),
      (SYS_personality, [map (\<lambda>p. (0, Op_Ne, p)) PERSONAS])]
     @ map (\<lambda>nr. (nr, [])) FORBIDDEN
     @ (if reach then []
        else map (\<lambda>nr. (nr, if native_control \<and> nr = SYS_sendmsg then [[(0, Op_Ne, 0)]] else [])) UNREACHED)"

definition syscalls_filter :: "'p seccomp \<Rightarrow> bool \<Rightarrow> bool \<Rightarrow> 'p option" where
  "syscalls_filter S reach native_control = built S (syscall_rules reach native_control) EPERM"

definition family_rules :: "bool \<Rightarrow> (nat \<times> condition list list) list" where
  "family_rules unix =
     (let other = map (\<lambda>f. (0, Op_Ne, f)) (NETWORK @ (if unix then [AF_UNIX] else []));
          netlink = [(0, Op_Eq, AF_NETLINK), (2, Op_Ne, NETLINK_ROUTE)]
      in [(SYS_socket, [other, netlink]), (SYS_socketpair, [[(0, Op_Ne, AF_UNIX)]])])"

definition families_filter :: "'p seccomp \<Rightarrow> bool \<Rightarrow> 'p option" where
  "families_filter S unix = built S (family_rules unix) EAFNOSUPPORT"

definition BPF_LOAD_NR :: "16 word" where "BPF_LOAD_NR = 0x20"
definition BPF_JEQ :: "16 word" where "BPF_JEQ = 0x15"
definition BPF_JGE :: "16 word" where "BPF_JGE = 0x35"
definition BPF_RET :: "16 word" where "BPF_RET = 0x06"
definition BPF_X32 :: "32 word" where "BPF_X32 = 0x40000000"

definition bpf_at :: "16 word \<Rightarrow> 8 word \<Rightarrow> 8 word \<Rightarrow> 32 word \<Rightarrow> sock_filter" where
  "bpf_at opc jt jf k = \<lparr>sf_code = opc, sf_jt = jt, sf_jf = jf, sf_k = k\<rparr>"

definition absent_program :: "sock_filter list" where
  "absent_program =
     [bpf_at BPF_LOAD_NR 0 0 0,
      bpf_at BPF_JGE 2 0 BPF_X32,
      bpf_at BPF_JEQ 1 0 (of_nat SYS_clone3),
      bpf_at BPF_RET 0 0 RET_ALLOW,
      bpf_at BPF_RET 0 0 (RET_ERRNO OR of_nat ENOSYS)]"

text \<open>The bytes \<open>descriptor\<close> hands to the launcher for a program.\<close>

definition instruction_bytes :: "sock_filter \<Rightarrow> bytes" where
  "instruction_bytes i =
     to_le_bytes 2 (unat (sf_code i)) @ to_le_bytes 1 (unat (sf_jt i)) @ to_le_bytes 1 (unat (sf_jf i))
     @ to_le_bytes 4 (unat (sf_k i))"

definition descriptor_bytes :: "sock_filter list \<Rightarrow> bytes" where
  "descriptor_bytes program = concat (map instruction_bytes program)"

section \<open>What rules and programs mean\<close>

text \<open>
  A condition compares the low 32 bits of an argument (\<open>SeccompCmpArgLen::Dword\<close>); a rule matches when
  all its conditions do, and a call when one of its rules does or it has none.
\<close>

fun cond_holds :: "syscall \<Rightarrow> condition \<Rightarrow> bool" where
  "cond_holds c (i, Op_Ne, v) \<longleftrightarrow> low c i \<noteq> ucast v"
| "cond_holds c (i, Op_Eq, v) \<longleftrightarrow> low c i = ucast v"
| "cond_holds c (i, Op_MaskedEq m, v) \<longleftrightarrow> low c i AND ucast m = ucast v AND ucast m"

definition rules_match :: "seccomp_rules \<Rightarrow> syscall \<Rightarrow> bool" where
  "rules_match m c \<longleftrightarrow>
     (case m (unat (sy_nr c)) of
        None \<Rightarrow> False
      | Some rules \<Rightarrow> rules = [] \<or> list_ex (list_all (cond_holds c)) rules)"

text \<open>The classic BPF instructions of \<open>absent\<close>: load the call's number, two jumps and return.\<close>

function bpf_run :: "sock_filter list \<Rightarrow> syscall \<Rightarrow> 32 word \<Rightarrow> 32 word option" where
  "bpf_run [] c acc = None"
| "bpf_run (i # rest) c acc =
     (if sf_code i = BPF_LOAD_NR \<and> sf_k i = 0 then bpf_run rest c (sy_nr c)
      else if sf_code i = BPF_JEQ then bpf_run (drop (unat (if acc = sf_k i then sf_jt i else sf_jf i)) rest) c acc
      else if sf_code i = BPF_JGE then bpf_run (drop (unat (if acc \<ge> sf_k i then sf_jt i else sf_jf i)) rest) c acc
      else if sf_code i = BPF_RET then Some (sf_k i)
      else None)"
  by pat_completeness auto
termination
  by (relation "measure (\<lambda>(p, c, a). length p)") auto

definition seccomp_law :: "'p seccomp \<Rightarrow> bool" where
  "seccomp_law S \<longleftrightarrow>
     (\<forall>m e p c. sk_compile S m e = Some p \<longrightarrow>
        sk_verdict S p c = (if rules_match m c then RET_ERRNO OR of_nat e else RET_ALLOW))
     \<and> (\<forall>program c v. bpf_run program c 0 = Some v \<longrightarrow> sk_verdict S (sk_load S program) c = v)"

section \<open>The calls that are left\<close>

lemma last_rule_wins:
  "fold (\<lambda>(nr, rs) m. m(nr \<mapsto> rs)) rules m = m ++ map_of (rev rules)"
  by (induction rules arbitrary: m) (auto simp: map_add_def fun_eq_iff split: option.splits)

lemma built_meaning:
  assumes "seccomp_law S" "built S rules e = Some p" "distinct (map fst rules)"
  shows "sk_verdict S p c = RET_ALLOW \<longleftrightarrow>
    RET_ERRNO OR of_nat e = RET_ALLOW \<or> \<not> (\<exists>rs. (unat (sy_nr c), rs) \<in> set rules \<and> (rs = [] \<or> list_ex (list_all (cond_holds c)) rs))"
proof -
  have "map_of (rev rules) k = Some rs \<longleftrightarrow> map_of rules k = Some rs" for k rs
    using assms(3) map_of_eq_Some_iff [of rules] map_of_eq_Some_iff [of "rev rules"] by (simp add: rev_map [symmetric])
  then have look: "map_of (rev rules) k = map_of rules k" for k
    by (cases "map_of rules k") (metis not_None_eq)+
  have "sk_verdict S p c = (if rules_match (map_of (rev rules)) c then RET_ERRNO OR of_nat e else RET_ALLOW)"
    using assms(1,2) unfolding built_def seccomp_law_def by (auto simp: last_rule_wins split: if_splits)
  moreover have "rules_match (map_of (rev rules)) c \<longleftrightarrow>
      (\<exists>rs. (unat (sy_nr c), rs) \<in> set rules \<and> (rs = [] \<or> list_ex (list_all (cond_holds c)) rs))"
    unfolding rules_match_def look map_of_eq_Some_iff [OF assms(3), symmetric] by (auto split: option.splits)
  ultimately show ?thesis
    by auto
qed

text \<open>The calls the filters answer with an error, by number and arguments.\<close>

definition refused_call :: "bool \<Rightarrow> bool \<Rightarrow> bool \<Rightarrow> syscall \<Rightarrow> bool" where
  "refused_call reach native_control unix c \<longleftrightarrow>
     (let nr = unat (sy_nr c); a0 = low c 0 in
      sy_nr c \<ge> 0x40000000 \<or> nr = SYS_clone3 \<or> nr \<in> set FORBIDDEN
      \<or> nr = SYS_clone \<and> bit a0 28
      \<or> nr = SYS_personality \<and> a0 \<notin> {0, 0x8, 0x20000, 0x20008, 0xFFFFFFFF}
      \<or> \<not> reach \<and> nr \<in> set UNREACHED \<and> \<not> (native_control \<and> nr = SYS_sendmsg \<and> a0 = 0)
      \<or> nr = SYS_socket \<and> (a0 \<notin> {2, 10, 16} \<union> (if unix then {1} else {}) \<or> a0 = 16 \<and> low c 2 \<noteq> 0)
      \<or> nr = SYS_socketpair \<and> a0 \<noteq> 1)"

lemma absent_meaning:
  assumes "seccomp_law S"
  shows "sk_verdict S (sk_load S absent_program) c = RET_ALLOW \<longleftrightarrow> \<not> (sy_nr c \<ge> 0x40000000 \<or> unat (sy_nr c) = SYS_clone3)"
proof -
  have nr: "unat (sy_nr c) = SYS_clone3 \<longleftrightarrow> sy_nr c = 435"
    by (simp add: word_unat_eq_iff SYS_clone3_def)
  have "bpf_run absent_program c 0 =
      Some (if sy_nr c \<ge> 0x40000000 \<or> unat (sy_nr c) = SYS_clone3 then RET_ERRNO OR of_nat ENOSYS else RET_ALLOW)"
    unfolding nr by (auto simp: absent_program_def bpf_at_def BPF_LOAD_NR_def BPF_JEQ_def BPF_JGE_def BPF_RET_def BPF_X32_def SYS_clone3_def)
  moreover have "RET_ERRNO OR of_nat ENOSYS \<noteq> RET_ALLOW"
    by (simp add: RET_ERRNO_def ENOSYS_def RET_ALLOW_def)
  ultimately show ?thesis
    using assms unfolding seccomp_law_def by auto
qed

lemma newuser_bit: "(a :: 32 word) AND ucast CLONE_NEWUSER = ucast CLONE_NEWUSER \<longleftrightarrow> bit a 28"
proof -
  have mask: "(ucast CLONE_NEWUSER :: 32 word) = push_bit 28 1"
    by (simp add: CLONE_NEWUSER_def)
  show ?thesis
    unfolding mask bit_eq_iff bit_and_iff bit_push_bit_iff 
    by (auto simp: bit_1_iff dest: spec [of _ 28])
qed


definition hits :: "syscall \<Rightarrow> nat \<Rightarrow> (nat \<times> condition list list) list \<Rightarrow> bool" where
  "hits c nr rules \<longleftrightarrow> (\<exists>rs. (nr, rs) \<in> set rules \<and> (rs = [] \<or> list_ex (list_all (cond_holds c)) rs))"

lemma hits_Nil: "\<not> hits c nr []"
  by (simp add: hits_def)

lemma hits_append: "hits c nr (xs @ ys) \<longleftrightarrow> hits c nr xs \<or> hits c nr ys"
  by (auto simp: hits_def)

lemma hits_Cons: "hits c nr ((k, rs) # xs) \<longleftrightarrow> nr = k \<and> (rs = [] \<or> list_ex (list_all (cond_holds c)) rs) \<or> hits c nr xs"
  by (auto simp: hits_def)

lemma hits_each: "hits c nr (map (\<lambda>k. (k, g k)) ks) \<longleftrightarrow> nr \<in> set ks \<and> (g nr = [] \<or> list_ex (list_all (cond_holds c)) (g nr))"
  by (auto simp: hits_def)

lemma rules_distinct: "distinct (map fst (syscall_rules reach nc))" "distinct (map fst (family_rules unix))"
  by (simp_all add: syscall_rules_def family_rules_def Let_def FORBIDDEN_def UNREACHED_def SYS_clone_def SYS_personality_def
      SYS_socket_def SYS_connect_def SYS_sendto_def SYS_sendmsg_def SYS_sendmmsg_def SYS_socketpair_def)

text \<open>
  C6: the three filters together refuse exactly these calls: every call of the x32 table and \<open>clone3\<close>,
  the forbidden ones, \<open>clone\<close> into a new user namespace, unusual personas, sockets outside the network
  families (local ones only under the launcher, netlink only for routing), and, without a network
  grant, every call that reaches a socket, except that a native worker may send on descriptor 0.
\<close>

theorem jail_filters_exact:
  assumes "seccomp_law S"
    and "syscalls_filter S reach native_control = Some p" "families_filter S unix = Some q"
  shows "(\<forall>f \<in> {p, q, sk_load S absent_program}. sk_verdict S f c = RET_ALLOW) \<longleftrightarrow> \<not> refused_call reach native_control unix c"
proof -
  have errs: "RET_ERRNO OR of_nat EPERM \<noteq> RET_ALLOW" "RET_ERRNO OR of_nat EAFNOSUPPORT \<noteq> RET_ALLOW"
    by (simp_all add: RET_ERRNO_def EPERM_def EAFNOSUPPORT_def RET_ALLOW_def)
  have p: "sk_verdict S p c = RET_ALLOW \<longleftrightarrow>
      \<not> (\<exists>rs. (unat (sy_nr c), rs) \<in> set (syscall_rules reach native_control) \<and> (rs = [] \<or> list_ex (list_all (cond_holds c)) rs))"
    using built_meaning [OF assms(1) assms(2) [unfolded syscalls_filter_def] rules_distinct(1), of c] errs(1) by blast
  have q: "sk_verdict S q c = RET_ALLOW \<longleftrightarrow>
      \<not> (\<exists>rs. (unat (sy_nr c), rs) \<in> set (family_rules unix) \<and> (rs = [] \<or> list_ex (list_all (cond_holds c)) rs))"
    using built_meaning [OF assms(1) assms(3) [unfolded families_filter_def] rules_distinct(2), of c] errs(2) by blast
  have first: "(\<exists>rs. (unat (sy_nr c), rs) \<in> set (syscall_rules reach native_control) \<and> (rs = [] \<or> list_ex (list_all (cond_holds c)) rs))
    \<longleftrightarrow> unat (sy_nr c) \<in> set FORBIDDEN
      \<or> unat (sy_nr c) = SYS_clone \<and> bit (low c 0) 28
      \<or> unat (sy_nr c) = SYS_personality \<and> low c 0 \<notin> {0, 0x8, 0x20000, 0x20008, 0xFFFFFFFF}
      \<or> \<not> reach \<and> unat (sy_nr c) \<in> set UNREACHED \<and> \<not> (native_control \<and> unat (sy_nr c) = SYS_sendmsg \<and> low c 0 = 0)"
    unfolding hits_def [symmetric] syscall_rules_def hits_append hits_Cons hits_each
    by (cases reach) (auto simp: newuser_bit PERSONAS_def hits_each hits_Nil)
  have second: "(\<exists>rs. (unat (sy_nr c), rs) \<in> set (family_rules unix) \<and> (rs = [] \<or> list_ex (list_all (cond_holds c)) rs))
    \<longleftrightarrow> unat (sy_nr c) = SYS_socket \<and> (low c 0 \<notin> {2, 10, 16} \<union> (if unix then {1} else {}) \<or> low c 0 = 16 \<and> low c 2 \<noteq> 0)
      \<or> unat (sy_nr c) = SYS_socketpair \<and> low c 0 \<noteq> 1"
    by (auto simp: family_rules_def Let_def NETWORK_def AF_UNIX_def AF_INET_def AF_INET6_def AF_NETLINK_def NETLINK_ROUTE_def)
  show ?thesis
    unfolding refused_call_def Let_def ball_simps p q absent_meaning [OF assms(1)] first second by blast
qed

text \<open>A compiler that keeps the rules, and the kernel's reading of them.\<close>

definition demo_seccomp :: "(seccomp_rules \<times> nat + sock_filter list) seccomp" where
  "demo_seccomp = \<lparr>
     sk_rule = \<lambda>cs. cs \<noteq> [] \<and> list_all (\<lambda>(i, _). i < 6) cs,
     sk_compile = \<lambda>m e. Some (Inl (m, e)),
     sk_load = Inr,
     sk_verdict = \<lambda>p c. case p of
       Inl (m, e) \<Rightarrow> if rules_match m c then RET_ERRNO OR of_nat e else RET_ALLOW
     | Inr program \<Rightarrow> (case bpf_run program c 0 of Some v \<Rightarrow> v | None \<Rightarrow> 0)\<rparr>"

theorem jail_filters_exact_witness:
  "\<exists>p q. syscalls_filter demo_seccomp False True = Some p \<and> families_filter demo_seccomp False = Some q
     \<and> (\<forall>f \<in> {p, q, sk_load demo_seccomp absent_program}.
          sk_verdict demo_seccomp f \<lparr>sy_nr = 46, sy_args = \<lambda>_. 0\<rparr> = RET_ALLOW)"
proof -
  have law: "seccomp_law demo_seccomp"
    by (simp add: seccomp_law_def demo_seccomp_def)
  obtain p where p: "syscalls_filter demo_seccomp False True = Some p"
    by (simp add: syscalls_filter_def built_def demo_seccomp_def syscall_rules_def FORBIDDEN_def UNREACHED_def PERSONAS_def
        SYS_socket_def SYS_connect_def SYS_sendto_def SYS_sendmsg_def SYS_sendmmsg_def)
  obtain q where q: "families_filter demo_seccomp False = Some q"
    by (simp add: families_filter_def built_def demo_seccomp_def family_rules_def NETWORK_def)
  have "\<not> refused_call False True False \<lparr>sy_nr = 46, sy_args = \<lambda>_. 0\<rparr>"
    by (simp add: refused_call_def low_def SYS_clone3_def FORBIDDEN_def SYS_clone_def SYS_personality_def SYS_sendmsg_def
        SYS_socket_def SYS_socketpair_def)
  then show ?thesis
    using jail_filters_exact [OF law p q] p q by blast
qed

lemma instruction_bytes_inject: "instruction_bytes i = instruction_bytes j \<longleftrightarrow> i = j"
proof
  assume eq: "instruction_bytes i = instruction_bytes j"
  have length_eq: "length (to_le_bytes k n) = length (to_le_bytes k m)" for k n m
    by simp
  have bound: "unat (sf_code i) < 256 ^ 2" "unat (sf_jt i) < 256 ^ 1" "unat (sf_jf i) < 256 ^ 1" "unat (sf_k i) < 256 ^ 4" for i
    using unsigned_less [of "sf_code i"] unsigned_less [of "sf_jt i"] unsigned_less [of "sf_jf i"] unsigned_less [of "sf_k i"]
    by simp_all
  have parts: "to_le_bytes 2 (unat (sf_code i)) = to_le_bytes 2 (unat (sf_code j))"
    "to_le_bytes 1 (unat (sf_jt i)) = to_le_bytes 1 (unat (sf_jt j))"
    "to_le_bytes 1 (unat (sf_jf i)) = to_le_bytes 1 (unat (sf_jf j))"
    "to_le_bytes 4 (unat (sf_k i)) = to_le_bytes 4 (unat (sf_k j))"
    using eq [unfolded instruction_bytes_def] unfolding append_eq_append_conv [OF disjI1, OF length_eq] by blast+
  have "unat (sf_code i) = unat (sf_code j)" "unat (sf_jt i) = unat (sf_jt j)" "unat (sf_jf i) = unat (sf_jf j)"
    "unat (sf_k i) = unat (sf_k j)"
    using parts to_le_bytes_inject [OF bound(1) bound(1)] to_le_bytes_inject [OF bound(2) bound(2)]
      to_le_bytes_inject [OF bound(3) bound(3)] to_le_bytes_inject [OF bound(4) bound(4)] by blast+
  then show "i = j"
    by (cases i; cases j) (simp add: word_unat_eq_iff)
qed simp

text \<open>The launcher reads back the program it was handed.\<close>

lemma descriptor_bytes_inject: "descriptor_bytes p = descriptor_bytes q \<Longrightarrow> p = q"
proof (induction p arbitrary: q)
  case Nil
  then show ?case
    by (cases q) (auto simp: descriptor_bytes_def instruction_bytes_def to_le_bytes_numeral)
next
  case (Cons i p)
  then obtain j q' where q: "q = j # q'"
    by (cases q) (auto simp: descriptor_bytes_def instruction_bytes_def to_le_bytes_numeral)
  have "length (instruction_bytes i) = length (instruction_bytes j)"
    by (simp add: instruction_bytes_def)
  then have "instruction_bytes i = instruction_bytes j" "descriptor_bytes p = descriptor_bytes q'"
    using Cons.prems by (simp_all add: q descriptor_bytes_def)
  then show ?case
    using Cons.IH instruction_bytes_inject q by blast
qed

end
