(* ===== verification/Serving_Talk.thy ===== *)
theory Serving_Talk
  imports Wire Framing
begin

text \<open>
  One connection on the socket (\<open>serving/talking.rs\<close>): frames in, replies out.  Decoding a call,
  encoding a reply, the text of an I/O error and the surface that answers a call are parameters; the
  surface may depend on every call handed to it before.
\<close>

section \<open>The conversation\<close>

definition IDLE :: duration where "IDLE = 300 * 10 ^ 9"
definition MID_FRAME :: duration where "MID_FRAME = 30 * 10 ^ 9"

record keyed =
  keyed_key :: "string option"
  keyed_family :: "64 word option"
  keyed_context :: "json option"
  keyed_call :: call

definition newer :: "64 word option \<Rightarrow> reply option" where
  "newer family =
     (case family of
        None \<Rightarrow> None
      | Some f \<Rightarrow>
          if f > ucast FAMILY then
            Some (Reply_refused (''the call is written in family '' @ dec_text (unat f)
              @ '', newer than the '' @ dec_text (unat FAMILY) @ '' casper reads''))
          else None)"

record surface =
  sf_decode :: "bytes \<Rightarrow> string + keyed"
  sf_encode :: "wire_kind \<Rightarrow> reply \<Rightarrow> bytes io_result"
  sf_describe :: "io_kind \<Rightarrow> string"
  sf_handle :: "call list \<Rightarrow> json option \<Rightarrow> call \<Rightarrow> reply"

text \<open>The reply to one body, and the calls handed to the surface so far.\<close>

definition answer_body :: "surface \<Rightarrow> string \<Rightarrow> call list \<Rightarrow> bytes \<Rightarrow> reply \<times> call list" where
  "answer_body S k handled body =
     (case sf_decode S body of
        Inl why \<Rightarrow> (Reply_refused (''that is not a call: '' @ why), handled)
      | Inr keyed \<Rightarrow>
          (case newer (keyed_family keyed) of
             Some refused \<Rightarrow> (refused, handled)
           | None \<Rightarrow>
               if admits k (keyed_key keyed)
               then (sf_handle S handled (keyed_context keyed) (keyed_call keyed), handled @ [keyed_call keyed])
               else (Reply_refused KEY_REFUSED, handled)))"

text \<open>\<open>send\<close>: the body a reply goes out as, then the frame.\<close>

definition fitted :: "surface \<Rightarrow> wire_kind \<Rightarrow> reply \<Rightarrow> bytes io_result" where
  "fitted S w r =
     rbind (sf_encode S w r) (\<lambda>body.
     if length body > frame_most
     then sf_encode S w (Reply_failed (''the reply was '' @ dec_text (length body)
            @ '' bytes, over the family's cap of '' @ dec_text frame_most))
     else Inr body)"

definition send :: "surface \<Rightarrow> wire_kind \<Rightarrow> reply \<Rightarrow> sock \<Rightarrow> unit io_result \<times> sock" where
  "send S w r s =
     (case fitted S w r of
        Inl e \<Rightarrow> (Inl e, s)
      | Inr body \<Rightarrow> write_frame_by body MID_FRAME s)"

section \<open>Every turn of the loop uses up input\<close>

definition weight :: "sock \<Rightarrow> nat" where
  "weight s = length (stream s) + length (inbox s)"

lemma read_by_weight [simp]: "weight (read_by d s) = weight s"
  by (simp add: weight_def)

lemma arriving_cons: "arriving ((d, e) # rest) = (case e of Arrive bs \<Rightarrow> bs | _ \<Rightarrow> []) @ arriving rest"
  by (cases e) simp_all

lemma sock_read_weight:
  assumes "sock_read n s = (r, s')"
  shows "weight s' \<le> weight s" "\<And>g. r = Inr g \<Longrightarrow> g \<noteq> [] \<Longrightarrow> weight s' < weight s"
    "\<And>e. r = Inl e \<Longrightarrow> e \<noteq> WouldBlock \<Longrightarrow> weight s' < weight s" "suffix (stream s') (stream s)"
    "sent s' = sent s"
proof -
  show "weight s' \<le> weight s" "\<And>g. r = Inr g \<Longrightarrow> g \<noteq> [] \<Longrightarrow> weight s' < weight s"
    "\<And>e. r = Inl e \<Longrightarrow> e \<noteq> WouldBlock \<Longrightarrow> weight s' < weight s"
    using assms
    by (auto simp: sock_read_def weight_def stream_def Let_def arriving_cons
        split: list.splits if_splits read_event.splits)
  show "suffix (stream s') (stream s)"
    using assms
    by (auto simp: sock_read_def stream_def Let_def arriving_cons suffix_drop suffix_appendI
        split: list.splits if_splits read_event.splits)
  show "sent s' = sent s"
    using assms by simp
qed

lemma filled_weight:
  assumes "filled n deadline s = (r, s')"
  shows "weight s' \<le> weight s \<and> suffix (stream s') (stream s) \<and> sent s' = sent s"
proof -
  have step: "weight t \<le> weight s \<and> suffix (stream t) (stream s) \<and> sent t = sent s"
    if "sock_read n (read_by d s) = (x, t)" for n d s x t
    using sock_read_weight(1,4,5) [OF that] by simp
  from assms show ?thesis
    by (rule filled_run) (auto dest!: step intro: suffix_order.trans)
qed

lemma first_byte_weight:
  assumes "first_byte s = (r, s')"
  shows "weight s' \<le> weight s \<and> (\<forall>e. r = Inl e \<longrightarrow> e \<noteq> InvalidData \<or> weight s' < weight s)
    \<and> (\<forall>g. r = Inr g \<longrightarrow> weight s' < weight s) \<and> suffix (stream s') (stream s) \<and> sent s' = sent s"
  using assms
proof (induction s rule: first_byte.induct)
  case (1 s)
  obtain x t where read: "sock_read 1 s = (x, t)"
    by fastforce
  note facts = sock_read_weight [OF read]
  show ?case
  proof (cases x)
    case (Inl e)
    show ?thesis
    proof (cases "e = Interrupted")
      case True
      then have "first_byte t = (r, s')"
        using "1.prems" read Inl by (simp add: first_byte.simps [of s])
      then show ?thesis
        using "1.IH" [OF read [symmetric] Inl True] facts Inl True
        by (auto intro: suffix_order.trans)
    next
      case False
      then have "r = Inl (timed e)" "s' = t"
        using "1.prems" read Inl by (simp_all add: first_byte.simps [of s])
      then show ?thesis
        using facts Inl by (auto simp: timed_def split: if_splits)
    qed
  next
    case (Inr g)
    then show ?thesis
      using "1.prems" read facts by (auto simp: first_byte.simps [of s] split: if_splits)
  qed
qed

lemma read_body_weight:
  assumes "read_body want deadline body s = (r, s')"
  shows "weight s' \<le> weight s \<and> suffix (stream s') (stream s) \<and> sent s' = sent s"
  using assms
proof (induction want deadline body s rule: read_body.induct)
  case (1 want deadline body s)
  obtain x t where fill: "filled (min CHUNK (want - length body)) deadline s = (x, t)"
    by fastforce
  show ?case
    using "1.prems" "1.IH" [OF _ fill [symmetric]] fill filled_weight [OF fill]
    by (cases x) (auto simp: read_body.simps [of want deadline body s] intro: suffix_order.trans split: if_splits)
qed

lemma read_frame_by_weight:
  assumes "read_frame_by idle whole s = (r, s')"
  shows "r = Inr body \<or> r = Inl InvalidData \<Longrightarrow> weight s' < weight s"
    and "suffix (stream s') (stream s)" and "sent s' = sent s"
proof -
  obtain x t where first: "first_byte (read_by idle s) = (x, t)"
    by fastforce
  note one = first_byte_weight [OF first, simplified]
  have "(r = Inr body \<or> r = Inl InvalidData \<longrightarrow> weight s' < weight s) \<and> suffix (stream s') (stream s)
      \<and> sent s' = sent s"
  proof (cases x)
    case (Inl e)
    then show ?thesis
      using assms first one by (auto simp: read_frame_by_def)
  next
    case (Inr lead)
    obtain y u where fill: "filled 3 (now t + whole) t = (y, u)"
      by fastforce
    note two = filled_weight [OF fill]
    have "weight s' \<le> weight u \<and> suffix (stream s') (stream u) \<and> sent s' = sent u"
    proof (cases "\<exists>others. y = Inr others \<and> is_ok (sized (from_be_bytes (lead @ others)))")
      case True
      then obtain others v where "y = Inr others" "sized (from_be_bytes (lead @ others)) = Inr v"
        by (auto simp: is_ok_iff)
      then show ?thesis
        using assms first Inr fill read_body_weight
        by (auto simp: read_frame_by_def Let_def simp del: sized_ok)
    next
      case False
      then show ?thesis
        using assms first Inr fill
        by (auto simp: read_frame_by_def Let_def is_ok_iff simp del: sized_ok split: sum.splits)
    qed
    then show ?thesis
      using one two Inr by (auto intro: suffix_order.trans)
  qed
  then show "r = Inr body \<or> r = Inl InvalidData \<Longrightarrow> weight s' < weight s" "suffix (stream s') (stream s)"
    "sent s' = sent s"
    by auto
qed

lemma sock_write_inbox: "sock_write part s = (r, s') \<Longrightarrow> inbox s' = inbox s"
  by (auto simp: sock_write_def Let_def split: list.splits if_splits write_event.splits)

lemma write_part_inbox: "write_part deadline part s = (r, s') \<Longrightarrow> inbox s' = inbox s"
proof (induction deadline part s rule: write_part.induct)
  case (1 deadline part s)
  show ?case
  proof (cases "part = [] \<or> deadline \<le> now s")
    case True
    then show ?thesis
      using "1.prems" by (auto simp: write_part.simps [of deadline part s] left_def split: if_splits)
  next
    case False
    let ?s = "write_by (deadline - now s) s"
    obtain x t where put: "sock_write part ?s = (x, t)"
      by fastforce
    have "inbox t = inbox s"
      using sock_write_inbox [OF put] by (simp add: write_by_def)
    then show ?thesis
      using "1.prems" "1.IH" [of "deadline - now s" x t] False put
      by (cases x) (auto simp: write_part.simps [of deadline part s] left_def split: if_splits)
  qed
qed

lemma write_frame_by_inbox: "write_frame_by body whole s = (r, s') \<Longrightarrow> inbox s' = inbox s"
  by (auto simp: write_frame_by_def Let_def dest!: write_part_inbox split: sum.splits option.splits prod.splits)

lemma send_inbox: "send S w r s = (x, s') \<Longrightarrow> inbox s' = inbox s"
  by (auto simp: send_def dest: write_frame_by_inbox split: sum.splits)

lemma send_weight: "send S w r s = (x, s') \<Longrightarrow> weight s' = weight s \<and> stream s' = stream s"
  by (simp add: weight_def stream_def send_inbox)


section \<open>The loop\<close>

lemma turn_smaller:
  "(Inr body, s1) = read_frame_by idle whole s \<Longrightarrow> (x, s2) = send S w r s1 \<Longrightarrow> weight s2 < weight s"
  "(Inl InvalidData, s1) = read_frame_by idle whole s \<Longrightarrow> (x, s2) = send S w r s1 \<Longrightarrow> weight s2 < weight s"
  using read_frame_by_weight(1) send_weight by metis+

text \<open>
  \<open>talk\<close>, with the calls handed to the surface and the replies sent whole, in order.
\<close>

function talk ::
  "surface \<Rightarrow> string \<Rightarrow> call list \<Rightarrow> (wire_kind \<times> reply) list \<Rightarrow> sock
     \<Rightarrow> unit io_result \<times> (call list \<times> (wire_kind \<times> reply) list) \<times> sock" where
  "talk S k handled replied s =
     (case read_frame_by IDLE MID_FRAME s of
        (Inr body, s1) \<Rightarrow>
          (let (r, handled') = answer_body S k handled body in
           case send S (wire_of body) r s1 of
             (Inl e, s2) \<Rightarrow> (Inl e, (handled', replied), s2)
           | (Inr _, s2) \<Rightarrow> talk S k handled' (replied @ [(wire_of body, r)]) s2)
      | (Inl why, s1) \<Rightarrow>
          if why = UnexpectedEof then (Inr (), (handled, replied), s1)
          else if why = FileTooLarge then
            (let r = Reply_failed (sf_describe S why) in
             case send S Json r s1 of
               (Inl e, s2) \<Rightarrow> (Inl e, (handled, replied), s2)
             | (Inr _, s2) \<Rightarrow> (Inr (), (handled, replied @ [(Json, r)]), s2))
          else if why = InvalidData then
            (let r = Reply_refused (''that is not a call: '' @ sf_describe S why) in
             case send S Json r s1 of
               (Inl e, s2) \<Rightarrow> (Inl e, (handled, replied), s2)
             | (Inr _, s2) \<Rightarrow> talk S k handled (replied @ [(Json, r)]) s2)
          else (Inl why, (handled, replied), s1))"
  by pat_completeness auto
termination
  by (relation "measure (\<lambda>(S, k, handled, replied, s). weight s)") (auto intro: turn_smaller)

declare talk.simps [simp del]


section \<open>What a conversation does\<close>

definition admitted :: "surface \<Rightarrow> string \<Rightarrow> bytes \<Rightarrow> call \<Rightarrow> bool" where
  "admitted S k input c \<longleftrightarrow>
     (\<exists>body keyed. sublist (frame_of body) input \<and> sf_decode S body = Inr keyed
        \<and> keyed_key keyed = Some k \<and> keyed_call keyed = c
        \<and> (\<forall>f. keyed_family keyed = Some f \<longrightarrow> f \<le> ucast FAMILY))"

lemma admitted_mono: "admitted S k input c \<Longrightarrow> suffix input input' \<Longrightarrow> admitted S k input' c"
  unfolding admitted_def using sublist_order.order_trans [OF _ suffix_imp_sublist] by blast

definition out_frame :: "surface \<Rightarrow> wire_kind \<times> reply \<Rightarrow> bytes" where
  "out_frame S x = (case fitted S (fst x) (snd x) of Inl _ \<Rightarrow> [] | Inr body \<Rightarrow> frame_of body)"

definition fits :: "surface \<Rightarrow> wire_kind \<times> reply \<Rightarrow> bool" where
  "fits S x \<longleftrightarrow> (\<exists>body. fitted S (fst x) (snd x) = Inr body \<and> 1 \<le> length body \<and> length body \<le> frame_most)"

lemma send_ok:
  assumes "send S w r s = (Inr u, s')"
  shows "sent s' = sent s @ out_frame S (w, r) \<and> fits S (w, r) \<and> stream s' = stream s"
  using assms write_frame_by_frame send_weight [OF assms]
  by (auto simp: send_def out_frame_def fits_def split: sum.splits)

lemma answer_handled:
  assumes "answer_body S k handled body = (r, handled')" "sublist (frame_of body) input"
  shows "\<exists>calls. handled' = handled @ calls \<and> list_all (admitted S k input) calls"
proof (cases "handled' = handled")
  case False
  then obtain keyed where "sf_decode S body = Inr keyed" "newer (keyed_family keyed) = None"
    "admits k (keyed_key keyed)" "handled' = handled @ [keyed_call keyed]"
    using assms(1) by (auto simp: answer_body_def split: sum.splits option.splits if_splits)
  moreover from this have "\<forall>f. keyed_family keyed = Some f \<longrightarrow> f \<le> ucast FAMILY"
    by (auto simp: newer_def not_less split: option.splits if_splits)
  ultimately have "admitted S k input (keyed_call keyed)"
    using assms(2) by (auto simp: admitted_def admits_same)
  then show ?thesis
    using \<open>handled' = handled @ [keyed_call keyed]\<close> by auto
qed (auto intro: exI [of _ "[]"])

definition talked ::
  "surface \<Rightarrow> string \<Rightarrow> call list \<Rightarrow> (wire_kind \<times> reply) list \<Rightarrow> sock \<Rightarrow> unit io_result
     \<Rightarrow> call list \<times> (wire_kind \<times> reply) list \<Rightarrow> sock \<Rightarrow> bool" where
  "talked S k handled replied s r log s' \<longleftrightarrow>
     (\<exists>calls replies. log = (handled @ calls, replied @ replies)
        \<and> list_all (admitted S k (stream s)) calls \<and> list_all (fits S) replies
        \<and> (r = Inr () \<longrightarrow> sent s' = sent s @ concat (map (out_frame S) replies)))"

lemma talked_turn:
  assumes "talked S k (handled @ calls) (replied @ replies) t r log s'"
    and "list_all (admitted S k (stream s)) calls" "list_all (fits S) replies"
    and "suffix (stream t) (stream s)" "sent t = sent s @ concat (map (out_frame S) replies)"
  shows "talked S k handled replied s r log s'"
proof -
  obtain calls' replies' where "log = ((handled @ calls) @ calls', (replied @ replies) @ replies')"
    "list_all (admitted S k (stream t)) calls'" "list_all (fits S) replies'"
    "r = Inr () \<longrightarrow> sent s' = sent t @ concat (map (out_frame S) replies')"
    using assms(1) unfolding talked_def by blast
  moreover from this have "list_all (admitted S k (stream s)) calls'"
    using assms(4) admitted_mono by (metis (no_types, lifting) list.pred_mono_strong)
  ultimately show ?thesis
    unfolding talked_def using assms(2,3,5)
    by (intro exI [of _ "calls @ calls'"] exI [of _ "replies @ replies'"]) auto
qed

lemma talked_stop: "r \<noteq> Inr () \<or> sent s' = sent s \<Longrightarrow> talked S k handled replied s r (handled, replied) s'"
  unfolding talked_def by (intro exI [of _ "[]"]) auto

lemma talk_talked:
  "talk S k handled replied s = (r, log, s') \<Longrightarrow> talked S k handled replied s r log s'"
proof (induction S k handled replied s rule: talk.induct)
  case (1 S k handled replied s)
  obtain x s1 where read: "read_frame_by IDLE MID_FRAME s = (x, s1)"
    by fastforce
  note kept = read_frame_by_weight(2,3) [OF read]
  show ?case
  proof (cases x)
    case (Inr body)
    obtain rep handled' where ans: "answer_body S k handled body = (rep, handled')"
      by fastforce
    have "stream s = frame_of body @ stream s1"
      using read_frame_by_takes [of IDLE MID_FRAME s body s1] read Inr by (simp add: frame_of_def)
    then have "sublist (frame_of body) (stream s)"
      by (simp add: sublist_append_rightI)
    then obtain calls where calls: "handled' = handled @ calls" "list_all (admitted S k (stream s)) calls"
      using answer_handled [OF ans] by blast
    obtain y s2 where snd: "send S (wire_of body) rep s1 = (y, s2)"
      by fastforce
    show ?thesis
    proof (cases y)
      case (Inl e)
      then have "r = Inl e" "log = (handled', replied)"
        using "1.prems" read Inr ans snd by (simp_all add: talk.simps [of S k handled replied s] Let_def)
      then show ?thesis
        unfolding talked_def using calls by (intro exI [of _ calls] exI [of _ "[]"]) auto
    next
      case (Inr u)
      then have "talk S k handled' (replied @ [(wire_of body, rep)]) s2 = (r, log, s')"
        using "1.prems" read \<open>x = Inr body\<close> ans snd by (simp add: talk.simps [of S k handled replied s] Let_def)
      then have "talked S k (handled @ calls) (replied @ [(wire_of body, rep)]) s2 r log s'"
        using "1.IH"(2) [OF read [symmetric] \<open>x = Inr body\<close>] ans snd [symmetric] Inr calls by simp
      then show ?thesis
        by (rule talked_turn) (use send_ok [of S "wire_of body" rep s1 u s2] snd Inr calls kept in auto)
    qed
  next
    case (Inl why)
    consider "why = UnexpectedEof" | "why = FileTooLarge" | "why = InvalidData"
      | "why \<noteq> UnexpectedEof" "why \<noteq> FileTooLarge" "why \<noteq> InvalidData"
      by blast
    then show ?thesis
    proof cases
      case 1
      then show ?thesis
        using "1.prems" read Inl kept by (auto simp: talk.simps [of S k handled replied s] Let_def intro: talked_stop)
    next
      case 2
      let ?r = "Reply_failed (sf_describe S why)"
      obtain y s2 where snd: "send S Json ?r s1 = (y, s2)"
        by fastforce
      show ?thesis
      proof (cases y)
        case (Inl e)
        then show ?thesis
          using "1.prems" read \<open>x = Inl why\<close> 2 snd by (auto simp: talk.simps [of S k handled replied s] Let_def intro: talked_stop)
      next
        case (Inr u)
        then have fin: "r = Inr ()" "log = (handled, replied @ [(Json, ?r)])" "s' = s2"
          using "1.prems" read \<open>x = Inl why\<close> 2 snd by (auto simp: talk.simps [of S k handled replied s] Let_def)
        then show ?thesis
          unfolding talked_def using send_ok [of S Json ?r s1 u s2] snd Inr kept
          by (intro exI [of _ "[]"] exI [of _ "[(Json, ?r)]"]) auto
      qed
    next
      case 3
      let ?r = "Reply_refused (''that is not a call: '' @ sf_describe S why)"
      obtain y s2 where snd: "send S Json ?r s1 = (y, s2)"
        by fastforce
      show ?thesis
      proof (cases y)
        case (Inl e)
        then show ?thesis
          using "1.prems" read \<open>x = Inl why\<close> 3 snd by (auto simp: talk.simps [of S k handled replied s] Let_def intro: talked_stop)
      next
        case (Inr u)
        then have "talk S k handled (replied @ [(Json, ?r)]) s2 = (r, log, s')"
          using "1.prems" read \<open>x = Inl why\<close> 3 snd by (simp add: talk.simps [of S k handled replied s] Let_def)
        then have "talked S k (handled @ []) (replied @ [(Json, ?r)]) s2 r log s'"
          using "1.IH"(1) [OF read [symmetric] \<open>x = Inl why\<close>] 3 snd [symmetric] Inr by simp
        then show ?thesis
          by (rule talked_turn) (use send_ok [of S Json ?r s1 u s2] snd Inr kept in auto)
      qed
    next
      case 4
      then show ?thesis
        using "1.prems" read Inl by (auto simp: talk.simps [of S k handled replied s] Let_def intro: talked_stop)
    qed
  qed
qed


text \<open>
  C30: a call reaches the surface only when a whole frame of the connection carried it together with
  the key \<open>serve\<close> was started with, in a family revision casper reads.
\<close>

theorem talk_serves_only_keyed:
  assumes "talk S k [] [] s = (r, (handled, replied), s')" "c \<in> set handled"
  shows "\<exists>body keyed. sublist (frame_of body) (stream s) \<and> sf_decode S body = Inr keyed
    \<and> keyed_key keyed = Some k \<and> keyed_call keyed = c
    \<and> (\<forall>f. keyed_family keyed = Some f \<longrightarrow> f \<le> ucast FAMILY)"
proof -
  have "list_all (admitted S k (stream s)) handled"
    using talk_talked [OF assms(1)] by (auto simp: talked_def)
  then show ?thesis
    using assms(2) by (simp add: list_all_iff admitted_def)
qed

text \<open>
  a conversation that ends well has written its replies as whole frames, one after the other and
  in order, and no frame exceeds the cap of the family whatever the surface answered.
\<close>

theorem talk_replies_whole:
  assumes "talk S k [] [] s = (Inr (), (handled, replied), s')"
  shows "sent s' = sent s @ concat (map (out_frame S) replied)
    \<and> (\<forall>x \<in> set replied. \<exists>body. fitted S (fst x) (snd x) = Inr body \<and> out_frame S x = frame_of body
         \<and> 1 \<le> length body \<and> length body \<le> frame_most)"
proof -
  have "list_all (fits S) replied" "sent s' = sent s @ concat (map (out_frame S) replied)"
    using talk_talked [OF assms] by (auto simp: talked_def)
  then show ?thesis
    by (fastforce simp: list_all_iff fits_def out_frame_def)
qed


section \<open>A short conversation\<close>

definition demo_surface :: surface where
  "demo_surface = \<lparr>sf_decode = \<lambda>body. Inr \<lparr>keyed_key = Some ''k'', keyed_family = Some 1, keyed_context = None,
       keyed_call = \<lparr>call_name = ''tools'', call_args = []\<rparr>\<rparr>,
     sf_encode = \<lambda>w r. Inr ''ok'', sf_describe = \<lambda>k. [], sf_handle = \<lambda>hs ctx c. Reply_done\<rparr>"

definition demo_peer :: sock where
  "demo_peer = \<lparr>now = 0, read_timeout = None, write_timeout = None,
     inbox = [(0, Arrive (to_be_bytes 4 2 @ ''hi''))], outbox = [(0, Takes 10), (0, Takes 10)], sent = []\<rparr>"

lemma demo_peer_read:
  "read_frame_by IDLE MID_FRAME demo_peer = (Inr ''hi'',
     \<lparr>now = 0, read_timeout = Some MID_FRAME, write_timeout = None, inbox = [],
      outbox = [(0, Takes 10), (0, Takes 10)], sent = []\<rparr>)"
  by (simp add: framing_eval demo_peer_def MID_FRAME_def IDLE_def)

lemma demo_peer_send:
  "\<exists>t. send demo_surface Json Reply_done
     \<lparr>now = 0, read_timeout = Some MID_FRAME, write_timeout = None, inbox = [],
      outbox = [(0, Takes 10), (0, Takes 10)], sent = []\<rparr> = (Inr (), t) \<and> inbox t = []"
  by (simp add: framing_eval send_def fitted_def demo_surface_def MID_FRAME_def)

lemma demo_closed: "inbox t = [] \<Longrightarrow> \<exists>u. read_frame_by IDLE MID_FRAME t = (Inl UnexpectedEof, u)"
  by (simp add: read_frame_by_def first_byte.simps sock_read_def)

lemma demo_conversation:
  "\<exists>s'. talk demo_surface ''k'' [] [] demo_peer =
     (Inr (), ([\<lparr>call_name = ''tools'', call_args = []\<rparr>], [(Json, Reply_done)]), s')"
proof -
  have answer_body: "answer_body demo_surface ''k'' [] ''hi'' = (Reply_done, [\<lparr>call_name = ''tools'', call_args = []\<rparr>])"
    by (simp add: answer_body_def demo_surface_def newer_def FAMILY_def admits_same)
  have wire: "wire_of ''hi'' = Json"
    by (simp add: wire_of_def is_ascii_whitespace_def code_def)
  obtain t where t: "send demo_surface Json Reply_done
     \<lparr>now = 0, read_timeout = Some MID_FRAME, write_timeout = None, inbox = [],
      outbox = [(0, Takes 10), (0, Takes 10)], sent = []\<rparr> = (Inr (), t)" "inbox t = []"
    using demo_peer_send by blast
  obtain u where "read_frame_by IDLE MID_FRAME t = (Inl UnexpectedEof, u)"
    using demo_closed [OF t(2)] by blast
  then show ?thesis
    by (subst talk.simps) (simp add: demo_peer_read answer_body wire t(1) talk.simps [of _ _ _ _ t])
qed

theorem talk_serves_only_keyed_witness:
  "\<exists>r handled replied s'. talk demo_surface ''k'' [] [] demo_peer = (r, (handled, replied), s') \<and> handled \<noteq> []
     \<and> (\<exists>body keyed. sublist (frame_of body) (stream demo_peer) \<and> sf_decode demo_surface body = Inr keyed
          \<and> keyed_key keyed = Some ''k'')"
proof -
  obtain s' where run: "talk demo_surface ''k'' [] [] demo_peer =
      (Inr (), ([\<lparr>call_name = ''tools'', call_args = []\<rparr>], [(Json, Reply_done)]), s')"
    using demo_conversation by blast
  show ?thesis
    using run talk_serves_only_keyed [OF run list.set_intros(1)] by auto
qed

theorem talk_replies_whole_witness:
  "\<exists>s' log. talk demo_surface ''k'' [] [] demo_peer = (Inr (), log, s')
     \<and> sent s' = sent demo_peer @ out_frame demo_surface (Json, Reply_done)"
proof -
  obtain s' where run: "talk demo_surface ''k'' [] [] demo_peer =
      (Inr (), ([\<lparr>call_name = ''tools'', call_args = []\<rparr>], [(Json, Reply_done)]), s')"
    using demo_conversation by blast
  show ?thesis
    using run talk_replies_whole [OF run] by auto
qed

end
