(* ===== verification/Paths.thy ===== *)
theory Paths
  imports Casper_Prelude "HOL-Library.Sublist"
begin

text \<open>
  \<open>std::path\<close> on Unix, as far as the program uses it: the components of a path, and the tests that
  compare paths component by component rather than byte by byte.
\<close>

datatype component = RootDir | CurDir | ParentDir | Normal string

text \<open>\<open>str::split\<close> at one byte: the pieces between the separators, empty ones included.\<close>

fun split_at :: "byte \<Rightarrow> bytes \<Rightarrow> bytes list" where
  "split_at sep [] = [[]]"
| "split_at sep (b # bs) =
     (if b = sep then [] # split_at sep bs
      else case split_at sep bs of
        [] \<Rightarrow> [[b]]
      | part # parts \<Rightarrow> (b # part) # parts)"

definition slash :: byte where "slash = CHR ''/''"

definition is_absolute :: "string \<Rightarrow> bool" where
  "is_absolute p \<longleftrightarrow> p \<noteq> [] \<and> hd p = slash"

definition component_of :: "string \<Rightarrow> component" where
  "component_of part = (if part = ''..'' then ParentDir else Normal part)"

text \<open>
  \<open>Path::components\<close>: empty pieces and every \<open>.\<close> but a leading one disappear.
\<close>

definition components :: "string \<Rightarrow> component list" where
  "components p =
     (let parts = split_at slash p;
          rest = map component_of (filter (\<lambda>part. part \<noteq> [] \<and> part \<noteq> ''.'') parts)
      in if is_absolute p then RootDir # rest
         else if hd parts = ''.'' then CurDir # rest
         else rest)"

text \<open>\<open>Path\<close> equality and \<open>Path::starts_with\<close>.\<close>

definition path_eq :: "string \<Rightarrow> string \<Rightarrow> bool" where
  "path_eq p q \<longleftrightarrow> components p = components q"

definition path_starts_with :: "string \<Rightarrow> string \<Rightarrow> bool" where
  "path_starts_with p base \<longleftrightarrow> prefix (components base) (components p)"

text \<open>\<open>Path::join\<close>: an absolute path replaces what it is joined to.\<close>

definition path_join :: "string \<Rightarrow> string \<Rightarrow> string" where
  "path_join base p =
     (if is_absolute p then p
      else if base = [] \<or> last base = slash then base @ p
      else base @ [slash] @ p)"

lemma split_at_nonempty [simp]: "split_at sep bs \<noteq> []"
  by (induction sep bs rule: split_at.induct) (auto split: list.splits)

lemma split_at_parts: "part \<in> set (split_at sep bs) \<Longrightarrow> sep \<notin> set part"
proof (induction sep bs arbitrary: part rule: split_at.induct)
  case (2 sep b bs)
  then show ?case
    by (auto split: if_splits list.splits)
qed simp

lemma split_at_append:
  "sep \<notin> set xs \<Longrightarrow> split_at sep (xs @ sep # ys) = xs # split_at sep ys"
  by (induction xs) auto

lemma split_at_single: "sep \<notin> set xs \<Longrightarrow> split_at sep xs = [xs]"
  by (induction xs) auto

lemma split_at_join:
  "split_at sep (xs @ sep # ys) = split_at sep xs @ split_at sep ys"
proof (induction xs)
  case (Cons x xs)
  then show ?case
    by (cases "split_at sep xs") auto
qed simp

lemma components_join:
  assumes "components base \<noteq> []" "\<not> is_absolute p" "hd (split_at slash p) \<noteq> ''.''"
  shows "components (path_join base p) = components base @ components p"
proof -
  have base: "base \<noteq> []"
    using assms(1) by (auto simp: components_def is_absolute_def)
  show ?thesis
  proof (cases "last base = slash")
    case True
    then obtain front where front: "base = front @ [slash]"
      using base by (metis append_butlast_last_id)
    then have joined: "path_join base p = front @ slash # p"
      using assms(2) by (simp add: path_join_def)
    have "hd (split_at slash (front @ slash # p)) = hd (split_at slash base)"
      unfolding front split_at_join by simp
    moreover have "is_absolute (front @ slash # p) = is_absolute base"
      by (cases front) (simp_all add: is_absolute_def front)
    ultimately show ?thesis
      unfolding joined using assms(2,3)
      by (simp add: components_def Let_def split_at_join front)
  next
    case False
    then have joined: "path_join base p = base @ slash # p"
      using assms(2) base by (simp add: path_join_def)
    have "is_absolute (base @ slash # p) = is_absolute base"
      using base by (simp add: is_absolute_def)
    then show ?thesis
      unfolding joined using assms(2,3)
      by (simp add: components_def Let_def split_at_join)
  qed
qed

end
