(* ===== verification/Serving.thy ===== *)
theory Serving
  imports Serving_Talk Paths Kernel Utf8
begin

text \<open>
  The socket door (\<open>serving.rs\<close>): where sockets may live, how one is bound, and how connections are
  accepted.  The file system is a parameter, asked through a recorded history of calls.
\<close>

section \<open>The host\<close>

datatype file_type = Directory | Socket | Other_file

record lmeta =
  lm_type :: file_type
  lm_uid :: "32 word"
  lm_mode :: "32 word"
  lm_dev :: "64 word"
  lm_ino :: "64 word"

datatype host_call =
    Make_dir string
  | Lstat string
  | Open_lock string
  | Lock string
  | Connect string
  | Remove_file string
  | Bind string

type_synonym host_log = "(host_call \<times> bool) list"

record host =
  h_make_dir :: "host_log \<Rightarrow> string \<Rightarrow> error + unit"
  h_lstat :: "host_log \<Rightarrow> string \<Rightarrow> error + lmeta"
  h_metadata :: "string \<Rightarrow> error + lmeta"
  h_open_lock :: "host_log \<Rightarrow> string \<Rightarrow> error + unit"
  h_lock :: "host_log \<Rightarrow> string \<Rightarrow> error + unit"
  h_refused :: "host_log \<Rightarrow> string \<Rightarrow> bool"
  h_remove :: "host_log \<Rightarrow> string \<Rightarrow> error + unit"
  h_bind :: "host_log \<Rightarrow> string \<Rightarrow> error + unit"
  h_uid :: "32 word"
  h_temp :: string

type_synonym 'a hosted = "(host_log, error, 'a) prog"

definition host_ask :: "host_call \<Rightarrow> (host_log \<Rightarrow> error + 'a) \<Rightarrow> 'a hosted" where
  "host_ask c answer log = (let r = answer log in (r, log @ [(c, is_ok r)]))"

lemma host_ask_ok [sys_ok]:
  "host_ask c answer log = (Inr a, log') \<longleftrightarrow> answer log = Inr a \<and> log' = log @ [(c, True)]"
  by (auto simp: host_ask_def Let_def)

section \<open>Where sockets may live\<close>

definition no_others :: "32 word \<Rightarrow> bool" where
  "no_others mode \<longleftrightarrow> mode AND 0x3F = 0"

definition trusted :: "host \<Rightarrow> string option \<Rightarrow> string option" where
  "trusted H wanted =
     (case wanted of
        None \<Rightarrow> None
      | Some dir \<Rightarrow>
          if dir = [] then None
          else case h_metadata H dir of
            Inl _ \<Rightarrow> None
          | Inr m \<Rightarrow>
              if is_absolute dir \<and> lm_type m = Directory \<and> lm_uid m = h_uid H \<and> no_others (lm_mode m)
              then Some dir else None)"

definition runtime :: "host \<Rightarrow> string option \<Rightarrow> string" where
  "runtime H wanted =
     (case trusted H wanted of
        None \<Rightarrow> path_join (h_temp H) (''casper-'' @ dec_text (unat (h_uid H)))
      | Some dir \<Rightarrow> path_join dir ''casper'')"

definition plain_component :: "component \<Rightarrow> bool" where
  "plain_component c = (case c of RootDir \<Rightarrow> True | Normal _ \<Rightarrow> True | _ \<Rightarrow> False)"

definition within :: "string \<Rightarrow> string \<Rightarrow> bool" where
  "within root p \<longleftrightarrow>
     path_starts_with p root \<and> \<not> path_eq p root \<and> list_all plain_component (components p)"

definition inside :: "host \<Rightarrow> string option \<Rightarrow> string \<Rightarrow> bool" where
  "inside H wanted p \<longleftrightarrow> within (runtime H wanted) p"

section \<open>Binding\<close>

definition display :: "string \<Rightarrow> string" where
  "display p = from_utf8_lossy p"

definition private_meta :: "host \<Rightarrow> lmeta \<Rightarrow> bool" where
  "private_meta H m \<longleftrightarrow> lm_type m = Directory \<and> lm_uid m = h_uid H \<and> no_others (lm_mode m)"

definition private_dir :: "host \<Rightarrow> string \<Rightarrow> unit hosted" where
  "private_dir H dir =
     stry (host_ask (Make_dir dir) (\<lambda>log. h_make_dir H log dir)) (\<lambda>made.
     sbind (case made of
              Inr _ \<Rightarrow> sreturn ()
            | Inl why \<Rightarrow> if fst why = AlreadyExists then sreturn () else sfail why) (\<lambda>_.
     sbind (host_ask (Lstat dir) (\<lambda>log. h_lstat H log dir)) (\<lambda>m.
     scheck (private_meta H m)
       (OtherKind, display dir @ '' is not a private directory of this user's''))))"

fun component_text :: "component \<Rightarrow> string" where
  "component_text RootDir = ''/''"
| "component_text CurDir = ''.''"
| "component_text ParentDir = ''..''"
| "component_text (Normal n) = n"

text \<open>The directories from the root down to the parent of the socket, each made and checked.\<close>

fun private_below :: "host \<Rightarrow> string \<Rightarrow> component list \<Rightarrow> unit hosted" where
  "private_below H dir [] = sreturn ()"
| "private_below H dir (part # parts) =
     (let dir = path_join dir (component_text part) in
      sbind (private_dir H dir) (\<lambda>_. private_below H dir parts))"

text \<open>\<open>stale\<close>: a connection refused outright; a socket that cannot be made counts as not stale.\<close>

definition stale :: "host \<Rightarrow> string \<Rightarrow> bool hosted" where
  "stale H at = host_ask (Connect at) (\<lambda>log. Inr (h_refused H log at))"

definition clear_path :: "host \<Rightarrow> string \<Rightarrow> unit hosted" where
  "clear_path H at =
     stry (host_ask (Lstat at) (\<lambda>log. h_lstat H log at)) (\<lambda>found.
     case found of
       Inr m \<Rightarrow>
         if lm_type m \<noteq> Socket \<or> lm_uid m \<noteq> h_uid H then
           sfail (OtherKind, display at @ '' is not a socket of this user's, and is left where it is'')
         else
           sbind (stale H at) (\<lambda>dead.
           if \<not> dead then sfail (OtherKind, display at @ '' is answered by a live program'')
           else host_ask (Remove_file at) (\<lambda>log. h_remove H log at))
     | Inl why \<Rightarrow> if fst why = NotFound then sreturn () else sfail why)"

record listening =
  l_path :: string
  l_bound :: "64 word \<times> 64 word"

definition lock_name :: "string \<Rightarrow> string" where
  "lock_name at = at @ ''.lock''"

definition take_lock :: "host \<Rightarrow> string \<Rightarrow> unit hosted" where
  "take_lock H at =
     stry (host_ask (Lock (lock_name at)) (\<lambda>log. h_lock H log (lock_name at))) (\<lambda>locked.
     scheck (is_ok locked) (OtherKind, ''another serve holds '' @ display (lock_name at)))"

definition listening_in :: "host \<Rightarrow> string \<Rightarrow> string \<Rightarrow> listening hosted" where
  "listening_in H root at =
     sbind (scheck (within root at) (OtherKind, display at @ '' is not under '' @ display root)) (\<lambda>_.
     sbind (private_dir H root) (\<lambda>_.
     sbind (private_below H root (drop (length (components root)) (butlast (components at)))) (\<lambda>_.
     sbind (host_ask (Open_lock (lock_name at)) (\<lambda>log. h_open_lock H log (lock_name at))) (\<lambda>_.
     sbind (take_lock H at) (\<lambda>_.
     sbind (clear_path H at) (\<lambda>_.
     sbind (host_ask (Bind at) (\<lambda>log. h_bind H log at)) (\<lambda>_.
     sbind (host_ask (Lstat at) (\<lambda>log. h_lstat H log at)) (\<lambda>m.
     sreturn \<lparr>l_path = at, l_bound = (lm_dev m, lm_ino m)\<rparr>))))))))"

text \<open>\<open>Drop for Listening\<close>.\<close>

definition listening_drop :: "host \<Rightarrow> listening \<Rightarrow> unit hosted" where
  "listening_drop H l =
     stry (host_ask (Lstat (l_path l)) (\<lambda>log. h_lstat H log (l_path l))) (\<lambda>found.
     case found of
       Inr m \<Rightarrow>
         if (lm_dev m, lm_ino m) = l_bound l then
           stry (host_ask (Remove_file (l_path l)) (\<lambda>log. h_remove H log (l_path l))) (\<lambda>_. sreturn ())
         else sreturn ()
     | Inl _ \<Rightarrow> sreturn ())"

section \<open>What a bind touches\<close>

lemma within_components:
  assumes "within root p"
  obtains rest where "components p = components root @ rest" "rest \<noteq> []"
    "list_all plain_component rest"
proof -
  obtain rest where rest: "components p = components root @ rest"
    using assms by (auto simp: within_def path_starts_with_def prefix_def)
  moreover have "rest \<noteq> []"
    using assms rest by (auto simp: within_def path_eq_def)
  ultimately show ?thesis
    using assms that by (auto simp: within_def)
qed

text \<open>
  \<open>before Q P m\<close>: from a log that satisfies \<open>Q\<close>, every call \<open>m\<close> adds satisfies \<open>P\<close> of the log before it.
\<close>

definition before :: "(host_log \<Rightarrow> bool) \<Rightarrow> (host_log \<Rightarrow> host_call \<times> bool \<Rightarrow> bool) \<Rightarrow> 'a hosted \<Rightarrow> bool" where
  "before Q P m \<longleftrightarrow>
     (\<forall>log. Q log \<longrightarrow> (\<exists>es. snd (m log) = log @ es \<and> (\<forall>i < length es. P (log @ take i es) (es ! i))))"

lemma before_stop [simp]:
  "before Q P (sreturn a)" "before Q P (sfail e)" "before Q P (slift r)" "before Q P (scheck c e)"
  by (simp_all add: before_def sreturn_def sfail_def slift_def scheck_def)

lemma before_ask: "(\<And>log ok. Q log \<Longrightarrow> P log (c, ok)) \<Longrightarrow> before Q P (host_ask c answer)"
  by (auto simp: before_def host_ask_def Let_def)

lemma before_try:
  assumes m: "before Q P m" and f: "\<And>x log log'. Q log \<Longrightarrow> m log = (x, log') \<Longrightarrow> before (\<lambda>l. l = log') P (f x)"
  shows "before Q P (stry m f)"
  unfolding before_def
proof (intro allI impI)
  fix log assume start: "Q log"
  obtain x log1 where run: "m log = (x, log1)"
    by fastforce
  obtain es where es: "log1 = log @ es" "\<forall>i < length es. P (log @ take i es) (es ! i)"
    using m run start unfolding before_def by (metis snd_conv)
  obtain fs where fs: "snd (f x log1) = log1 @ fs" "\<forall>i < length fs. P (log1 @ take i fs) (fs ! i)"
    using f [OF start run] unfolding before_def by blast
  have "P (log @ take i (es @ fs)) ((es @ fs) ! i)" if "i < length (es @ fs)" for i
  proof (cases "i < length es")
    case True
    then show ?thesis
      using es by (simp add: nth_append)
  next
    case False
    then have "P (log1 @ take (i - length es) fs) (fs ! (i - length es))"
      using fs(2) that by (metis add_diff_inverse_nat length_append nat_add_left_cancel_less)
    then show ?thesis
      using False es(1) by (simp add: nth_append)
  qed
  then show "\<exists>es. snd (stry m f log) = log @ es \<and> (\<forall>i < length es. P (log @ take i es) (es ! i))"
    using run es(1) fs(1) by (intro exI [of _ "es @ fs"]) (auto simp: stry_def)
qed

lemma before_bind:
  assumes "before Q P m" "\<And>a log log'. Q log \<Longrightarrow> m log = (Inr a, log') \<Longrightarrow> before (\<lambda>l. l = log') P (f a)"
  shows "before Q P (sbind m f)"
  unfolding sbind_as_stry using assms by (intro before_try) (auto split: sum.splits)

lemma before_weaken: "before Q P m \<Longrightarrow> (\<And>log. R log \<Longrightarrow> Q log) \<Longrightarrow> before R P m"
  by (auto simp: before_def)

definition safe_removal :: "host \<Rightarrow> string \<Rightarrow> host_log \<Rightarrow> host_call \<times> bool \<Rightarrow> bool" where
  "safe_removal H at log e \<longleftrightarrow>
     (\<forall>p ok. e = (Remove_file p, ok) \<longrightarrow>
        p = at \<and> (\<exists>l m. log = l @ [(Lstat at, True), (Connect at, True)] \<and> h_lstat H l at = Inr m
          \<and> lm_type m = Socket \<and> lm_uid m = h_uid H \<and> h_refused H (l @ [(Lstat at, True)]) at
          \<and> (Lock (lock_name at), True) \<in> set l))"

lemma private_dir_safe: "before Q (safe_removal H at) (private_dir H dir)"
  unfolding private_dir_def
  by (intro before_try before_bind before_ask) (auto simp: safe_removal_def split: sum.splits)

lemma private_below_safe: "before Q (safe_removal H at) (private_below H dir parts)"
proof (induction parts arbitrary: dir Q)
  case (Cons part parts)
  then show ?case
    unfolding private_below.simps Let_def by (intro before_bind private_dir_safe) 
qed simp

lemma take_lock_ok:
  "take_lock H at log = (Inr u, log') \<Longrightarrow> (Lock (lock_name at), True) \<in> set log'"
  by (auto simp: take_lock_def stry_def host_ask_def Let_def scheck_def slift_def)

lemma take_lock_safe: "before Q (safe_removal H at) (take_lock H at)"
  unfolding take_lock_def by (intro before_try before_ask) (auto simp: safe_removal_def)

lemma clear_path_safe:
  "before (\<lambda>log. (Lock (lock_name at), True) \<in> set log) (safe_removal H at) (clear_path H at)"
proof -
  have "before (\<lambda>l. l = log') (safe_removal H at)
      (sbind (stale H at) (\<lambda>dead.
        if \<not> dead then sfail e else host_ask (Remove_file at) (\<lambda>log. h_remove H log at)))"
    if "log' = log @ [(Lstat at, True)]" "h_lstat H log at = Inr m" "lm_type m = Socket" "lm_uid m = h_uid H"
      "(Lock (lock_name at), True) \<in> set log" for log log' m e
    unfolding stale_def
    by (intro before_bind before_ask)
       (use that in \<open>auto simp: safe_removal_def host_ask_ok intro!: before_ask\<close>)
  then show ?thesis
    unfolding clear_path_def
    by (intro before_try before_ask)
       (auto simp: safe_removal_def host_ask_def Let_def split: sum.splits)
qed

text \<open>
  binding a socket removes nothing but a stale socket of this user at the very path, found to be
  one and refusing connections right before, while the exclusive lock beside it is held.
\<close>

theorem bind_removes_only_stale:
  "\<exists>es. snd (listening_in H root at log) = log @ es \<and> (\<forall>i < length es. \<forall>p ok.
     es ! i = (Remove_file p, ok) \<longrightarrow>
       p = at \<and> (\<exists>l m. log @ take i es = l @ [(Lstat at, True), (Connect at, True)]
         \<and> h_lstat H l at = Inr m \<and> lm_type m = Socket \<and> lm_uid m = h_uid H
         \<and> h_refused H (l @ [(Lstat at, True)]) at \<and> (Lock (lock_name at), True) \<in> set l))"
proof -
  have "before (\<lambda>_. True) (safe_removal H at) (listening_in H root at)"
    unfolding listening_in_def
    by (intro before_bind before_ask private_dir_safe private_below_safe take_lock_safe
          before_weaken [OF clear_path_safe])
       (auto simp: safe_removal_def dest: take_lock_ok)
  then show ?thesis
    by (simp add: before_def safe_removal_def)
qed


fun dir_chain :: "string \<Rightarrow> component list \<Rightarrow> string list" where
  "dir_chain dir [] = [dir]"
| "dir_chain dir (part # parts) = dir # dir_chain (path_join dir (component_text part)) parts"

text \<open>The directories a bind goes through: the root and every one below it down to the parent.\<close>

definition dirs_of :: "string \<Rightarrow> string \<Rightarrow> string list" where
  "dirs_of root at = dir_chain root (drop (length (components root)) (butlast (components at)))"

definition found_private :: "host \<Rightarrow> host_log \<Rightarrow> string \<Rightarrow> bool" where
  "found_private H log dir \<longleftrightarrow>
     (\<exists>g m. prefix (g @ [(Lstat dir, True)]) log \<and> h_lstat H g dir = Inr m \<and> private_meta H m)"

lemma found_private_mono: "found_private H log dir \<Longrightarrow> prefix log log' \<Longrightarrow> found_private H log' dir"
  unfolding found_private_def by (meson prefix_order.trans)

lemma before_extends: "before (\<lambda>_. True) P m \<Longrightarrow> m log = (r, log') \<Longrightarrow> prefix log log'"
  unfolding before_def by (metis prefixI snd_conv)

lemma private_dir_found:
  assumes "private_dir H dir log = (Inr u, log')"
  shows "found_private H log' dir"
proof -
  obtain r g where ask: "host_ask (Make_dir dir) (\<lambda>log. h_make_dir H log dir) log = (r, g)"
    by fastforce
  have "\<exists>m. h_lstat H g dir = Inr m \<and> private_meta H m \<and> log' = g @ [(Lstat dir, True)]"
    using assms unfolding private_dir_def stry_def ask prod.case
    by (cases r) (auto simp: sys_ok split: if_splits)
  then show ?thesis
    by (auto simp: found_private_def)
qed

lemma private_below_found:
  assumes "private_below H dir parts log = (Inr u, log')" "found_private H log dir"
  shows "\<forall>d \<in> set (dir_chain dir parts). found_private H log' d"
  using assms
proof (induction parts arbitrary: dir log)
  case (Cons part parts)
  let ?dir = "path_join dir (component_text part)"
  obtain log1 where first: "private_dir H ?dir log = (Inr (), log1)"
    and rest: "private_below H ?dir parts log1 = (Inr u, log')"
    using Cons.prems(1) by (auto simp: Let_def sys_ok)
  have "prefix log log1" "prefix log1 log'"
    using before_extends [OF private_dir_safe first] before_extends [OF private_below_safe rest] by auto
  then have "found_private H log' dir"
    using Cons.prems(2) found_private_mono prefix_order.trans by blast
  then show ?case
    using Cons.IH [OF rest private_dir_found [OF first]] by auto
qed (simp add: sys_ok)



section \<open>Accepting\<close>

definition CONNECTIONS :: nat where "CONNECTIONS = 8"
definition BACKOFF :: duration where "BACKOFF = 10 ^ 8"

text \<open>\<open>EMFILE\<close>, \<open>ENFILE\<close>, \<open>ENOBUFS\<close>, \<open>ENOMEM\<close> and \<open>ECONNABORTED\<close>.\<close>

definition passing :: "nat option \<Rightarrow> bool" where
  "passing raw \<longleftrightarrow> raw \<in> Some ` {24, 23, 105, 12, 103}"

text \<open>What the loop does with one answer of \<open>accept\<close>: kind and raw errno, or a peer and its uid.\<close>

datatype 'c taken = Again | Rest_for duration | Stop io_kind | Drop_peer | Serve 'c

definition accept_next :: "host \<Rightarrow> (io_kind \<times> nat option) + 'c \<times> 32 word option \<Rightarrow> 'c taken" where
  "accept_next H got =
     (case got of
        Inl (kind, raw) \<Rightarrow>
          if kind = Interrupted then Again
          else if passing raw then Rest_for BACKOFF
          else Stop kind
      | Inr (c, peer) \<Rightarrow> if peer = Some (h_uid H) then Serve c else Drop_peer)"

text \<open>
  The counter of open connections is shared by the accepting thread and one thread per connection.
  The accepting thread counts a connection before it looks at the count, so between the two it may be
  about to start a connection or to turn one away.
\<close>

datatype 'c accepting = Waiting | Starting 'c | Turning 'c

record 'c door =
  slots :: nat
  live :: "'c set"
  at_door :: "'c accepting"

definition closed_door :: "'c door \<Rightarrow> bool" where
  "closed_door d \<longleftrightarrow> slots d = 0 \<and> live d = {} \<and> at_door d = Waiting"

inductive door_step :: "'c door \<Rightarrow> 'c door \<Rightarrow> bool" where
  admit: "at_door d = Waiting \<Longrightarrow> slots d < CONNECTIONS \<Longrightarrow> c \<notin> live d \<Longrightarrow>
    door_step d (d\<lparr>slots := slots d + 1, at_door := Starting c\<rparr>)"
| crowd: "at_door d = Waiting \<Longrightarrow> \<not> slots d < CONNECTIONS \<Longrightarrow> c \<notin> live d \<Longrightarrow>
    door_step d (d\<lparr>slots := slots d + 1, at_door := Turning c\<rparr>)"
| turn_away: "at_door d = Turning c \<Longrightarrow>
    door_step d (d\<lparr>slots := slots d - 1, at_door := Waiting\<rparr>)"
| spawn: "at_door d = Starting c \<Longrightarrow>
    door_step d (d\<lparr>live := insert c (live d), at_door := Waiting\<rparr>)"
| spawn_fails: "at_door d = Starting c \<Longrightarrow>
    door_step d (d\<lparr>slots := slots d - 1, at_door := Waiting\<rparr>)"
| leave: "c \<in> live d \<Longrightarrow>
    door_step d (d\<lparr>slots := slots d - 1, live := live d - {c}\<rparr>)"

inductive_cases door_stepE: "door_step d e"

definition door_wf :: "'c door \<Rightarrow> bool" where
  "door_wf d \<longleftrightarrow>
     finite (live d) \<and> card (live d) \<le> CONNECTIONS
     \<and> (case at_door d of
          Waiting \<Rightarrow> slots d = card (live d)
        | Starting c \<Rightarrow> slots d = card (live d) + 1 \<and> card (live d) < CONNECTIONS \<and> c \<notin> live d
        | Turning c \<Rightarrow> slots d = card (live d) + 1)"

interpretation served_door: inductive_invariant closed_door door_step door_wf
proof
  show "door_wf d" if "closed_door d" for d :: "'c door"
    using that by (simp add: closed_door_def door_wf_def)
  show "door_wf e" if wf: "door_wf d" and step: "door_step d e" for d e :: "'c door"
    using step
  proof cases
    case (leave c)
    then have "card (live d - {c}) = card (live d) - 1" "0 < card (live d)"
      using wf by (auto simp: door_wf_def card_gt_0_iff)
    then show ?thesis
      using wf leave by (auto simp: door_wf_def split: accepting.splits)
  qed (use wf in \<open>auto simp: door_wf_def\<close>)
qed

text \<open>
  C31: whatever the order in which connections come, start and end, at most eight are answered at
  once, the counter is exactly the number of slots taken, and a connection is told that casper is
  busy only while all eight are.
\<close>

theorem connections_bounded:
  assumes "reachable closed_door door_step d"
  shows "card (live d) \<le> CONNECTIONS
    \<and> slots d = card (live d) + (if at_door d = Waiting then 0 else 1)
    \<and> (\<forall>e c. door_step d e \<longrightarrow> at_door d = Waiting \<longrightarrow> at_door e = Turning c \<longrightarrow> card (live d) = CONNECTIONS)"
proof -
  have wf: "door_wf d"
    using assms by (rule served_door.always)
  moreover have "card (live d) = CONNECTIONS"
    if "door_step d e" "at_door d = Waiting" "at_door e = Turning c" for e c
    using that(1) by (rule door_stepE) (use wf that in \<open>auto simp: door_wf_def\<close>)
  ultimately show ?thesis
    by (auto simp: door_wf_def split: accepting.splits)
qed

text \<open>\<open>talking::busy\<close>, what a connection turned away is sent.\<close>

definition busy :: "surface \<Rightarrow> nat \<Rightarrow> sock \<Rightarrow> sock" where
  "busy S limit s =
     (case sf_encode S Json
         (Reply_failed (''busy: casper is answering '' @ dec_text limit @ '' connections already'')) of
        Inl _ \<Rightarrow> s
      | Inr body \<Rightarrow> snd (write_frame_by body (10 ^ 9) s))"

section \<open>At a concrete host\<close>

definition demo_host :: host where
  "demo_host = \<lparr>h_make_dir = \<lambda>log p. Inr (),
     h_lstat = \<lambda>log p. Inr \<lparr>lm_type = (if p = ''/r/s'' then Socket else Directory), lm_uid = 7, lm_mode = 0x41C0,
       lm_dev = 1, lm_ino = 2\<rparr>,
     h_metadata = \<lambda>p. Inl (NotFound, []), h_open_lock = \<lambda>log p. Inr (), h_lock = \<lambda>log p. Inr (),
     h_refused = \<lambda>log p. True, h_remove = \<lambda>log p. Inr (), h_bind = \<lambda>log p. Inr (), h_uid = 7, h_temp = ''/tmp''\<rparr>"

lemma demo_bind: "\<exists>l log'. listening_in demo_host ''/r'' ''/r/s'' [] = (Inr l, log')"
  by (simp add: listening_in_def take_lock_def private_dir_def clear_path_def stale_def sbind_def stry_def host_ask_def
      scheck_def slift_def sreturn_def Let_def demo_host_def private_meta_def no_others_def within_def
      path_starts_with_def path_eq_def components_def is_absolute_def slash_def component_of_def plain_component_def)

lemma demo_removal: "(Remove_file ''/r/s'', True) \<in> set (snd (listening_in demo_host ''/r'' ''/r/s'' []))"
  by (simp add: listening_in_def take_lock_def private_dir_def clear_path_def stale_def sbind_def stry_def host_ask_def
      scheck_def slift_def sreturn_def Let_def demo_host_def private_meta_def no_others_def within_def
      path_starts_with_def path_eq_def components_def is_absolute_def slash_def component_of_def plain_component_def)

theorem bind_removes_only_stale_witness:
  "(Remove_file ''/r/s'', True) \<in> set (snd (listening_in demo_host ''/r'' ''/r/s'' []))
   \<and> (Lock (lock_name ''/r/s''), True) \<in> set (snd (listening_in demo_host ''/r'' ''/r/s'' []))"
proof -
  obtain es where es: "snd (listening_in demo_host ''/r'' ''/r/s'' []) = es"
    "\<forall>i < length es. \<forall>p ok. es ! i = (Remove_file p, ok) \<longrightarrow> p = ''/r/s'' \<and>
       (\<exists>l m. take i es = l @ [(Lstat ''/r/s'', True), (Connect ''/r/s'', True)]
         \<and> h_lstat demo_host l ''/r/s'' = Inr m \<and> lm_type m = Socket \<and> lm_uid m = h_uid demo_host
         \<and> h_refused demo_host (l @ [(Lstat ''/r/s'', True)]) ''/r/s'' \<and> (Lock (lock_name ''/r/s''), True) \<in> set l)"
    using bind_removes_only_stale [of demo_host "''/r''" "''/r/s''" "[]"] by auto
  obtain i where "i < length es" "es ! i = (Remove_file ''/r/s'', True)"
    using demo_removal es(1) by (metis in_set_conv_nth)
  then obtain l where "take i es = l @ [(Lstat ''/r/s'', True), (Connect ''/r/s'', True)]"
    "(Lock (lock_name ''/r/s''), True) \<in> set l"
    using es(2) by blast
  then have "(Lock (lock_name ''/r/s''), True) \<in> set (take i es)"
    by simp
  then show ?thesis
    using demo_removal es(1) in_set_takeD by metis
qed


definition one_guest :: "nat door" where
  "one_guest = \<lparr>slots = 1, live = {}, at_door = Starting 5\<rparr>"

theorem connections_bounded_witness:
  "reachable closed_door door_step one_guest \<and> card (live one_guest) \<le> CONNECTIONS \<and> slots one_guest = 1"
proof -
  let ?d = "\<lparr>slots = 0, live = {}, at_door = Waiting\<rparr> :: nat door"
  have "reachable closed_door door_step ?d"
    by (rule reach_start) (simp add: closed_door_def)
  moreover have "door_step ?d one_guest"
    using admit [of ?d 5] by (simp add: one_guest_def CONNECTIONS_def)
  ultimately have reach: "reachable closed_door door_step one_guest"
    by (rule reach_step)
  show ?thesis
    using reach connections_bounded [OF reach] by (simp add: one_guest_def)
qed

end
