(* ===== verification/Jail_Policy.thy ===== *)
theory Jail_Policy
  imports Serving "HOL-Library.List_Lexorder"
begin

text \<open>
  What a jailed command may be shown (\<open>jail/policy.rs\<close>, \<open>jail/credentials.rs\<close> and the mounts of
  \<open>jail.rs\<close>): the protected paths and where they resolve, the check of the grants, the descriptors
  the mounts are made of, and the environment of the child.  The file system is a parameter whose
  answers may change from one question to the next.
\<close>

section \<open>Asking the file system\<close>

record jail_host =
  jh_canonicalize :: "nat \<Rightarrow> string \<Rightarrow> error + string"
  jh_symlink :: "nat \<Rightarrow> string \<Rightarrow> error + bool"
  jh_exists :: "nat \<Rightarrow> string \<Rightarrow> bool"
  jh_open :: "nat \<Rightarrow> string \<Rightarrow> error + fd"
  jh_readlink :: "nat \<Rightarrow> fd \<Rightarrow> error + string"
  jh_fstat :: "nat \<Rightarrow> fd \<Rightarrow> error + stat"
  jh_read_dir :: "nat \<Rightarrow> fd \<Rightarrow> error + (error + string) list"
  jh_var :: "string \<Rightarrow> string option"
  jh_euid :: nat

text \<open>A program counts its questions; an answer may depend on how many were asked before.\<close>

type_synonym 'a walk = "(nat, error, 'a) prog"

definition look :: "(nat \<Rightarrow> error + 'a) \<Rightarrow> 'a walk" where
  "look answer n = (answer n, Suc n)"

lemma look_ok [sys_ok]: "look answer n = (r, n') \<longleftrightarrow> answer n = r \<and> n' = Suc n"
  by (auto simp: look_def)

definition look_at :: "(nat \<Rightarrow> 'a) \<Rightarrow> 'a walk" where
  "look_at answer n = (Inr (answer n), Suc n)"

lemma look_at_ok [sys_ok]: "look_at answer n = (r, n') \<longleftrightarrow> r = Inr (answer n) \<and> n' = Suc n"
  by (auto simp: look_at_def)

fun each :: "('a \<Rightarrow> ('s, 'e, 'b) prog) \<Rightarrow> 'a list \<Rightarrow> ('s, 'e, 'b list) prog" where
  "each f [] = sreturn []"
| "each f (x # xs) = sbind (f x) (\<lambda>y. sbind (each f xs) (\<lambda>ys. sreturn (y # ys)))"

lemma each_ok:
  "each f xs w = (Inr ys, w') \<Longrightarrow>
     length ys = length xs \<and> (\<forall>i < length xs. \<exists>u v. f (xs ! i) u = (Inr (ys ! i), v))"
proof (induction xs arbitrary: ys w)
  case (Cons x xs)
  then obtain y zs u where "f x w = (Inr y, u)" "each f xs u = (Inr zs, w')" "ys = y # zs"
    by (auto simp: sys_ok)
  with Cons.IH show ?case
    by (auto simp: nth_Cons split: nat.splits)
qed (simp add: sys_ok)

section \<open>Paths\<close>

text \<open>\<open>Ord for Path\<close>: component by component, \<open>RootDir < CurDir < ParentDir < Normal\<close>.\<close>

fun component_rank :: "component \<Rightarrow> nat \<times> string" where
  "component_rank RootDir = (0, [])"
| "component_rank CurDir = (1, [])"
| "component_rank ParentDir = (2, [])"
| "component_rank (Normal s) = (3, s)"

lemma component_rank_inject: "component_rank c = component_rank d \<longleftrightarrow> c = d"
  by (cases c; cases d) simp_all

instantiation component :: linorder
begin

definition less_eq_component :: "component \<Rightarrow> component \<Rightarrow> bool" where
  "less_eq_component c d \<longleftrightarrow>
     fst (component_rank c) < fst (component_rank d)
     \<or> fst (component_rank c) = fst (component_rank d) \<and> snd (component_rank c) \<le> snd (component_rank d)"

definition less_component :: "component \<Rightarrow> component \<Rightarrow> bool" where
  "less_component c d \<longleftrightarrow> c \<le> d \<and> \<not> d \<le> c"

instance
proof
  fix c d e :: component
  show "c < d \<longleftrightarrow> c \<le> d \<and> \<not> d \<le> c"
    by (rule less_component_def)
  show "c \<le> c"
    by (simp add: less_eq_component_def)
  show "c \<le> e" if "c \<le> d" "d \<le> e"
    using that by (auto simp: less_eq_component_def)
  show "c = d" if "c \<le> d" "d \<le> c"
    using that component_rank_inject [of c d] by (auto simp: less_eq_component_def prod_eq_iff)
  show "c \<le> d \<or> d \<le> c"
    by (auto simp: less_eq_component_def)
qed

end

definition path_text :: "component list \<Rightarrow> string" where
  "path_text cs = foldl path_join [] (map component_text cs)"

text \<open>\<open>Vec::sort\<close> and \<open>Vec::dedup\<close> on paths.\<close>

fun path_dedup :: "string list \<Rightarrow> string list" where
  "path_dedup (p # q # ps) = (if path_eq p q then path_dedup (p # ps) else p # path_dedup (q # ps))"
| "path_dedup ps = ps"

definition path_sort :: "string list \<Rightarrow> string list" where
  "path_sort ps = path_dedup (sort_key components ps)"

lemma path_dedup_keeps: "p \<in> set ps \<Longrightarrow> \<exists>q \<in> set (path_dedup ps). path_eq q p"
proof (induction ps arbitrary: p rule: path_dedup.induct)
  case (1 a b ps)
  show ?case
  proof (cases "path_eq a b")
    case True
    then have "path_eq a p \<or> p \<in> set (a # ps)"
      using "1.prems" by (auto simp: path_eq_def)
    then show ?thesis
      using "1.IH"(1) [OF True, of p] "1.IH"(1) [OF True, of a] True by (auto simp: path_eq_def)
  next
    case False
    then show ?thesis
      using "1.IH"(2) [OF False, of p] "1.prems" by (auto simp: path_eq_def)
  qed
qed (auto simp: path_eq_def)

lemma path_dedup_subset: "set (path_dedup ps) \<subseteq> set ps"
  by (induction ps rule: path_dedup.induct) auto

lemma path_sort_keeps: "p \<in> set ps \<Longrightarrow> \<exists>q \<in> set (path_sort ps). path_eq q p"
  unfolding path_sort_def by (rule path_dedup_keeps) simp

lemma path_sort_subset: "set (path_sort ps) \<subseteq> set ps"
  unfolding path_sort_def using path_dedup_subset [of "sort_key components ps"] by simp

text \<open>Two paths overlap when one is the other or lies beneath it.\<close>

definition overlaps :: "string \<Rightarrow> string \<Rightarrow> bool" where
  "overlaps p q \<longleftrightarrow> path_starts_with p q \<or> path_starts_with q p"

lemma overlaps_path_eq: "path_eq q q' \<Longrightarrow> overlaps p q \<longleftrightarrow> overlaps p q'"
  by (simp add: overlaps_def path_starts_with_def path_eq_def)

lemma overlaps_below: "path_starts_with p q \<Longrightarrow> overlaps p q"
  by (simp add: overlaps_def)

section \<open>Opened paths\<close>

definition ends_with :: "string \<Rightarrow> string \<Rightarrow> bool" where
  "ends_with s t \<longleftrightarrow> suffix t s"

definition opened_path :: "jail_host \<Rightarrow> fd \<Rightarrow> string walk" where
  "opened_path H f =
     sbind (look (\<lambda>n. jh_readlink H n f)) (\<lambda>actual.
     sbind (scheck (is_absolute actual \<and> \<not> ends_with actual '' (deleted)'')
              (other_error ''opened path has no stable name'')) (\<lambda>_.
     sreturn actual))"

definition validated_fd :: "jail_host \<Rightarrow> string \<Rightarrow> string list \<Rightarrow> fd walk" where
  "validated_fd H p protected =
     sbind (look (\<lambda>n. jh_open H n p)) (\<lambda>f.
     sbind (opened_path H f) (\<lambda>actual.
     sbind (scheck (\<not> list_ex (\<lambda>denied. path_starts_with actual denied \<or> path_starts_with denied actual) protected)
              (other_error ''opened jail grant overlaps a protected credential path'')) (\<lambda>_.
     sreturn f)))"

section \<open>Aliases of the credential stores\<close>

definition SCAN_ENTRIES :: nat where "SCAN_ENTRIES = 16384"
definition SCAN_DEPTH :: nat where "SCAN_DEPTH = 128"

record cred_scan =
  sc_aliases :: "string list"
  sc_visited :: "(64 word \<times> 64 word) set"
  sc_remaining :: nat

definition SCAN_LIMIT :: error where
  "SCAN_LIMIT = other_error ''credential metadata inspection limit exceeded''"

text \<open>\<open>BTreeSet<PathBuf>::insert\<close>, kept as a list without equal paths.\<close>

definition add_alias :: "string \<Rightarrow> string list \<Rightarrow> string list" where
  "add_alias p ps = (if list_ex (path_eq p) ps then ps else ps @ [p])"

definition proc_fd :: "fd \<Rightarrow> string" where
  "proc_fd f = ''/proc/self/fd/'' @ dec_text f"

text \<open>A missing root is skipped; anything else that cannot be opened is an error.\<close>

definition scan_open :: "jail_host \<Rightarrow> bool \<Rightarrow> string \<Rightarrow> fd option walk" where
  "scan_open H first p =
     stry (look (\<lambda>n. jh_open H n p)) (\<lambda>r.
     case r of
       Inr f \<Rightarrow> sreturn (Some f)
     | Inl e \<Rightarrow>
         if fst e = NotFound \<and> first then
           stry (look (\<lambda>n. jh_symlink H n p)) (\<lambda>m.
             if (case m of Inl e' \<Rightarrow> fst e' = NotFound | Inr _ \<Rightarrow> False) then sreturn None else sfail e)
         else sfail e)"

fun visit_all :: "(string \<Rightarrow> cred_scan \<Rightarrow> cred_scan walk) \<Rightarrow> fd \<Rightarrow> (error + string) list \<Rightarrow> cred_scan \<Rightarrow> cred_scan walk" where
  "visit_all go f [] s = sreturn s"
| "visit_all go f (name # rest) s =
     sbind (slift name) (\<lambda>x.
     sbind (go (path_join (proc_fd f) x) s) (\<lambda>s'. visit_all go f rest s'))"

definition with_alias :: "string list \<Rightarrow> string \<Rightarrow> cred_scan \<Rightarrow> cred_scan" where
  "with_alias roots actual s =
     (if list_ex (path_starts_with actual) roots then s
      else s\<lparr>sc_aliases := add_alias actual (sc_aliases s)\<rparr>)"

text \<open>What \<open>Scan::visit\<close> does with an object it opened; \<open>go\<close> visits an entry.\<close>

definition scan_opened ::
  "jail_host \<Rightarrow> string list \<Rightarrow> (string \<Rightarrow> cred_scan \<Rightarrow> cred_scan walk) \<Rightarrow> fd \<Rightarrow> cred_scan \<Rightarrow> cred_scan walk" where
  "scan_opened H roots go f s0 =
     sbind (opened_path H f) (\<lambda>actual.
     let s1 = with_alias roots actual s0 in
     sbind (look (\<lambda>n. jh_fstat H n f)) (\<lambda>st.
     if regular_mode (st_mode st) \<and> 1 < st_nlink st
     then sfail (other_error ''hardlinked credential files cannot be isolated'')
     else if (st_dev st, st_ino st) \<in> sc_visited s1 then sreturn s1
     else
       let s2 = s1\<lparr>sc_visited := insert (st_dev st, st_ino st) (sc_visited s1)\<rparr> in
       if \<not> directory_mode (st_mode st) then sreturn s2
       else sbind (look (\<lambda>n. jh_read_dir H n f)) (\<lambda>entries. visit_all go f entries s2)))"

text \<open>\<open>Scan::visit\<close> by how deep it may still go: \<open>MAX_DEPTH + 1\<close> less the depth.\<close>

primrec scan_visit :: "jail_host \<Rightarrow> string list \<Rightarrow> nat \<Rightarrow> string \<Rightarrow> cred_scan \<Rightarrow> cred_scan walk" where
  "scan_visit H roots 0 p s = sfail SCAN_LIMIT"
| "scan_visit H roots (Suc deep) p s =
     (if sc_remaining s = 0 then sfail SCAN_LIMIT
      else
        sbind (scan_open H (deep = SCAN_DEPTH) p) (\<lambda>opened.
        let s0 = s\<lparr>sc_remaining := sc_remaining s - 1\<rparr> in
        case opened of
          None \<Rightarrow> sreturn s0
        | Some f \<Rightarrow> scan_opened H roots (scan_visit H roots deep) f s0))"

fun scan_roots :: "jail_host \<Rightarrow> string list \<Rightarrow> string list \<Rightarrow> cred_scan \<Rightarrow> cred_scan walk" where
  "scan_roots H roots [] s = sreturn s"
| "scan_roots H roots (r # rs) s =
     sbind (scan_visit H roots (Suc SCAN_DEPTH) r s) (\<lambda>s'. scan_roots H roots rs s')"

definition expand_aliases :: "jail_host \<Rightarrow> string list \<Rightarrow> string list walk" where
  "expand_aliases H roots =
     sbind (scan_roots H roots roots \<lparr>sc_aliases = [], sc_visited = {}, sc_remaining = SCAN_ENTRIES\<rparr>) (\<lambda>s.
     sreturn (sort_key components (sc_aliases s)))"


subsection \<open>What a still file system leaves uncovered: nothing\<close>

text \<open>
  Nothing changes while the stores are inspected, and two descriptors of one directory list the same
  names, which open the same objects.
\<close>

definition still :: "jail_host \<Rightarrow> bool" where
  "still H \<longleftrightarrow>
     (\<forall>n. jh_open H n = jh_open H 0 \<and> jh_readlink H n = jh_readlink H 0 \<and> jh_fstat H n = jh_fstat H 0
          \<and> jh_read_dir H n = jh_read_dir H 0)"

definition ident :: "stat \<Rightarrow> 64 word \<times> 64 word" where
  "ident st = (st_dev st, st_ino st)"

definition inside_of :: "jail_host \<Rightarrow> fd \<Rightarrow> string \<Rightarrow> error + fd" where
  "inside_of H f x = jh_open H 0 (path_join (proc_fd f) x)"

definition one_tree :: "jail_host \<Rightarrow> bool" where
  "one_tree H \<longleftrightarrow>
     (\<forall>f g st st'. jh_fstat H 0 f = Inr st \<and> jh_fstat H 0 g = Inr st' \<and> ident st = ident st' \<longrightarrow>
        directory_mode (st_mode st) = directory_mode (st_mode st') \<and>
        (directory_mode (st_mode st) \<longrightarrow>
          jh_read_dir H 0 f = jh_read_dir H 0 g \<and>
          (\<forall>x h. inside_of H g x = Inr h \<longrightarrow>
             (\<exists>h'. inside_of H f x = Inr h' \<and> jh_fstat H 0 h = jh_fstat H 0 h' \<and> jh_readlink H 0 h = jh_readlink H 0 h'))))"

inductive store_object :: "jail_host \<Rightarrow> string list \<Rightarrow> fd \<Rightarrow> bool"
  for H roots where
  store_root: "r \<in> set roots \<Longrightarrow> jh_open H 0 r = Inr f \<Longrightarrow> store_object H roots f"
| store_entry: "store_object H roots f \<Longrightarrow> jh_fstat H 0 f = Inr st \<Longrightarrow> directory_mode (st_mode st) \<Longrightarrow>
    jh_read_dir H 0 f = Inr entries \<Longrightarrow> Inr x \<in> set entries \<Longrightarrow> inside_of H f x = Inr g \<Longrightarrow>
    store_object H roots g"

definition covered :: "string list \<Rightarrow> string list \<Rightarrow> string \<Rightarrow> bool" where
  "covered roots aliases actual \<longleftrightarrow> (\<exists>r \<in> set roots \<union> set aliases. path_starts_with actual r)"

definition seen :: "jail_host \<Rightarrow> string list \<Rightarrow> fd \<Rightarrow> cred_scan \<Rightarrow> bool" where
  "seen H roots f s \<longleftrightarrow>
     (\<exists>actual st. jh_readlink H 0 f = Inr actual \<and> covered roots (sc_aliases s) actual
        \<and> jh_fstat H 0 f = Inr st \<and> \<not> (regular_mode (st_mode st) \<and> 1 < st_nlink st)
        \<and> ident st \<in> sc_visited s)"

definition grows :: "cred_scan \<Rightarrow> cred_scan \<Rightarrow> bool" where
  "grows s s' \<longleftrightarrow> sc_visited s \<subseteq> sc_visited s' \<and> set (sc_aliases s) \<subseteq> set (sc_aliases s')"

definition entries_seen :: "jail_host \<Rightarrow> string list \<Rightarrow> fd \<Rightarrow> cred_scan \<Rightarrow> bool" where
  "entries_seen H roots g s \<longleftrightarrow>
     (\<forall>st entries x h. jh_fstat H 0 g = Inr st \<longrightarrow> directory_mode (st_mode st) \<longrightarrow> jh_read_dir H 0 g = Inr entries \<longrightarrow>
        Inr x \<in> set entries \<longrightarrow> inside_of H g x = Inr h \<longrightarrow> seen H roots h s)"

definition finished_since :: "jail_host \<Rightarrow> string list \<Rightarrow> cred_scan \<Rightarrow> cred_scan \<Rightarrow> bool" where
  "finished_since H roots s s' \<longleftrightarrow>
     grows s s' \<and>
     (\<forall>g st. jh_fstat H 0 g = Inr st \<longrightarrow> ident st \<in> sc_visited s' - sc_visited s \<longrightarrow> entries_seen H roots g s')"

lemma covered_mono: "covered roots al a \<Longrightarrow> set al \<subseteq> set al' \<Longrightarrow> covered roots al' a"
  by (auto simp: covered_def)

lemma seen_mono: "seen H roots f s \<Longrightarrow> grows s s' \<Longrightarrow> seen H roots f s'"
  unfolding seen_def grows_def using covered_mono by blast

lemma entries_seen_mono: "entries_seen H roots g s \<Longrightarrow> grows s s' \<Longrightarrow> entries_seen H roots g s'"
  unfolding entries_seen_def using seen_mono by meson

lemma grows_refl [simp]: "grows s s"
  by (simp add: grows_def)

lemma grows_trans: "grows s t \<Longrightarrow> grows t u \<Longrightarrow> grows s u"
  by (auto simp: grows_def)

lemma finished_trans:
  assumes "finished_since H roots s t" "finished_since H roots t u"
  shows "finished_since H roots s u"
proof -
  have g: "grows s t" "grows t u"
    using assms by (simp_all add: finished_since_def)
  have "entries_seen H roots g u" if g': "jh_fstat H 0 g = Inr st" "ident st \<in> sc_visited u - sc_visited s" for g st
  proof (cases "ident st \<in> sc_visited t")
    case True
    then have "entries_seen H roots g t"
      using assms(1) g' by (simp add: finished_since_def)
    then show ?thesis
      using g(2) by (rule entries_seen_mono)
  next
    case False
    then show ?thesis
      using assms(2) g' by (simp add: finished_since_def)
  qed
  then show ?thesis
    using grows_trans [OF g] by (auto simp: finished_since_def)
qed

lemma finished_same_visited:
  "sc_visited s' = sc_visited s \<Longrightarrow> set (sc_aliases s) \<subseteq> set (sc_aliases s') \<Longrightarrow> finished_since H roots s s'"
  by (simp add: finished_since_def grows_def)

lemma visit_all_finished:
  assumes go: "\<And>p s t s' t'. go p s t = (Inr s', t') \<Longrightarrow>
      finished_since H roots s s' \<and> (\<exists>h. jh_open H 0 p = Inr h \<and> seen H roots h s')"
    and run: "visit_all go f entries s t = (Inr s', t')"
  shows "finished_since H roots s s' \<and> (\<forall>x. Inr x \<in> set entries \<longrightarrow> (\<exists>h. inside_of H f x = Inr h \<and> seen H roots h s'))"
  using run
proof (induction entries arbitrary: s t)
  case (Cons entry entries)
  then obtain x s1 t1 where x: "entry = Inr x" "go (path_join (proc_fd f) x) s t = (Inr s1, t1)"
    and rest: "visit_all go f entries s1 t1 = (Inr s', t')"
    by (auto simp: sys_ok)
  have "grows s1 s'"
    using Cons.IH [OF rest] by (simp add: finished_since_def)
  with go [OF x(2)] Cons.IH [OF rest] show ?case
    by (auto simp: x(1) inside_of_def intro: finished_trans seen_mono)
qed (simp add: sys_ok finished_same_visited)


lemma scan_open_still:
  assumes "still H" "scan_open H first p t = (Inr opened, t')"
  shows "case opened of Some f \<Rightarrow> jh_open H 0 p = Inr f | None \<Rightarrow> first \<and> \<not> is_ok (jh_open H 0 p)"
proof -
  have "jh_open H t = jh_open H 0"
    using assms(1) by (simp add: still_def)
  then show ?thesis
    using assms(2) unfolding scan_open_def
    by (auto simp: sys_ok split: sum.splits if_splits)
qed

lemma with_alias_grows:
  "sc_visited (with_alias roots a s) = sc_visited s"
  "set (sc_aliases s) \<subseteq> set (sc_aliases (with_alias roots a s))"
  "covered roots (sc_aliases (with_alias roots a s)) a"
  by (auto simp: with_alias_def covered_def add_alias_def list_ex_iff path_starts_with_def path_eq_def)

lemma scan_opened_ok:
  assumes "still H" "scan_opened H roots go f s u = (Inr s', t')"
  obtains actual st where "jh_readlink H 0 f = Inr actual" "jh_fstat H 0 f = Inr st"
    "\<not> (regular_mode (st_mode st) \<and> 1 < st_nlink st)"
    "s' = with_alias roots actual s \<and> ident st \<in> sc_visited s
     \<or> ident st \<notin> sc_visited s \<and> \<not> directory_mode (st_mode st)
       \<and> s' = (with_alias roots actual s)\<lparr>sc_visited := insert (ident st) (sc_visited s)\<rparr>
     \<or> ident st \<notin> sc_visited s \<and> directory_mode (st_mode st) \<and> (\<exists>entries u. jh_read_dir H 0 f = Inr entries
        \<and> visit_all go f entries ((with_alias roots actual s)\<lparr>sc_visited := insert (ident st) (sc_visited s)\<rparr>) u = (Inr s', t'))"
proof -
  have st: "jh_readlink H n = jh_readlink H 0" "jh_fstat H n = jh_fstat H 0" "jh_read_dir H n = jh_read_dir H 0" for n
    using assms(1) unfolding still_def by blast+
  obtain actual u1 where path: "opened_path H f u = (Inr actual, u1)"
    using assms(2) unfolding scan_opened_def sbind_ok by blast
  then have read: "jh_readlink H 0 f = Inr actual"
    unfolding opened_path_def sbind_ok look_ok sreturn_ok using st(1) [of u] by simp
  obtain st' u2 where fst: "jh_fstat H 0 f = Inr st'"
    and tail: "(if regular_mode (st_mode st') \<and> 1 < st_nlink st'
      then sfail (other_error ''hardlinked credential files cannot be isolated'')
      else if ident st' \<in> sc_visited s then sreturn (with_alias roots actual s)
      else if \<not> directory_mode (st_mode st')
      then sreturn ((with_alias roots actual s)\<lparr>sc_visited := insert (ident st') (sc_visited s)\<rparr>)
      else sbind (look (\<lambda>n. jh_read_dir H n f)) (\<lambda>entries. visit_all go f entries
             ((with_alias roots actual s)\<lparr>sc_visited := insert (ident st') (sc_visited s)\<rparr>))) u2
      = (Inr s', t')"
    using assms(2) path st(2) [of u1]
    unfolding scan_opened_def sbind_ok Let_def look_ok ident_def with_alias_grows(1) by auto
  have hard: "\<not> (regular_mode (st_mode st') \<and> 1 < st_nlink st')"
    using tail by (auto simp: sfail_def)
  show ?thesis
    by (rule that [OF read fst hard])
      (use tail hard in \<open>cases "ident st' \<in> sc_visited s"; cases "directory_mode (st_mode st')";
         auto simp: sbind_ok look_ok sreturn_ok st(3) [of u2]\<close>)
qed

lemma entries_seen_transfer:
  assumes "one_tree H" "jh_fstat H 0 f = Inr st" "jh_fstat H 0 g = Inr st'" "ident st = ident st'"
    and "entries_seen H roots f s"
  shows "entries_seen H roots g s"
  unfolding entries_seen_def
proof (intro allI impI)
  fix st'' entries x h
  assume g: "jh_fstat H 0 g = Inr st''" "directory_mode (st_mode st'')" "jh_read_dir H 0 g = Inr entries"
    "Inr x \<in> set entries" "inside_of H g x = Inr h"
  have "directory_mode (st_mode st)" "jh_read_dir H 0 f = Inr entries"
    using assms(1-4) g(1-3) unfolding one_tree_def by (metis Inr_inject)+
  moreover obtain h' where "inside_of H f x = Inr h'" "jh_fstat H 0 h = jh_fstat H 0 h'" "jh_readlink H 0 h = jh_readlink H 0 h'"
    using assms(1-4) g(5) calculation(1) unfolding one_tree_def by metis
  ultimately show "seen H roots h s"
    using assms(2,5) g(4) unfolding entries_seen_def seen_def by metis
qed

lemma scan_remaining_only:
  "sc_visited (s\<lparr>sc_remaining := n\<rparr>) = sc_visited s" "sc_aliases (s\<lparr>sc_remaining := n\<rparr>) = sc_aliases s"
  by simp_all

lemma scan_visit_opened:
  assumes "still H" "scan_visit H roots (Suc deep) p s t = (Inr s', t')" "jh_open H 0 p = Inr f"
  shows "\<exists>u. scan_opened H roots (scan_visit H roots deep) f (s\<lparr>sc_remaining := sc_remaining s - 1\<rparr>) u = (Inr s', t')"
proof -
  let ?s0 = "s\<lparr>sc_remaining := sc_remaining s - 1\<rparr>"
  obtain opened u where op: "scan_open H (deep = SCAN_DEPTH) p t = (Inr opened, u)"
    and "(case opened of None \<Rightarrow> sreturn ?s0 | Some f \<Rightarrow> scan_opened H roots (scan_visit H roots deep) f ?s0) u = (Inr s', t')"
    using assms(2) by (auto simp: sys_ok Let_def simp del: One_nat_def split: if_splits)
  moreover have "opened = Some f"
    using scan_open_still [OF assms(1) op] assms(3) by (cases opened) auto
  ultimately show ?thesis
    by auto
qed

lemma scan_visit_finished:
  assumes still: "still H" and tree: "one_tree H"
  shows "n \<le> Suc SCAN_DEPTH \<Longrightarrow> scan_visit H roots n p s t = (Inr s', t') \<Longrightarrow>
    finished_since H roots s s' \<and> (\<forall>h. jh_open H 0 p = Inr h \<longrightarrow> seen H roots h s')
    \<and> (n \<le> SCAN_DEPTH \<longrightarrow> is_ok (jh_open H 0 p))"
proof (induction n arbitrary: p s t s' t')
  case (Suc deep)
  show ?case
  proof (cases "jh_open H 0 p")
    case (Inl e)
    then have "scan_open H (deep = SCAN_DEPTH) p t \<noteq> (Inr (Some f), u)" for f u
      using scan_open_still [OF still, of _ p t "Some f" u] by fastforce
    then have "deep = SCAN_DEPTH" "s' = s\<lparr>sc_remaining := sc_remaining s - 1\<rparr>"
      using Suc.prems(2) scan_open_still [OF still, of "deep = SCAN_DEPTH" p t None]
      by (auto simp: sys_ok Let_def split: if_splits option.splits)
    then show ?thesis
      by (auto simp: Inl finished_same_visited)
  next
    case (Inr f)
    obtain u where "scan_opened H roots (scan_visit H roots deep) f (s\<lparr>sc_remaining := sc_remaining s - 1\<rparr>) u = (Inr s', t')"
      using scan_visit_opened [OF still Suc.prems(2) Inr] by blast
    from scan_opened_ok [OF still this]
    obtain actual st s1 where parts: "jh_readlink H 0 f = Inr actual" "jh_fstat H 0 f = Inr st"
        "\<not> (regular_mode (st_mode st) \<and> 1 < st_nlink st)" "sc_visited s1 = sc_visited s"
        "set (sc_aliases s) \<subseteq> set (sc_aliases s1)" "covered roots (sc_aliases s1) actual"
      and ends: "s' = s1 \<and> ident st \<in> sc_visited s
       \<or> ident st \<notin> sc_visited s \<and> \<not> directory_mode (st_mode st) \<and> s' = s1\<lparr>sc_visited := insert (ident st) (sc_visited s)\<rparr>
       \<or> ident st \<notin> sc_visited s \<and> directory_mode (st_mode st) \<and> (\<exists>entries u. jh_read_dir H 0 f = Inr entries
          \<and> visit_all (scan_visit H roots deep) f entries (s1\<lparr>sc_visited := insert (ident st) (sc_visited s)\<rparr>) u = (Inr s', t'))"
      using with_alias_grows [where roots = roots and s = "s\<lparr>sc_remaining := sc_remaining s - 1\<rparr>"]
      unfolding scan_remaining_only by metis
    let ?s2 = "s1\<lparr>sc_visited := insert (ident st) (sc_visited s)\<rparr>"
    have seen2: "seen H roots f ?s2"
      using parts by (auto simp: seen_def)
    have none: "entries_seen H roots g r" if "jh_fstat H 0 g = Inr st'" "ident st' = ident st" "\<not> directory_mode (st_mode st)"
      for g st' r
      using tree parts(2) that unfolding one_tree_def entries_seen_def by (metis Inr_inject)
    from ends have "finished_since H roots s s' \<and> seen H roots f s'"
    proof (elim disjE conjE exE)
      assume "s' = s1" "ident st \<in> sc_visited s"
      then show ?thesis
        using parts by (auto simp: seen_def intro: finished_same_visited)
    next
      assume new: "ident st \<notin> sc_visited s" "\<not> directory_mode (st_mode st)" "s' = ?s2"
      then show ?thesis
        using seen2 none parts(5) by (auto simp: finished_since_def grows_def)
    next
      fix entries u
      assume new: "ident st \<notin> sc_visited s" "directory_mode (st_mode st)" "jh_read_dir H 0 f = Inr entries"
        and all: "visit_all (scan_visit H roots deep) f entries ?s2 u = (Inr s', t')"
      have "finished_since H roots ?s2 s' \<and> (\<forall>x. Inr x \<in> set entries \<longrightarrow> (\<exists>h. inside_of H f x = Inr h \<and> seen H roots h s'))"
        using all
      proof (rule visit_all_finished [rotated])
        fix q r w r' w'
        assume "scan_visit H roots deep q r w = (Inr r', w')"
        from Suc.IH [OF _ this] show "finished_since H roots r r' \<and> (\<exists>h. jh_open H 0 q = Inr h \<and> seen H roots h r')"
          using Suc.prems(1) by (auto simp: is_ok_iff)
      qed
      then have fin: "finished_since H roots ?s2 s'" and ent: "entries_seen H roots f s'"
        using parts(2) new(3) by (auto simp: entries_seen_def)
      have "entries_seen H roots g s'" if "jh_fstat H 0 g = Inr st'" "ident st' \<in> sc_visited s' - sc_visited s" for g st'
        using fin that entries_seen_transfer [OF tree parts(2) that(1) _ ent]
        by (cases "ident st' = ident st") (auto simp: finished_since_def)
      moreover have "grows s s'" "seen H roots f s'"
        using fin parts(5) seen_mono [OF seen2] by (auto simp: finished_since_def grows_def)
      ultimately show ?thesis
        by (auto simp: finished_since_def)
    qed
    then show ?thesis
      using Inr by auto
  qed
qed (simp add: sfail_def)

lemma scan_roots_finished:
  assumes "still H" "one_tree H"
  shows "scan_roots H roots rs s t = (Inr s', t') \<Longrightarrow>
    finished_since H roots s s' \<and> (\<forall>r h. r \<in> set rs \<longrightarrow> jh_open H 0 r = Inr h \<longrightarrow> seen H roots h s')"
proof (induction rs arbitrary: s t)
  case (Cons r rs)
  then obtain s1 t1 where first: "scan_visit H roots (Suc SCAN_DEPTH) r s t = (Inr s1, t1)"
    and rest: "scan_roots H roots rs s1 t1 = (Inr s', t')"
    by (auto simp: sys_ok simp del: scan_visit.simps)
  have "grows s1 s'"
    using Cons.IH [OF rest] by (simp add: finished_since_def)
  with scan_visit_finished [OF assms order_refl first] Cons.IH [OF rest] show ?case
    by (auto intro: finished_trans seen_mono)
qed (simp add: sys_ok finished_same_visited)

lemma expand_aliases_covers:
  assumes "still H" "one_tree H" "expand_aliases H roots t = (Inr aliases, t')" "store_object H roots f"
  shows "\<exists>actual st. jh_readlink H 0 f = Inr actual \<and> covered roots aliases actual
    \<and> jh_fstat H 0 f = Inr st \<and> \<not> (regular_mode (st_mode st) \<and> 1 < st_nlink st)"
proof -
  let ?start = "\<lparr>sc_aliases = [], sc_visited = {}, sc_remaining = SCAN_ENTRIES\<rparr>"
  obtain s u where run: "scan_roots H roots roots ?start t = (Inr s, u)" and al: "set aliases = set (sc_aliases s)"
    using assms(3) by (auto simp: expand_aliases_def sys_ok)
  note fin = scan_roots_finished [OF assms(1,2) run]
  have "seen H roots f s"
    using assms(4)
  proof (induction rule: store_object.induct)
    case (store_entry f st entries x g)
    then have "entries_seen H roots f s"
      using fin by (auto simp: finished_since_def seen_def)
    then show ?case
      using store_entry unfolding entries_seen_def by blast
  qed (use fin in blast)
  then show ?thesis
    unfolding seen_def covered_def al by blast
qed


section \<open>Protected paths\<close>

definition STORES :: "string list" where
  "STORES =
     [''.ssh'', ''.aws'', ''.gnupg'', ''.docker'', ''.kube'', ''.config/gh'', ''.config/gcloud'', ''.external'',
      ''.cargo/credentials'', ''.cargo/credentials.toml'', ''.netrc'', ''.git-credentials'', ''.npmrc'', ''.pypirc'',
      ''.local/share/keyrings'', ''.local/state/casper/mcp-auth'', ''.password-store'']"

definition FAMILY_DIRS :: "string list" where
  "FAMILY_DIRS = [''magi'', ''casper'', ''melchior'', ''balthasar'']"

definition PROFILES :: "string list" where
  "PROFILES = [''google-chrome'', ''chromium'', ''BraveSoftware'']"

text \<open>
  \<open>resolve\<close>, by the components still above the path: a missing path is its resolved parent and its
  last name, unless it is a dangling link.
\<close>

fun resolve_up :: "jail_host \<Rightarrow> string \<Rightarrow> component list \<Rightarrow> string walk" where
  "resolve_up H p up =
     stry (look (\<lambda>n. jh_canonicalize H n p)) (\<lambda>r.
     case r of
       Inr q \<Rightarrow> sreturn q
     | Inl e \<Rightarrow>
         if fst e \<noteq> NotFound then sfail e
         else case up of
           Normal name # rest \<Rightarrow>
             stry (look (\<lambda>n. jh_symlink H n p)) (\<lambda>m.
               if m = Inr True then sfail (other_error ''dangling protected credential symlink'')
               else sbind (resolve_up H (if rest = [] then ''.'' else path_text (rev rest)) rest) (\<lambda>q.
                    sreturn (path_join q name)))
         | _ \<Rightarrow> sfail (other_error ''unresolved protected path''))"

declare resolve_up.simps [simp del]

definition policy_resolve :: "jail_host \<Rightarrow> string \<Rightarrow> string walk" where
  "policy_resolve H p = resolve_up H p (rev (components p))"

definition canonicalised :: "jail_host \<Rightarrow> string list \<Rightarrow> string list walk" where
  "canonicalised H ps =
     sbind (each (policy_resolve H) ps) (\<lambda>canonical. sreturn (path_sort (ps @ canonical)))"

definition file_registry_path :: "jail_host \<Rightarrow> string" where
  "file_registry_path H = path_join ''/var/tmp'' (''.casper-files-v1-'' @ dec_text (jh_euid H))"

definition with_error :: "('e \<Rightarrow> 'f) \<Rightarrow> ('s, 'e, 'a) prog \<Rightarrow> ('s, 'f, 'a) prog" where
  "with_error g m w = (case m w of (r, w') \<Rightarrow> (map_err g r, w'))"

lemma with_error_ok [sys_ok]: "with_error g m w = (Inr a, w') \<longleftrightarrow> m w = (Inr a, w')"
  by (auto simp: with_error_def split: prod.splits)

definition store_paths :: "jail_host \<Rightarrow> string \<Rightarrow> string \<Rightarrow> string \<Rightarrow> string \<Rightarrow> string list" where
  "store_paths H home data config state =
     map (path_join home) STORES
     @ [path_join data ''magi'', path_join data ''keyrings'']
     @ [path_join config ''gh'', path_join config ''gcloud'']
     @ [path_join state ''casper/mcp-auth'']
     @ concat (map (\<lambda>name. [path_join (path_join home ''.config'') name, path_join config name]) FAMILY_DIRS)
     @ [path_join home ''.balthasar'']
     @ [file_registry_path H]
     @ (case jh_var H ''CARGO_HOME'' of
          None \<Rightarrow> []
        | Some cargo \<Rightarrow> [path_join cargo ''credentials'', path_join cargo ''credentials.toml''])"

definition profile_paths :: "string \<Rightarrow> string \<Rightarrow> string list" where
  "profile_paths home config =
     path_join home ''.mozilla''
     # concat (map (\<lambda>name. [path_join (path_join home ''.config'') name, path_join config name]) PROFILES)"

definition protected_in :: "jail_host \<Rightarrow> string \<Rightarrow> string \<Rightarrow> string \<Rightarrow> string \<Rightarrow> string list walk" where
  "protected_in H home data config state =
     sbind (canonicalised H (store_paths H home data config state)) (\<lambda>paths.
     sbind (with_error (\<lambda>e. other_error (''credential inspection failed: '' @ snd e)) (expand_aliases H paths)) (\<lambda>aliases.
     sbind (canonicalised H (profile_paths home config)) (\<lambda>profiles.
     sreturn (paths @ aliases @ profiles))))"

definition env_or :: "string option \<Rightarrow> string \<Rightarrow> string" where
  "env_or v other = (case v of None \<Rightarrow> other | Some p \<Rightarrow> p)"

definition protected_paths :: "jail_host \<Rightarrow> string \<Rightarrow> string list walk" where
  "protected_paths H home =
     protected_in H home
       (env_or (jh_var H ''XDG_DATA_HOME'') (path_join home ''.local/share''))
       (env_or (jh_var H ''XDG_CONFIG_HOME'') (path_join home ''.config''))
       (env_or (Option.bind (jh_var H ''XDG_STATE_HOME'') (\<lambda>v. if v = [] then None else Some v))
          (path_join home ''.local/state''))"

section \<open>Grants\<close>

record grants =
  gr_write :: "string list"
  gr_reach :: bool
  gr_tmp :: "string option"

definition Grants_default :: grants where
  "Grants_default = \<lparr>gr_write = [], gr_reach = False, gr_tmp = None\<rparr>"

definition SYSTEM_READ :: "string list" where
  "SYSTEM_READ = [''/usr'', ''/lib'', ''/lib64'', ''/bin'', ''/sbin'', ''/etc'', ''/opt'', ''/nix/store'']"

definition toolchain_in :: "string option \<Rightarrow> string option \<Rightarrow> string list" where
  "toolchain_in cargo rustup =
     (case rustup of None \<Rightarrow> [] | Some r \<Rightarrow> [r])
     @ (case cargo of None \<Rightarrow> [] | Some c \<Rightarrow> map (path_join c) [''bin'', ''registry'', ''git''])"

definition toolchain :: "jail_host \<Rightarrow> string list" where
  "toolchain H =
     (let beneath = (\<lambda>name fallback.
        case jh_var H name of
          Some v \<Rightarrow> Some v
        | None \<Rightarrow> map_option (\<lambda>home. path_join home fallback) (jh_var H ''HOME''))
      in toolchain_in (beneath ''CARGO_HOME'' ''.cargo'') (beneath ''RUSTUP_HOME'' ''.rustup''))"

fun existing :: "jail_host \<Rightarrow> string list \<Rightarrow> string list walk" where
  "existing H [] = sreturn []"
| "existing H (p # ps) =
     sbind (look_at (\<lambda>n. jh_exists H n p)) (\<lambda>there.
     sbind (existing H ps) (\<lambda>qs. sreturn (if there then p # qs else qs)))"

definition read_floor :: "jail_host \<Rightarrow> string list walk" where
  "read_floor H = existing H (SYSTEM_READ @ toolchain H)"

definition OVERLAP :: error where
  "OVERLAP = other_error ''jail grant overlaps a protected credential path; use a narrower workspace or grant''"

fun validate_roots :: "jail_host \<Rightarrow> string list \<Rightarrow> string list \<Rightarrow> unit walk" where
  "validate_roots H protected [] = sreturn ()"
| "validate_roots H protected (root # roots) =
     sbind (look_at (\<lambda>n. jh_exists H n root)) (\<lambda>there.
     if \<not> there then validate_roots H protected roots
     else
       sbind (look (\<lambda>n. jh_canonicalize H n root)) (\<lambda>canonical.
       sbind (scheck (\<not> list_ex (\<lambda>denied. path_starts_with denied canonical \<or> path_starts_with canonical denied) protected)
                OVERLAP) (\<lambda>_.
       validate_roots H protected roots)))"

definition policy_validate :: "jail_host \<Rightarrow> string \<Rightarrow> grants \<Rightarrow> string list \<Rightarrow> unit walk" where
  "policy_validate H cwd g protected =
     sbind (read_floor H) (\<lambda>floor.
     validate_roots H protected (cwd # gr_write g @ (case gr_tmp g of None \<Rightarrow> [] | Some t \<Rightarrow> [t]) @ floor))"

section \<open>Mounts\<close>

definition bind_flag :: "string \<Rightarrow> bool" where
  "bind_flag f \<longleftrightarrow> f = ''--bind'' \<or> f = ''--ro-bind''"

text \<open>
  One pass over the launcher's arguments: the source of each mount is opened, and the flag and the
  source become the flag's descriptor form.  The destination after it is left as it is.
\<close>

fun bindings :: "jail_host \<Rightarrow> string list \<Rightarrow> string \<Rightarrow> string list \<Rightarrow> (string list \<times> fd list) walk" where
  "bindings H protected launcher [] = sreturn ([], [])"
| "bindings H protected launcher (flag # rest) =
     (if \<not> bind_flag flag
      then sbind (bindings H protected launcher rest) (\<lambda>(as, fds). sreturn (flag # as, fds))
      else case rest of
        [] \<Rightarrow> sfail (other_error (flag @ '' names no path''))
      | source # rest' \<Rightarrow>
          sbind (validated_fd H source protected) (\<lambda>f.
          sbind (if flag = ''--bind'' then
                   sbind (opened_path H f) (\<lambda>actual.
                   scheck (\<not> path_starts_with launcher actual)
                     (other_error ''sandbox launcher is inside a writable jail grant''))
                 else sreturn ()) (\<lambda>_.
          case rest' of
            [] \<Rightarrow> sreturn ([flag @ ''-fd'', dec_text f], [f])
          | dest # rest'' \<Rightarrow>
              sbind (bindings H protected launcher rest'') (\<lambda>(as, fds).
              sreturn ((flag @ ''-fd'') # dec_text f # dest # as, f # fds)))))"

definition policy_launcher :: "jail_host \<Rightarrow> string \<Rightarrow> string list \<Rightarrow> string walk" where
  "policy_launcher H p protected =
     sbind (validated_fd H p protected) (\<lambda>f.
     sbind (look (\<lambda>n. jh_fstat H n f)) (\<lambda>st.
     sbind (scheck (regular_mode (st_mode st) \<and> st_nlink st = 1)
              (other_error ''sandbox launcher must be a regular file without hardlink aliases'')) (\<lambda>_.
     opened_path H f)))"

definition PERSISTENT :: "string list" where
  "PERSISTENT = [''.git/hooks'', ''.git/config'', ''.magi.lua'', ''.balthasar.lua'']"

definition persistent :: "string \<Rightarrow> grants \<Rightarrow> (string \<times> string) list" where
  "persistent cwd g = concat (map (\<lambda>root. map (\<lambda>name. (root, name)) PERSISTENT) (cwd # gr_write g))"

definition bind_args :: "string \<Rightarrow> string \<Rightarrow> string list" where
  "bind_args flag p = [flag, display p, display p]"

definition profile :: "jail_host \<Rightarrow> string \<Rightarrow> grants \<Rightarrow> string list walk" where
  "profile H cwd g =
     sbind (read_floor H) (\<lambda>floor.
     sbind (case gr_tmp g of
              None \<Rightarrow> sreturn [''--tmpfs'', ''/tmp'']
            | Some shared \<Rightarrow>
                sbind (look_at (\<lambda>n. jh_exists H n shared)) (\<lambda>there.
                sreturn (if there then [''--bind'', display shared, ''/tmp''] else [''--tmpfs'', ''/tmp'']))) (\<lambda>tmp.
     sbind (existing H (map (\<lambda>(root, name). path_join root name) (persistent cwd g))) (\<lambda>sealed.
     sreturn
       (concat (map (bind_args ''--ro-bind'') floor)
        @ [''--dev'', ''/dev'', ''--proc'', ''/proc'']
        @ tmp
        @ concat (map (bind_args ''--bind'') (cwd # gr_write g))
        @ concat (map (bind_args ''--ro-bind'') sealed)
        @ (if gr_reach g then [] else [''--unshare-net''])
        @ [''--unshare-pid'', ''--unshare-ipc'', ''--unshare-uts'', ''--die-with-parent'', ''--new-session'',
           ''--chdir'', display cwd]))))"

section \<open>The environment of the child\<close>

fun btree_insert :: "'k :: linorder \<Rightarrow> 'v \<Rightarrow> ('k \<times> 'v) list \<Rightarrow> ('k \<times> 'v) list" where
  "btree_insert k v [] = [(k, v)]"
| "btree_insert k v ((k', v') # m) =
     (if k < k' then (k, v) # (k', v') # m
      else if k = k' then (k, v) # m
      else (k', v') # btree_insert k v m)"

definition ENV_ALLOWED :: "string list" where
  "ENV_ALLOWED =
     [''PATH'', ''TERM'', ''COLORTERM'', ''LANG'', ''LC_ALL'', ''LC_CTYPE'', ''USER'', ''LOGNAME'', ''TZ'', ''LINES'',
      ''COLUMNS'', ''CARGO_HOME'', ''RUSTUP_HOME'']"

definition environment :: "jail_host \<Rightarrow> string \<Rightarrow> string \<Rightarrow> (string \<times> string) list \<Rightarrow> (string \<times> string) list" where
  "environment H home tmp extra =
     (let inherited = fold (\<lambda>k m. case jh_var H k of None \<Rightarrow> m | Some v \<Rightarrow> btree_insert k v m) ENV_ALLOWED [];
          given = fold (\<lambda>(k, v) m. if k \<in> set ENV_ALLOWED then btree_insert k v m else m) extra inherited
      in btree_insert ''TMPDIR'' tmp (btree_insert ''HOME'' home given))"


lemma map_of_btree_insert: "map_of (btree_insert k v m) = (map_of m)(k \<mapsto> v)"
  by (induction k v m rule: btree_insert.induct) (auto simp: fun_upd_twist)

lemma keys_btree_insert: "fst ` set (btree_insert k v m) = insert k (fst ` set m)"
  by (induction k v m rule: btree_insert.induct) auto

lemma sorted_btree_insert: "sorted_wrt (<) (map fst m) \<Longrightarrow> sorted_wrt (<) (map fst (btree_insert k v m))"
proof (induction k v m rule: btree_insert.induct)
  case (2 k v k' v' m)
  then show ?case
  proof (cases "k < k' \<or> k = k'")
    case False
    then have "\<forall>x \<in> fst ` set (btree_insert k v m). k' < x"
      using "2.prems" unfolding keys_btree_insert by auto
    then show ?thesis
      using False 2 by auto
  qed (use 2 in auto)
qed simp

lemma inherited_env:
  "map_of (fold (\<lambda>k m. case V k of None \<Rightarrow> m | Some v \<Rightarrow> btree_insert k v m) ks m) k =
     (if k \<in> set ks \<and> V k \<noteq> None then V k else map_of m k)"
proof (induction ks arbitrary: m)
  case (Cons a ks)
  then show ?case
    by (cases "V a") (auto simp: map_of_btree_insert)
qed simp

lemma given_env:
  "map_of (fold (\<lambda>(k, v) m. if k \<in> A then btree_insert k v m else m) extra m) k =
     (if k \<in> A then (case map_of (rev extra) k of Some v \<Rightarrow> Some v | None \<Rightarrow> map_of m k) else map_of m k)"
proof (induction extra arbitrary: m)
  case (Cons e extra)
  then show ?case
    by (cases e) (auto simp: map_of_btree_insert map_add_def split: option.splits)
qed simp

lemma sorted_inherited:
  "sorted_wrt (<) (map fst m) \<Longrightarrow>
     sorted_wrt (<) (map fst (fold (\<lambda>k m. case V k of None \<Rightarrow> m | Some v \<Rightarrow> btree_insert k v m) ks m))"
proof (induction ks arbitrary: m)
  case (Cons a ks)
  then show ?case
    by (cases "V a") (simp_all add: sorted_btree_insert)
qed simp

lemma sorted_given:
  "sorted_wrt (<) (map fst m) \<Longrightarrow>
     sorted_wrt (<) (map fst (fold (\<lambda>(k, v) m. if k \<in> A then btree_insert k v m else m) extra m))"
  by (induction extra arbitrary: m) (auto simp: sorted_btree_insert)

text \<open>
  a jailed command's environment is exactly its home, its temporary directory and the allowed
  names, each name once: for an allowed name the call's own value, the last one given, or else the
  value casper itself has.  Nothing else casper was started with is in it.
\<close>

theorem environment_exact:
  "map_of (environment H home tmp extra) k =
     (if k = ''TMPDIR'' then Some tmp
      else if k = ''HOME'' then Some home
      else if k \<in> set ENV_ALLOWED
      then (case map_of (rev extra) k of Some v \<Rightarrow> Some v | None \<Rightarrow> jh_var H k)
      else None)
   \<and> sorted_wrt (<) (map fst (environment H home tmp extra))"
  by (auto simp: environment_def Let_def map_of_btree_insert given_env inherited_env sorted_btree_insert sorted_inherited sorted_given
      split: option.splits)

section \<open>What a mount can reach\<close>

lemma opened_path_ok: "opened_path H f t = (Inr actual, t') \<Longrightarrow> jh_readlink H t f = Inr actual"
  by (auto simp: opened_path_def sys_ok)

lemma validated_fd_ok:
  assumes "validated_fd H p protected t = (Inr f, t')"
  shows "\<exists>n m actual. jh_open H n p = Inr f \<and> jh_readlink H m f = Inr actual \<and> (\<forall>d \<in> set protected. \<not> overlaps actual d)"
  using assms unfolding validated_fd_def sbind_ok look_ok scheck_ok sreturn_ok
  by (auto simp: overlaps_def list_ex_iff dest: opened_path_ok)

fun mounts :: "string list \<Rightarrow> (string \<times> string) list" where
  "mounts [] = []"
| "mounts (flag # rest) =
     (if \<not> bind_flag flag then mounts rest
      else case rest of [] \<Rightarrow> [] | source # rest' \<Rightarrow> (flag, source) # mounts (drop 1 rest'))"

fun remounted :: "string list \<Rightarrow> fd list \<Rightarrow> string list" where
  "remounted [] fds = []"
| "remounted (flag # rest) fds =
     (if \<not> bind_flag flag then flag # remounted rest fds
      else case (rest, fds) of
        (source # rest', f # fds') \<Rightarrow> (flag @ ''-fd'') # dec_text f # take 1 rest' @ remounted (drop 1 rest') fds'
      | _ \<Rightarrow> flag # rest)"

definition mounted_safely :: "jail_host \<Rightarrow> string list \<Rightarrow> string \<Rightarrow> string \<times> string \<Rightarrow> fd \<Rightarrow> bool" where
  "mounted_safely H protected launcher mount f \<longleftrightarrow>
     (\<exists>n m actual. jh_open H n (snd mount) = Inr f \<and> jh_readlink H m f = Inr actual
        \<and> (\<forall>d \<in> set protected. \<not> overlaps actual d))
     \<and> (fst mount = ''--bind'' \<longrightarrow> (\<exists>m actual. jh_readlink H m f = Inr actual \<and> \<not> path_starts_with launcher actual))"

lemma bindings_run:
  "bindings H protected launcher args t = (Inr (args', fds), t') \<Longrightarrow>
     args' = remounted args fds \<and> list_all2 (mounted_safely H protected launcher) (mounts args) fds"
proof (induction H protected launcher args arbitrary: t args' fds t' rule: bindings.induct)
  case (2 H protected launcher flag rest)
  show ?case
  proof (cases "bind_flag flag")
    case False
    then show ?thesis
      using "2.prems" "2.IH"(1) by (auto simp: sys_ok)
  next
    case True
    then obtain source rest' where rest: "rest = source # rest'"
      using "2.prems" by (cases rest) (auto simp: sfail_def)
    note run = "2.prems" [unfolded bindings.simps(2) rest, simplified True, simplified]
    obtain f t1 where fd: "validated_fd H source protected t = (Inr f, t1)"
      using run by (auto simp: sbind_ok)
    have safe: "mounted_safely H protected launcher (flag, source) f"
      unfolding mounted_safely_def
      using validated_fd_ok [OF fd] run fd by (auto simp: sys_ok split: if_splits dest: opened_path_ok)
    show ?thesis
    proof (cases rest')
      case Nil
      then show ?thesis
        using run fd True rest safe by (auto simp: sys_ok split: if_splits)
    next
      case (Cons dest rest'')
      then obtain as fds' u where "bindings H protected launcher rest'' u = (Inr (as, fds'), t')"
        "args' = (flag @ ''-fd'') # dec_text f # dest # as" "fds = f # fds'"
        using run fd by (auto simp: sbind_ok sreturn_ok)
      then show ?thesis
        using "2.IH"(2) [of source rest' dest rest''] True rest safe Cons by auto
    qed
  qed
qed (simp add: sys_ok)


lemma overlaps_up: "overlaps p a \<Longrightarrow> path_starts_with a d \<Longrightarrow> overlaps p d"
  unfolding overlaps_def path_starts_with_def by (meson prefix_order.trans prefix_same_cases)

lemma canonicalised_keeps:
  assumes "canonicalised H ps t = (Inr qs, t')" "p \<in> set ps"
  shows "\<exists>q \<in> set qs. path_eq q p"
proof -
  obtain canonical where "qs = path_sort (ps @ canonical)"
    using assms(1) by (auto simp: canonicalised_def sys_ok)
  then show ?thesis
    using path_sort_keeps [of p "ps @ canonical"] assms(2) by auto
qed

lemma bindings_spare:
  assumes "bindings H protected launcher args t = (Inr (args', fds), t')" "f \<in> set fds"
  shows "\<exists>m actual. jh_readlink H m f = Inr actual \<and> (\<forall>d \<in> set protected. \<not> overlaps actual d)"
proof -
  have "list_all2 (mounted_safely H protected launcher) (mounts args) fds"
    using bindings_run [OF assms(1)] by blast
  then show ?thesis
    using assms(2) by (auto simp: list_all2_conv_all_nth in_set_conv_nth mounted_safely_def)
qed


section \<open>The mounts of a profile\<close>

lemma mounts_skip: "list_all (\<lambda>a. \<not> bind_flag a) as \<Longrightarrow> mounts (as @ bs) = mounts bs"
  by (induction as) auto

lemma mounts_binds:
  "bind_flag flag \<Longrightarrow> mounts (concat (map (bind_args flag) ps) @ bs) = map (\<lambda>p. (flag, display p)) ps @ mounts bs"
  by (induction ps) (auto simp: bind_args_def)

definition profile_mounts :: "string list \<Rightarrow> (string \<times> string) list \<Rightarrow> string list \<Rightarrow> string list \<Rightarrow> (string \<times> string) list" where
  "profile_mounts floor tmp writable sealed =
     map (\<lambda>p. (''--ro-bind'', display p)) floor @ tmp
     @ map (\<lambda>p. (''--bind'', display p)) writable @ map (\<lambda>p. (''--ro-bind'', display p)) sealed"

lemma profile_shape:
  assumes "profile H cwd g t = (Inr args, t')"
  obtains floor tmp sealed t1 t2 front where "read_floor H t = (Inr floor, t1)"
    "tmp = [] \<or> (\<exists>shared. gr_tmp g = Some shared \<and> tmp = [(''--bind'', display shared)])"
    "existing H (map (\<lambda>(root, name). path_join root name) (persistent cwd g)) t2 = (Inr sealed, t')"
    "args = front @ [''--chdir'', display cwd]"
    "\<And>rest. mounts (front @ rest) = profile_mounts floor tmp (cwd # gr_write g) sealed @ mounts rest"
proof -
  obtain floor t1 tmp t2 sealed where
    floor: "read_floor H t = (Inr floor, t1)"
    and tmp: "(case gr_tmp g of
              None \<Rightarrow> sreturn [''--tmpfs'', ''/tmp'']
            | Some shared \<Rightarrow>
                sbind (look_at (\<lambda>n. jh_exists H n shared)) (\<lambda>there.
                sreturn (if there then [''--bind'', display shared, ''/tmp''] else [''--tmpfs'', ''/tmp'']))) t1 = (Inr tmp, t2)"
    and sealed: "existing H (map (\<lambda>(root, name). path_join root name) (persistent cwd g)) t2 = (Inr sealed, t')"
    and args: "args = (concat (map (bind_args ''--ro-bind'') floor)
        @ [''--dev'', ''/dev'', ''--proc'', ''/proc'']
        @ tmp
        @ concat (map (bind_args ''--bind'') (cwd # gr_write g))
        @ concat (map (bind_args ''--ro-bind'') sealed)
        @ (if gr_reach g then [] else [''--unshare-net''])
        @ [''--unshare-pid'', ''--unshare-ipc'', ''--unshare-uts'', ''--die-with-parent'', ''--new-session'',
           ''--chdir'', display cwd])"
    using assms unfolding profile_def sbind_ok sreturn_ok by blast
  have tmps: "tmp = [''--tmpfs'', ''/tmp''] \<or> (\<exists>shared. gr_tmp g = Some shared \<and> tmp = [''--bind'', display shared, ''/tmp''])"
    using tmp by (auto simp: sys_ok split: option.splits)
  have flags: "bind_flag ''--bind''" "bind_flag ''--ro-bind''" "\<not> bind_flag ''--tmpfs''" "\<not> bind_flag ''/tmp''"
    by (simp_all add: bind_flag_def)
  let ?tmp = "mounts tmp"
  have tm: "mounts (tmp @ rest) = ?tmp @ mounts rest" for rest
    using tmps flags by auto
  let ?front = "butlast (butlast args)"
  have front: "?front = (concat (map (bind_args ''--ro-bind'') floor)
        @ [''--dev'', ''/dev'', ''--proc'', ''/proc'']
        @ tmp
        @ concat (map (bind_args ''--bind'') (cwd # gr_write g))
        @ concat (map (bind_args ''--ro-bind'') sealed)
        @ (if gr_reach g then [] else [''--unshare-net''])
        @ [''--unshare-pid'', ''--unshare-ipc'', ''--unshare-uts'', ''--die-with-parent'', ''--new-session''])"
    unfolding args by (simp add: butlast_append)
  show ?thesis
  proof (rule that [OF floor _ sealed])
    show "?tmp = [] \<or> (\<exists>shared. gr_tmp g = Some shared \<and> ?tmp = [(''--bind'', display shared)])"
      using tmps flags by auto
    show "args = ?front @ [''--chdir'', display cwd]"
      unfolding front unfolding args by simp
    have dev: "mounts ([''--dev'', ''/dev'', ''--proc'', ''/proc''] @ rest) = mounts rest" for rest
      by (simp add: bind_flag_def)
    have tail: "mounts ((if gr_reach g then [] else [''--unshare-net''])
        @ [''--unshare-pid'', ''--unshare-ipc'', ''--unshare-uts'', ''--die-with-parent'', ''--new-session''] @ rest)
        = mounts rest" for rest
      by (simp add: bind_flag_def)
    show "mounts (?front @ rest) = profile_mounts floor ?tmp (cwd # gr_write g) sealed @ mounts rest" for rest
      unfolding front profile_mounts_def append_assoc
      by (simp only: mounts_binds flags dev tm tail append_assoc)
  qed
qed


section \<open>A home directory with one linked key\<close>

text \<open>The store \<open>/h/.ssh\<close> holds a link to \<open>/k/id\<close>; the workspace is \<open>/w\<close>.\<close>

definition demo_stat :: "64 word \<Rightarrow> 32 word \<Rightarrow> stat" where
  "demo_stat ino mode = \<lparr>st_dev = 1, st_ino = ino, st_size = 0, st_mode = mode, st_uid = 0, st_gid = 0, st_nlink = 1,
     st_mtime = 0, st_mtime_nsec = 0, st_ctime = 0, st_ctime_nsec = 0\<rparr>"

definition demo_jail :: jail_host where
  "demo_jail = \<lparr>
     jh_canonicalize = \<lambda>n p. Inr p,
     jh_symlink = \<lambda>n p. Inl (NotFound, []),
     jh_exists = \<lambda>n p. False,
     jh_open = \<lambda>n p. if p = ''/h/.ssh'' then Inr 3 else if p = ''/w'' then Inr 4
       else if p = ''/proc/self/fd/3/id'' then Inr 5 else Inl (NotFound, []),
     jh_readlink = \<lambda>n f. Inr (if f = 3 then ''/h/.ssh'' else if f = 4 then ''/w'' else ''/k/id''),
     jh_fstat = \<lambda>n f. Inr (if f = 3 then demo_stat 3 0x4000 else if f = 4 then demo_stat 4 0x4000 else demo_stat 5 0x8000),
     jh_read_dir = \<lambda>n f. Inr (if f = 3 then [Inr ''id''] else []),
     jh_var = \<lambda>k. None,
     jh_euid = 0\<rparr>"

lemma demo_jail_sel:
  "jh_canonicalize demo_jail n p = Inr p"
  "jh_symlink demo_jail n p = Inl (NotFound, [])"
  "jh_open demo_jail n p = (if p = ''/h/.ssh'' then Inr 3 else if p = ''/w'' then Inr 4
     else if p = ''/proc/self/fd/3/id'' then Inr 5 else Inl (NotFound, []))"
  "jh_readlink demo_jail n f = Inr (if f = 3 then ''/h/.ssh'' else if f = 4 then ''/w'' else ''/k/id'')"
  "jh_fstat demo_jail n f =
     Inr (if f = 3 then demo_stat 3 0x4000 else if f = 4 then demo_stat 4 0x4000 else demo_stat 5 0x8000)"
  "jh_read_dir demo_jail n f = Inr (if f = 3 then [Inr ''id''] else [])"
  by (simp_all add: demo_jail_def)

lemma demo_id: "path_join (proc_fd 3) ''id'' = ''/proc/self/fd/3/id''"
  by code_simp

lemma demo_still: "still demo_jail"
  by (simp add: still_def demo_jail_def)

lemma demo_tree: "one_tree demo_jail"
proof -
  have same: "f = g" if "jh_fstat demo_jail 0 f = Inr st" "jh_fstat demo_jail 0 g = Inr st'" "ident st = ident st'"
    "directory_mode (st_mode st)" for f g st st'
    using that by (auto simp: demo_jail_sel ident_def directory_mode_def demo_stat_def split: if_splits)
  have "directory_mode (st_mode st) = directory_mode (st_mode st')"
    if "jh_fstat demo_jail 0 f = Inr st" "jh_fstat demo_jail 0 g = Inr st'" "ident st = ident st'" for f g st st'
    using that same [OF that] same [OF that(2,1) that(3) [symmetric]] by fastforce
  with same show ?thesis
    unfolding one_tree_def by metis
qed

lemmas run_defs = stry_def sbind_def look_def sreturn_def sfail_def scheck_def slift_def Let_def

lemma demo_names:
  "is_absolute ''/h/.ssh''" "is_absolute ''/k/id''" "is_absolute ''/w''" "\<not> ends_with ''/h/.ssh'' '' (deleted)''"
  "\<not> ends_with ''/k/id'' '' (deleted)''" "\<not> ends_with ''/w'' '' (deleted)''"
  by code_simp+

lemma demo_alias:
  "sc_remaining (with_alias roots a s) = sc_remaining s"
  "set (sc_aliases (with_alias roots a s)) \<subseteq> insert a (set (sc_aliases s))"
  by (auto simp: with_alias_def add_alias_def)

lemma demo_key:
  "\<exists>s' t'. scan_opened demo_jail roots go 5 s t = (Inr s', t') \<and> sc_remaining s' = sc_remaining s
     \<and> set (sc_aliases s') \<subseteq> insert ''/k/id'' (set (sc_aliases s))"
  using demo_alias [of roots "''/k/id''" s]
  by (simp add: scan_opened_def opened_path_def demo_jail_sel demo_names run_defs demo_stat_def regular_mode_def directory_mode_def)

lemma demo_store:
  assumes "1 \<le> sc_remaining s" "d \<noteq> SCAN_DEPTH"
  shows "\<exists>s' t'. scan_opened demo_jail roots (scan_visit demo_jail roots (Suc d)) 3 s t = (Inr s', t')
     \<and> sc_remaining s \<le> sc_remaining s' + 1 \<and> set (sc_aliases s') \<subseteq> set (sc_aliases s) \<union> {''/h/.ssh'', ''/k/id''}"
proof -
  let ?s1 = "with_alias roots ''/h/.ssh'' s"
  let ?s2 = "?s1\<lparr>sc_visited := insert (1, 3) (sc_visited ?s1)\<rparr>"
  obtain s' t' where key: "scan_opened demo_jail roots (scan_visit demo_jail roots d) 5
      (?s2\<lparr>sc_remaining := sc_remaining ?s2 - 1\<rparr>) (Suc (Suc (Suc (Suc t)))) = (Inr s', t')"
    "sc_remaining s' = sc_remaining ?s2 - 1" "set (sc_aliases s') \<subseteq> insert ''/k/id'' (set (sc_aliases ?s1))"
    using demo_key [of roots "scan_visit demo_jail roots d" "?s2\<lparr>sc_remaining := sc_remaining ?s2 - 1\<rparr>"
      "Suc (Suc (Suc (Suc t)))"] by auto
  show ?thesis
    using assms key demo_alias [of roots "''/h/.ssh''" s]
    by (cases "(1, 3) \<in> sc_visited s")
      (auto simp: scan_opened_def [of _ _ _ 3] opened_path_def demo_jail_sel demo_names run_defs demo_stat_def
        regular_mode_def directory_mode_def demo_id scan_open_def with_alias_grows(1))
qed

lemma demo_visit:
  assumes "2 \<le> sc_remaining s" "r \<noteq> ''/w''"
  shows "\<exists>s' t'. scan_visit demo_jail roots (Suc SCAN_DEPTH) r s t = (Inr s', t') \<and> sc_remaining s \<le> sc_remaining s' + 2
    \<and> set (sc_aliases s') \<subseteq> set (sc_aliases s) \<union> {''/h/.ssh'', ''/k/id''}"
proof -
  let ?s = "s\<lparr>sc_remaining := sc_remaining s - 1\<rparr>"
  obtain d where deep: "SCAN_DEPTH = Suc d"
    by (auto simp: SCAN_DEPTH_def numeral_eq_Suc)
  then have lower: "d \<noteq> SCAN_DEPTH"
    by simp
  have room: "1 \<le> sc_remaining ?s"
    using assms(1) by simp
  obtain s3 t3 where store: "scan_opened demo_jail roots (scan_visit demo_jail roots (Suc d)) 3 ?s (Suc t) = (Inr s3, t3)"
      "sc_remaining s \<le> sc_remaining s3 + 2" "set (sc_aliases s3) \<subseteq> set (sc_aliases s) \<union> {''/h/.ssh'', ''/k/id''}"
    using demo_store [OF room lower, of roots "Suc t"] by force
  obtain s5 t5 where key: "scan_opened demo_jail roots (scan_visit demo_jail roots (Suc d)) 5 ?s (Suc t) = (Inr s5, t5)"
      "sc_remaining s5 = sc_remaining s - 1" "set (sc_aliases s5) \<subseteq> insert ''/k/id'' (set (sc_aliases s))"
    using demo_key [of roots "scan_visit demo_jail roots (Suc d)" ?s "Suc t"] by auto
  show ?thesis
    using assms store key unfolding deep
    by (auto simp: scan_open_def demo_jail_sel run_defs deep)
qed

lemma demo_roots:
  "2 * length rs \<le> sc_remaining s \<Longrightarrow> ''/w'' \<notin> set rs \<Longrightarrow>
     \<exists>s' t'. scan_roots demo_jail roots rs s t = (Inr s', t') \<and> set (sc_aliases s') \<subseteq> set (sc_aliases s) \<union> {''/h/.ssh'', ''/k/id''}"
proof (induction rs arbitrary: s t)
  case (Cons r rs)
  then obtain s' t' where first: "scan_visit demo_jail roots (Suc SCAN_DEPTH) r s t = (Inr s', t')"
    "sc_remaining s \<le> sc_remaining s' + 2" "set (sc_aliases s') \<subseteq> set (sc_aliases s) \<union> {''/h/.ssh'', ''/k/id''}"
    using demo_visit [of s r roots t] by auto
  moreover obtain s'' t'' where "scan_roots demo_jail roots rs s' t' = (Inr s'', t'')"
    "set (sc_aliases s'') \<subseteq> set (sc_aliases s') \<union> {''/h/.ssh'', ''/k/id''}"
    using Cons.IH [of s' t'] Cons.prems first(2) by auto
  ultimately show ?case
    by (auto simp: sbind_def simp del: scan_visit.simps)
qed (auto simp: sreturn_def)

lemma demo_canonical: "canonicalised demo_jail ps t = (Inr (path_sort (ps @ ps)), t + length ps)"
proof -
  have "each (policy_resolve demo_jail) ps t = (Inr ps, t + length ps)" for t
    by (induction ps arbitrary: t)
      (simp_all add: policy_resolve_def resolve_up.simps demo_jail_sel stry_def look_def sbind_def sreturn_def)
  then show ?thesis
    by (simp add: canonicalised_def sbind_def sreturn_def)
qed

lemma length_path_sort: "length (path_sort ps) \<le> length ps"
proof -
  have "length (path_dedup ps) \<le> length ps" for ps
    by (induction ps rule: path_dedup.induct) auto
  from this [of "sort_key components ps"] show ?thesis
    by (simp add: path_sort_def)
qed

lemma demo_protected:
  assumes "''/w'' \<notin> set ps" "length ps \<le> 4000"
  shows "\<exists>aliases u. expand_aliases demo_jail (path_sort (ps @ ps)) t = (Inr aliases, u) \<and> set aliases \<subseteq> {''/h/.ssh'', ''/k/id''}"
proof -
  let ?rs = "path_sort (ps @ ps)"
  have "2 * length ?rs \<le> SCAN_ENTRIES" "''/w'' \<notin> set ?rs"
    using assms length_path_sort [of "ps @ ps"] path_sort_subset [of "ps @ ps"] by (auto simp: SCAN_ENTRIES_def)
  then show ?thesis
    using demo_roots [of ?rs "\<lparr>sc_aliases = [], sc_visited = {}, sc_remaining = SCAN_ENTRIES\<rparr>" ?rs t]
    by (auto simp: expand_aliases_def sbind_def sreturn_def)
qed

definition demo_stores :: "string list" where
  "demo_stores = store_paths demo_jail ''/h'' ''/d'' ''/c'' ''/s''"

lemma demo_free: "list_all (\<lambda>p. \<not> overlaps ''/w'' p \<and> p \<noteq> ''/w'') (demo_stores @ profile_paths ''/h'' ''/c'' @ [''/k/id''])"
  by code_simp

lemma demo_spelling: "list_all (\<lambda>p. path_eq p ''/h/.ssh'' \<longrightarrow> p = ''/h/.ssh'') demo_stores"
  by code_simp

lemma demo_ssh: "''/h/.ssh'' \<in> set demo_stores" "length demo_stores \<le> 4000"
  by code_simp+

lemma demo_bindings:
  assumes "\<forall>d \<in> set protected. \<not> overlaps ''/w'' d"
  shows "\<exists>u. bindings demo_jail protected ''/b'' [''--bind'', ''/w'', ''/w''] 0 = (Inr ([''--bind-fd'', ''4'', ''/w''], [4]), u)"
proof -
  have "\<not> path_starts_with ''/b'' ''/w''" "dec_text 4 = ''4''" "\<not> ends_with ''/w'' '' (deleted)''" "is_absolute ''/w''"
    by code_simp+
  moreover have "\<not> list_ex (\<lambda>d. path_starts_with ''/w'' d \<or> path_starts_with d ''/w'') protected"
    using assms by (auto simp: list_ex_iff overlaps_def)
  ultimately show ?thesis
    by (simp add: bind_flag_def validated_fd_def opened_path_def demo_jail_sel sbind_def look_def scheck_def slift_def sreturn_def)
qed



end
