(* ===== verification/Jail_Guard.thy ===== *)
theory Jail_Guard
  imports Jail_Policy "HOL-Library.AList"
begin

text \<open>
  The Landlock path's stand-in for read-only mounts (\<open>jail/guard.rs\<close>): what a protected path held is
  read before a command and put back after it.  Once the command has ended nobody else changes the
  tree, so it is a value: a directory is its entries.  Every call may fail with an errno of the
  host's choosing.
\<close>

section \<open>The tree\<close>

datatype fnode =
    NFile bytes "32 word"
  | NLink string
  | NDir "32 word" "(string \<times> fnode) list"
  | NSpecial

type_synonym gdir = "(string \<times> fnode) list"

record gworld =
  gw_dir :: gdir
  gw_ops :: nat
  gw_next :: nat
  gw_said :: "string list"

text \<open>
  \<open>ge_fault n\<close> says whether the \<open>n\<close>-th call fails for a reason outside the tree (permissions, a full
  disk, a broken device), and with which number.
\<close>

record guard_env =
  ge_fault :: "nat \<Rightarrow> nat option"
  ge_text :: "errno \<Rightarrow> string"
  ge_pid :: nat

type_synonym 'a gcall = "(gworld, errno, 'a) prog"
type_synonym 'a guarded = "(gworld, error, 'a) prog"

definition ISDIR :: errno where "ISDIR = Errno 21"
definition NOT_PERMITTED :: errno where "NOT_PERMITTED = Errno 1"
definition NOTDIR :: errno where "NOTDIR = Errno 20"
definition NOTEMPTY :: errno where "NOTEMPTY = Errno 39"

definition gcall :: "guard_env \<Rightarrow> (gdir \<Rightarrow> errno + 'a \<times> gdir) \<Rightarrow> 'a gcall" where
  "gcall E f w =
     (let w1 = w\<lparr>gw_ops := Suc (gw_ops w)\<rparr> in
      case ge_fault E (gw_ops w) of
        Some n \<Rightarrow> (Inl (Errno n), w1)
      | None \<Rightarrow>
          (case f (gw_dir w) of
             Inl e \<Rightarrow> (Inl e, w1)
           | Inr (a, d) \<Rightarrow> (Inr a, w1\<lparr>gw_dir := d\<rparr>)))"

definition gerror :: "guard_env \<Rightarrow> 'a gcall \<Rightarrow> 'a guarded" where
  "gerror E = with_error (\<lambda>e. (errno_kind e, ge_text E e))"

definition gsay :: "string \<Rightarrow> 'a \<Rightarrow> (gworld, 'e, 'a) prog" where
  "gsay line a w = (Inr a, w\<lparr>gw_said := gw_said w @ [line]\<rparr>)"

text \<open>The calls on a directory, by the name of an entry.\<close>

definition g_stat :: "guard_env \<Rightarrow> string \<Rightarrow> fnode gcall" where
  "g_stat E name = gcall E (\<lambda>d. case map_of d name of None \<Rightarrow> Inl NOENT | Some x \<Rightarrow> Inr (x, d))"

definition g_unlink :: "guard_env \<Rightarrow> string \<Rightarrow> unit gcall" where
  "g_unlink E name = gcall E (\<lambda>d.
     case map_of d name of
       None \<Rightarrow> Inl NOENT
     | Some (NDir _ _) \<Rightarrow> Inl ISDIR
     | Some _ \<Rightarrow> Inr ((), AList.delete name d))"

definition g_rmdir :: "guard_env \<Rightarrow> string \<Rightarrow> unit gcall" where
  "g_rmdir E name = gcall E (\<lambda>d.
     case map_of d name of
       None \<Rightarrow> Inl NOENT
     | Some (NDir _ es) \<Rightarrow> if es = [] then Inr ((), AList.delete name d) else Inl NOTEMPTY
     | Some _ \<Rightarrow> Inl NOTDIR)"

definition g_make :: "guard_env \<Rightarrow> fnode \<Rightarrow> string \<Rightarrow> unit gcall" where
  "g_make E x name = gcall E (\<lambda>d.
     if map_of d name = None then Inr ((), AList.update name x d) else Inl EXIST)"

definition g_rename :: "guard_env \<Rightarrow> string \<Rightarrow> string \<Rightarrow> unit gcall" where
  "g_rename E source target = gcall E (\<lambda>d.
     case map_of d source of
       None \<Rightarrow> Inl NOENT
     | Some x \<Rightarrow>
         (case map_of d target of
            Some (NDir _ _) \<Rightarrow> Inl ISDIR
          | _ \<Rightarrow> Inr ((), AList.update target x (AList.delete source d))))"

definition set_mode :: "32 word \<Rightarrow> fnode \<Rightarrow> fnode" where
  "set_mode m x = (case x of NFile b _ \<Rightarrow> NFile b m | NDir _ es \<Rightarrow> NDir m es | _ \<Rightarrow> x)"

definition g_chmod :: "guard_env \<Rightarrow> string \<Rightarrow> 32 word \<Rightarrow> unit gcall" where
  "g_chmod E name m = gcall E (\<lambda>d.
     case map_of d name of None \<Rightarrow> Inl NOENT | Some x \<Rightarrow> Inr ((), AList.update name (set_mode m x) d))"

text \<open>Writing all of a file and flushing it; a write that fails leaves what was there.\<close>

definition g_fill :: "guard_env \<Rightarrow> string \<Rightarrow> bytes \<Rightarrow> unit gcall" where
  "g_fill E name b = gcall E (\<lambda>d.
     case map_of d name of
       Some (NFile _ m) \<Rightarrow> Inr ((), AList.update name (NFile b m) d)
     | _ \<Rightarrow> Inl NOENT)"

definition g_sync :: "guard_env \<Rightarrow> unit gcall" where
  "g_sync E = gcall E (\<lambda>d. Inr ((), d))"

text \<open>Working in the directory \<open>name\<close> through a descriptor of it.\<close>

definition inside_dir :: "string \<Rightarrow> (gworld, 'e, 'a) prog \<Rightarrow> (gworld, 'e, 'a) prog" where
  "inside_dir name m w =
     (case map_of (gw_dir w) name of
        Some (NDir mode es) \<Rightarrow>
          (case m (w\<lparr>gw_dir := es\<rparr>) of
             (r, w') \<Rightarrow> (r, w'\<lparr>gw_dir := AList.update name (NDir mode (gw_dir w')) (gw_dir w)\<rparr>))
      | _ \<Rightarrow> m w)"

section \<open>Reading what a path holds\<close>

definition GUARD_MOST :: nat where "GUARD_MOST = 1024 * 1024"
definition GUARD_ENTRIES :: nat where "GUARD_ENTRIES = 256"
definition GUARD_DEPTH :: nat where "GUARD_DEPTH = 8"
definition GUARD_DEEPEST :: nat where "GUARD_DEEPEST = 64"

datatype gstate =
    S_Absent
  | S_File bytes "32 word"
  | S_Link string
  | S_Dir "32 word" "(string \<times> gstate) list"
  | S_Other

record budget =
  bu_bytes :: nat
  bu_entries :: nat
  bu_over :: bool

definition Budget_default :: budget where
  "Budget_default = \<lparr>bu_bytes = 0, bu_entries = 0, bu_over = False\<rparr>"

definition g_kind :: "guard_env \<Rightarrow> string \<Rightarrow> fnode option guarded" where
  "g_kind E name =
     stry (g_stat E name) (\<lambda>r.
     case r of
       Inr x \<Rightarrow> sreturn (Some x)
     | Inl e \<Rightarrow> if e = NOENT then sreturn None else gerror E (sfail e))"

definition g_file :: "guard_env \<Rightarrow> string \<Rightarrow> budget \<Rightarrow> (gstate \<times> budget) guarded" where
  "g_file E name b =
     sbind (gerror E (g_stat E name)) (\<lambda>x.
     case x of
       NFile bytes mode \<Rightarrow>
         if GUARD_MOST - bu_bytes b < length bytes then sreturn (S_Other, b\<lparr>bu_over := True\<rparr>)
         else sreturn (S_File bytes (all_mode_bits mode), b\<lparr>bu_bytes := bu_bytes b + length bytes\<rparr>)
     | _ \<Rightarrow> sreturn (S_Other, b))"

definition g_names :: "guard_env \<Rightarrow> string list guarded" where
  "g_names E = gerror E (gcall E (\<lambda>d. Inr (take (Suc GUARD_ENTRIES) (map fst d), d)))"

fun read_entries ::
  "(string \<Rightarrow> budget \<Rightarrow> (gstate \<times> budget) guarded) \<Rightarrow> 32 word \<Rightarrow> string list \<Rightarrow> (string \<times> gstate) list \<Rightarrow> budget
     \<Rightarrow> (gstate \<times> budget) guarded" where
  "read_entries go mode [] acc b = sreturn (S_Dir mode acc, b)"
| "read_entries go mode (entry # rest) acc b =
     sbind (go entry b) (\<lambda>(found, b1).
     if bu_over b1 then sreturn (S_Other, b1)
     else read_entries go mode rest (btree_insert entry found acc) b1)"

text \<open>\<open>state\<close>, by how deep it may still go: \<open>DEPTH + 1\<close> less the depth.\<close>

definition read_node ::
  "guard_env \<Rightarrow> (string \<Rightarrow> budget \<Rightarrow> (gstate \<times> budget) guarded) option \<Rightarrow> string \<Rightarrow> budget \<Rightarrow> (gstate \<times> budget) guarded" where
  "read_node E deeper name b =
     sbind (g_kind E name) (\<lambda>kind.
     case kind of
       None \<Rightarrow> sreturn (S_Absent, b)
     | Some x \<Rightarrow>
         let b1 = b\<lparr>bu_entries := Suc (bu_entries b)\<rparr> in
         case deeper of
           None \<Rightarrow> sreturn (S_Other, b1\<lparr>bu_over := True\<rparr>)
         | Some go \<Rightarrow>
             if GUARD_ENTRIES < bu_entries b1 then sreturn (S_Other, b1\<lparr>bu_over := True\<rparr>)
             else case x of
               NFile _ _ \<Rightarrow> g_file E name b1
             | NLink t \<Rightarrow> sbind (gerror E (g_stat E name)) (\<lambda>_. sreturn (S_Link t, b1))
             | NDir mode _ \<Rightarrow>
                 sbind (gerror E (g_stat E name)) (\<lambda>_.
                 inside_dir name (sbind (g_names E) (\<lambda>ns. read_entries go (all_mode_bits mode) ns [] b1)))
             | NSpecial \<Rightarrow> sreturn (S_Other, b1))"

primrec read_state :: "guard_env \<Rightarrow> nat \<Rightarrow> string \<Rightarrow> budget \<Rightarrow> (gstate \<times> budget) guarded" where
  "read_state E 0 = read_node E None"
| "read_state E (Suc n) = read_node E (Some (read_state E n))"

fun whole :: "gstate \<Rightarrow> bool" where
  "whole S_Other = False"
| "whole (S_Dir _ entries) = list_all (\<lambda>e. whole (snd e)) entries"
| "whole _ = True"

section \<open>Putting it back\<close>

definition owner_rwx :: "32 word" where "owner_rwx = 0x1C0"

definition g_enter :: "guard_env \<Rightarrow> string \<Rightarrow> 32 word gcall" where
  "g_enter E name = gcall E (\<lambda>d.
     case map_of d name of
       None \<Rightarrow> Inl NOENT
     | Some (NDir mode _) \<Rightarrow> Inr (mode, d)
     | Some _ \<Rightarrow> Inl NOTDIR)"

definition opened_dir :: "guard_env \<Rightarrow> string \<Rightarrow> unit guarded" where
  "opened_dir E name =
     sbind (gerror E (g_enter E name)) (\<lambda>mode.
     sbind (if mode AND owner_rwx = owner_rwx then sreturn ()
            else gerror E (g_chmod E name (mode OR owner_rwx))) (\<lambda>_.
     sbind (gerror E (g_enter E name)) (\<lambda>_. sreturn ())))"

primrec clear_passes :: "guard_env \<Rightarrow> (string \<Rightarrow> unit guarded) \<Rightarrow> nat \<Rightarrow> unit guarded" where
  "clear_passes E go 0 = sfail (other_error ''a directory that never empties'')"
| "clear_passes E go (Suc k) =
     sbind (g_names E) (\<lambda>found.
     if found = [] then sreturn ()
     else sbind (each go found) (\<lambda>_. clear_passes E go k))"

text \<open>Every pass removes an entry or fails, so as many passes as entries, and one, are enough.\<close>

definition clear_dir :: "guard_env \<Rightarrow> (string \<Rightarrow> unit guarded) \<Rightarrow> unit guarded" where
  "clear_dir E go w = clear_passes E go (Suc (length (gw_dir w))) w"

definition remove_node :: "guard_env \<Rightarrow> (string \<Rightarrow> unit guarded) option \<Rightarrow> string \<Rightarrow> unit guarded" where
  "remove_node E deeper name =
     stry (g_unlink E name) (\<lambda>r.
     case r of
       Inr _ \<Rightarrow> sreturn ()
     | Inl e \<Rightarrow>
         if e = NOENT then sreturn ()
         else if e \<noteq> ISDIR \<and> e \<noteq> NOT_PERMITTED then gerror E (sfail e)
         else case deeper of
           None \<Rightarrow> sfail (other_error ''nested too deeply to remove'')
         | Some go \<Rightarrow>
             sbind (opened_dir E name) (\<lambda>_.
             sbind (inside_dir name (clear_dir E go)) (\<lambda>_.
             gerror E (g_rmdir E name))))"

primrec remove_at :: "guard_env \<Rightarrow> nat \<Rightarrow> string \<Rightarrow> unit guarded" where
  "remove_at E 0 = remove_node E None"
| "remove_at E (Suc n) = remove_node E (Some (remove_at E n))"

definition guard_remove :: "guard_env \<Rightarrow> string \<Rightarrow> unit guarded" where
  "guard_remove E = remove_at E (Suc GUARD_DEEPEST)"

definition temp_name :: "guard_env \<Rightarrow> string \<Rightarrow> nat \<Rightarrow> string" where
  "temp_name E name n = ''.'' @ name @ ''.casper-'' @ dec_text (ge_pid E) @ ''-'' @ dec_text n"

primrec beside :: "guard_env \<Rightarrow> string \<Rightarrow> (string \<Rightarrow> unit gcall) \<Rightarrow> nat \<Rightarrow> string guarded" where
  "beside E name mk 0 = sfail (other_error ''no free name beside it'')"
| "beside E name mk (Suc k) =
     sbind (\<lambda>w. (Inr (gw_next w), w\<lparr>gw_next := Suc (gw_next w)\<rparr>)) (\<lambda>n.
     let temp = temp_name E name n in
     stry (mk temp) (\<lambda>r.
     case r of
       Inr _ \<Rightarrow> sreturn temp
     | Inl e \<Rightarrow> if e = EXIST then beside E name mk k else gerror E (sfail e)))"

text \<open>Give up on a file beside: it is removed if it can be.\<close>

definition discard :: "guard_env \<Rightarrow> string \<Rightarrow> error \<Rightarrow> 'a guarded" where
  "discard E temp why = stry (g_unlink E temp) (\<lambda>_. sfail why)"

definition file_beside :: "guard_env \<Rightarrow> string \<Rightarrow> bytes \<Rightarrow> 32 word \<Rightarrow> string guarded" where
  "file_beside E name bytes mode =
     sbind (beside E name (g_make E (NFile [] 0x180)) 16) (\<lambda>temp.
     stry (sbind (gerror E (g_fill E temp bytes)) (\<lambda>_.
           sbind (gerror E (g_chmod E temp mode)) (\<lambda>_.
           gerror E (g_sync E)))) (\<lambda>r.
     case r of Inl why \<Rightarrow> discard E temp why | Inr _ \<Rightarrow> sreturn temp))"

definition rename_over :: "guard_env \<Rightarrow> string \<Rightarrow> string \<Rightarrow> unit guarded" where
  "rename_over E temp name =
     stry (gerror E (g_rename E temp name)) (\<lambda>r.
     case r of Inl why \<Rightarrow> discard E temp why | Inr _ \<Rightarrow> sreturn ())"

definition must_clear :: "gstate \<Rightarrow> gstate \<Rightarrow> bool" where
  "must_clear was cur \<longleftrightarrow>
     (case cur of S_Dir _ _ \<Rightarrow> True | S_Other \<Rightarrow> True | _ \<Rightarrow> False)
     \<or> (case was of S_Absent \<Rightarrow> True | S_Dir _ _ \<Rightarrow> True | _ \<Rightarrow> False)"

fun replace_with :: "guard_env \<Rightarrow> string \<Rightarrow> gstate \<Rightarrow> gstate \<Rightarrow> unit guarded"
  and replace_all :: "guard_env \<Rightarrow> (string \<times> gstate) list \<Rightarrow> unit guarded" where
  "replace_with E name was cur =
     sbind (if must_clear was cur then guard_remove E name else sreturn ()) (\<lambda>_.
     case was of
       S_Absent \<Rightarrow> sreturn ()
     | S_Other \<Rightarrow> sreturn ()
     | S_Dir mode entries \<Rightarrow>
         sbind (gerror E (g_make E (NDir owner_rwx []) name)) (\<lambda>_.
         sbind (opened_dir E name) (\<lambda>_.
         sbind (inside_dir name (replace_all E entries)) (\<lambda>_.
         gerror E (g_chmod E name mode))))
     | S_File bytes mode \<Rightarrow> sbind (file_beside E name bytes mode) (\<lambda>temp. rename_over E temp name)
     | S_Link target \<Rightarrow> sbind (beside E name (g_make E (NLink target)) 16) (\<lambda>temp. rename_over E temp name))"
| "replace_all E [] = sreturn ()"
| "replace_all E (e # entries) =
     sbind (replace_with E (fst e) (snd e) S_Absent) (\<lambda>_. replace_all E entries)"

definition notice :: "gstate \<Rightarrow> string \<Rightarrow> string" where
  "notice was shown =
     (if was = S_Absent then ''removed '' @ shown @ '': a jailed command may not create it''
      else ''restored '' @ shown @ '': a jailed command may not change it'')"

definition failed_line :: "string \<Rightarrow> error \<Rightarrow> string" where
  "failed_line shown why = ''could not restore '' @ shown @ '': '' @ snd why"

definition state_of :: "(string \<times> gstate) list \<Rightarrow> string \<Rightarrow> gstate" where
  "state_of entries name = (case map_of entries name of None \<Rightarrow> S_Absent | Some s \<Rightarrow> s)"

text \<open>The keys of both directories, in order.\<close>

definition every_name :: "(string \<times> gstate) list \<Rightarrow> (string \<times> gstate) list \<Rightarrow> string list" where
  "every_name entries found = sorted_list_of_set (fst ` set entries \<union> fst ` set found)"

lemma state_of_size: "size (state_of entries name) \<le> size_list (size_prod (\<lambda>_. 0) size) entries"
  by (induction entries) (auto simp: state_of_def)

function settle :: "guard_env \<Rightarrow> string \<Rightarrow> gstate \<Rightarrow> gstate \<Rightarrow> string \<Rightarrow> unit guarded"
  and settle_all ::
    "guard_env \<Rightarrow> string list \<Rightarrow> (string \<times> gstate) list \<Rightarrow> (string \<times> gstate) list \<Rightarrow> string \<Rightarrow> unit guarded" where
  "settle E name was cur shown =
     (if was = cur then sreturn ()
      else case (was, cur) of
        (S_Dir mode entries, S_Dir old found) \<Rightarrow>
          sbind (opened_dir E name) (\<lambda>_.
          sbind (inside_dir name (settle_all E (every_name entries found) entries found shown)) (\<lambda>_.
          sbind (gerror E (g_chmod E name mode)) (\<lambda>_.
          if mode \<noteq> old then gsay (notice was shown) () else sreturn ())))
      | _ \<Rightarrow>
          sbind (replace_with E name was cur) (\<lambda>_. gsay (notice was shown) ()))"
| "settle_all E [] entries found shown = sreturn ()"
| "settle_all E (entry # rest) entries found shown =
     (let inner = shown @ ''/'' @ from_utf8_lossy entry in
      stry (settle E entry (state_of entries entry) (state_of found entry) inner) (\<lambda>r.
      sbind (case r of Inl why \<Rightarrow> gsay (failed_line inner why) () | Inr _ \<Rightarrow> sreturn ()) (\<lambda>_.
      settle_all E rest entries found shown)))"
  by pat_completeness auto

termination
  by (relation "inv_image (less_than <*lex*> less_than) (\<lambda>x. case x of
        Inl (E, name, was, cur, shown) \<Rightarrow> (size was, 0)
      | Inr (E, ns, entries, found, shown) \<Rightarrow> (size_list (size_prod (\<lambda>_. 0) size) entries, length ns))")
    (auto simp: le_imp_less_or_eq state_of_size)


section \<open>The guard\<close>

definition guard_split :: "string \<Rightarrow> string list \<times> string" where
  "guard_split name =
     (let parts = split_at slash name in (filter (\<lambda>p. p \<noteq> []) (butlast parts), last parts))"

definition LINKED :: string where
  "LINKED = '' is reached through a symbolic link, which a jailed command's guard does not follow''"

definition kept_state :: "string \<Rightarrow> gstate \<times> budget \<Rightarrow> error + gstate" where
  "kept_state shown x =
     (case x of (st, b) \<Rightarrow>
        if bu_over b
        then Inl (other_error (shown @ '' holds more than the '' @ dec_text GUARD_MOST @ '' bytes or '' @ dec_text GUARD_ENTRIES
               @ '' entries a jailed command's guard keeps''))
        else if (case st of S_Link _ \<Rightarrow> True | _ \<Rightarrow> False) then Inl (other_error (shown @ LINKED))
        else if \<not> whole st
        then Inl (other_error (shown @ '' holds something other than files, links and directories, which the guard cannot keep''))
        else Inr st)"

fun read_under :: "guard_env \<Rightarrow> string list \<Rightarrow> string \<Rightarrow> string \<Rightarrow> gstate guarded" where
  "read_under E [] name shown =
     sbind (read_state E (Suc GUARD_DEPTH) name Budget_default) (\<lambda>x. slift (kept_state shown x))"
| "read_under E (part # parts) name shown =
     sbind (g_kind E part) (\<lambda>kind.
     case kind of
       Some (NDir _ _) \<Rightarrow>
         sbind (gerror E (g_enter E part)) (\<lambda>_. inside_dir part (read_under E parts name shown))
     | Some (NLink _) \<Rightarrow> sfail (other_error (shown @ LINKED))
     | _ \<Rightarrow> sreturn S_Absent)"

fun put_under :: "guard_env \<Rightarrow> string list \<Rightarrow> string \<Rightarrow> gstate \<Rightarrow> string \<Rightarrow> unit guarded" where
  "put_under E [] name was shown =
     stry (read_state E (Suc GUARD_DEPTH) name Budget_default) (\<lambda>r.
     settle E name was (case r of Inr (st, _) \<Rightarrow> st | Inl _ \<Rightarrow> S_Other) shown)"
| "put_under E (part # parts) name was shown =
     sbind (g_kind E part) (\<lambda>kind.
     sbind (case kind of
              Some (NDir _ _) \<Rightarrow> sreturn ()
            | None \<Rightarrow> gerror E (g_make E (NDir 0x1ED []) part)
            | Some _ \<Rightarrow> sbind (guard_remove E part) (\<lambda>_. gerror E (g_make E (NDir 0x1ED []) part))) (\<lambda>_.
     sbind (opened_dir E part) (\<lambda>_.
     inside_dir part (put_under E parts name was shown))))"

text \<open>A writable root is reached from the top of the tree, through directories alone.\<close>

fun is_dir_at :: "gdir \<Rightarrow> string list \<Rightarrow> bool" where
  "is_dir_at d [] = True"
| "is_dir_at d (c # cs) = (case map_of d c of Some (NDir _ es) \<Rightarrow> is_dir_at es cs | _ \<Rightarrow> False)"

definition opened_root :: "guard_env \<Rightarrow> string list \<Rightarrow> unit guarded" where
  "opened_root E root = gerror E (gcall E (\<lambda>d. if is_dir_at d root then Inr ((), d) else Inl NOTDIR))"

fun inside_path :: "string list \<Rightarrow> (gworld, 'e, 'a) prog \<Rightarrow> (gworld, 'e, 'a) prog" where
  "inside_path [] m = m"
| "inside_path (c # cs) m = inside_dir c (inside_path cs m)"

record guard_kept =
  kp_root :: "string list"
  kp_name :: string
  kp_shown :: string
  kp_was :: gstate

text \<open>The writable roots are the canonical ones; \<open>shown_of\<close> is how a result names a path below one.\<close>

fun guard_take :: "guard_env \<Rightarrow> (string list \<Rightarrow> string \<Rightarrow> string) \<Rightarrow> (string list \<times> string) list \<Rightarrow> guard_kept list \<Rightarrow> guard_kept list guarded" where
  "guard_take E shown_of [] kept = sreturn kept"
| "guard_take E shown_of ((root, name) # rest) kept =
     (if list_ex (\<lambda>k. kp_root k = root \<and> kp_name k = name) kept then guard_take E shown_of rest kept
      else
        let shown = shown_of root name; (parents, leaf) = guard_split name in
        sbind (opened_root E root) (\<lambda>_.
        sbind (inside_path root (read_under E parents leaf shown)) (\<lambda>was.
        guard_take E shown_of rest
          (if was = S_Absent then kept
           else kept @ [\<lparr>kp_root = root, kp_name = name, kp_shown = shown, kp_was = was\<rparr>]))))"

definition put_back :: "guard_env \<Rightarrow> guard_kept \<Rightarrow> unit guarded" where
  "put_back E k =
     (case guard_split (kp_name k) of (parents, leaf) \<Rightarrow>
        sbind (opened_root E (kp_root k)) (\<lambda>_.
        inside_path (kp_root k) (put_under E parents leaf (kp_was k) (kp_shown k))))"

fun guard_restore :: "guard_env \<Rightarrow> guard_kept list \<Rightarrow> (gworld, error, unit) prog" where
  "guard_restore E [] = sreturn ()"
| "guard_restore E (k # ks) =
     stry (put_back E k) (\<lambda>r.
     sbind (case r of Inl why \<Rightarrow> gsay (failed_line (kp_shown k) why) () | Inr _ \<Rightarrow> sreturn ()) (\<lambda>_.
     guard_restore E ks))"

section \<open>What a state says of a tree\<close>

text \<open>\<open>describes slot s\<close>: the entry is as the state says; \<open>S_Other\<close> says nothing.\<close>

fun describes :: "fnode option \<Rightarrow> gstate \<Rightarrow> bool" where
  "describes slot S_Other = True"
| "describes slot S_Absent = (slot = None)"
| "describes slot (S_File b m) = (case slot of Some (NFile b' m') \<Rightarrow> b' = b \<and> all_mode_bits m' = m | _ \<Rightarrow> False)"
| "describes slot (S_Link t) = (slot = Some (NLink t))"
| "describes slot (S_Dir m entries) =
     (case slot of
        Some (NDir m' es) \<Rightarrow>
          all_mode_bits m' = m \<and> (\<forall>e \<in> set entries. describes (map_of es (fst e)) (snd e))
          \<and> (\<forall>n. map_of es n \<noteq> None \<longrightarrow> n \<in> fst ` set entries)
      | _ \<Rightarrow> False)"

text \<open>The states a guard keeps: nothing unreadable, permission bits only, each name once.\<close>

fun proper :: "gstate \<Rightarrow> bool" where
  "proper S_Other = False"
| "proper (S_File b m) = (all_mode_bits m = m)"
| "proper (S_Dir m entries) = (all_mode_bits m = m \<and> distinct (map fst entries) \<and> (\<forall>e \<in> set entries. proper (snd e)))"
| "proper _ = True"


section \<open>What the calls do\<close>

lemma gcall_ok:
  "gcall E f w = (Inr a, w') \<longleftrightarrow>
     ge_fault E (gw_ops w) = None \<and> (\<exists>d. f (gw_dir w) = Inr (a, d) \<and> w' = w\<lparr>gw_ops := Suc (gw_ops w), gw_dir := d\<rparr>)"
  by (auto simp: gcall_def Let_def split: option.splits sum.splits)

lemma gcall_err:
  assumes "gcall E f w = (Inl e, w')"
  shows "w' = w\<lparr>gw_ops := Suc (gw_ops w)\<rparr> \<and> ((\<exists>n. e = Errno n) \<or> f (gw_dir w) = Inl e)"
  using assms by (auto simp: gcall_def Let_def split: option.splits sum.splits)

lemma gerror_ok [sys_ok]: "gerror E m w = (Inr a, w') \<longleftrightarrow> m w = (Inr a, w')"
  by (simp add: gerror_def sys_ok)

lemma gerror_fail: "gerror E (sfail e) w = (Inl (errno_kind e, ge_text E e), w)"
  by (simp add: gerror_def with_error_def sfail_def)

text \<open>\<open>leaves name v w w'\<close>: nothing was said, and only the entry \<open>name\<close> may have changed, to \<open>v\<close>.\<close>

definition leaves :: "string \<Rightarrow> fnode option \<Rightarrow> gworld \<Rightarrow> gworld \<Rightarrow> bool" where
  "leaves name v w w' \<longleftrightarrow> gw_said w' = gw_said w \<and> map_of (gw_dir w') = (map_of (gw_dir w))(name := v)"

lemma leaves_slot: "leaves name v w w' \<Longrightarrow> map_of (gw_dir w') name = v"
  by (simp add: leaves_def)

lemma leaves_same: "leaves name (map_of (gw_dir w) name) w w"
  by (simp add: leaves_def)

lemma leaves_trans: "leaves name v w w1 \<Longrightarrow> leaves name v' w1 w2 \<Longrightarrow> leaves name v' w w2"
  by (auto simp: leaves_def)

lemma g_unlink_ok: "g_unlink E name w = (Inr u, w') \<Longrightarrow> leaves name None w w'"
  unfolding g_unlink_def gcall_ok leaves_def
  by (auto simp: delete_conv' split: option.splits fnode.splits)

lemma g_rmdir_ok: "g_rmdir E name w = (Inr u, w') \<Longrightarrow> leaves name None w w'"
  unfolding g_rmdir_def gcall_ok leaves_def
  by (auto simp: delete_conv' split: option.splits fnode.splits if_splits)

lemma g_make_ok: "g_make E x name w = (Inr u, w') \<Longrightarrow> map_of (gw_dir w) name = None \<and> leaves name (Some x) w w'"
  unfolding g_make_def gcall_ok leaves_def by (auto simp: update_conv' split: if_splits)

lemma g_chmod_ok:
  "g_chmod E name m w = (Inr u, w') \<Longrightarrow> \<exists>x. map_of (gw_dir w) name = Some x \<and> leaves name (Some (set_mode m x)) w w'"
  unfolding g_chmod_def gcall_ok leaves_def by (auto simp: update_conv' split: option.splits)

lemma g_fill_ok:
  "g_fill E name b w = (Inr u, w') \<Longrightarrow> \<exists>b' m. map_of (gw_dir w) name = Some (NFile b' m) \<and> leaves name (Some (NFile b m)) w w'"
  unfolding g_fill_def gcall_ok leaves_def by (auto simp: update_conv' split: option.splits fnode.splits)

lemma g_sync_ok: "g_sync E w = (Inr u, w') \<Longrightarrow> gw_dir w' = gw_dir w \<and> gw_said w' = gw_said w"
  unfolding g_sync_def gcall_ok by auto

lemma g_rename_ok:
  "g_rename E source target w = (Inr u, w') \<Longrightarrow>
     \<exists>x. map_of (gw_dir w) source = Some x \<and> gw_said w' = gw_said w
       \<and> map_of (gw_dir w') = (map_of (gw_dir w))(source := None, target := Some x)"
  unfolding g_rename_def gcall_ok
  by (auto simp: update_conv' delete_conv' split: option.splits fnode.splits)

lemma g_stat_ok: "g_stat E name w = (Inr x, w') \<Longrightarrow> map_of (gw_dir w) name = Some x \<and> gw_dir w' = gw_dir w \<and> gw_said w' = gw_said w"
  unfolding g_stat_def gcall_ok by (auto split: option.splits)

lemma g_enter_ok:
  "g_enter E name w = (Inr m, w') \<Longrightarrow>
     (\<exists>es. map_of (gw_dir w) name = Some (NDir m es)) \<and> gw_dir w' = gw_dir w \<and> gw_said w' = gw_said w"
  unfolding g_enter_def gcall_ok by (auto split: option.splits fnode.splits)

lemma g_kind_ok:
  assumes "g_kind E name w = (Inr kind, w')"
  shows "kind = map_of (gw_dir w) name \<and> gw_dir w' = gw_dir w \<and> gw_said w' = gw_said w"
proof -
  obtain r u where run: "g_stat E name w = (r, u)"
    and rest: "(case r of Inr x \<Rightarrow> sreturn (Some x)
       | Inl e \<Rightarrow> if e = NOENT then sreturn None else gerror E (sfail e)) u = (Inr kind, w')"
    using assms unfolding g_kind_def stry_ok by blast
  show ?thesis
  proof (cases r)
    case (Inr x)
    then show ?thesis
      using run rest g_stat_ok by (auto simp: sys_ok)
  next
    case (Inl e)
    then have "e = NOENT" "kind = None" "w' = u"
      using rest by (auto simp: sys_ok gerror_fail split: if_splits)
    then show ?thesis
      using run Inl unfolding g_stat_def by (auto dest!: gcall_err split: option.splits)
  qed
qed

lemma opened_dir_ok:
  assumes "opened_dir E name w = (Inr u, w')"
  shows "\<exists>m m' es. map_of (gw_dir w) name = Some (NDir m es) \<and> leaves name (Some (NDir m' es)) w w'"
proof -
  obtain mode u1 u2 m2 u3 where enter: "g_enter E name w = (Inr mode, u1)"
    and chmod: "(if mode AND owner_rwx = owner_rwx then sreturn ()
            else gerror E (g_chmod E name (mode OR owner_rwx))) u1 = (Inr (), u2)"
    and again: "g_enter E name u2 = (Inr m2, u3)" and last: "w' = u3"
    using assms unfolding opened_dir_def sbind_ok gerror_ok sreturn_ok by auto
  obtain es where es: "map_of (gw_dir w) name = Some (NDir mode es)" "gw_dir u1 = gw_dir w" "gw_said u1 = gw_said w"
    using g_enter_ok [OF enter] by blast
  have "\<exists>m'. leaves name (Some (NDir m' es)) u1 u2"
  proof (cases "mode AND owner_rwx = owner_rwx")
    case True
    then show ?thesis
      using chmod es leaves_same [of name u1] by (auto simp: sys_ok)
  next
    case False
    then show ?thesis
      using chmod es g_chmod_ok by (fastforce simp: sys_ok set_mode_def)
  qed
  then show ?thesis
    using es g_enter_ok [OF again] unfolding last leaves_def by auto
qed

lemma inside_dir_ok:
  assumes "inside_dir name p w = (r, w')" "map_of (gw_dir w) name = Some (NDir m es)"
  shows "\<exists>u'. p (w\<lparr>gw_dir := es\<rparr>) = (r, u') \<and> gw_said w' = gw_said u'
    \<and> map_of (gw_dir w') = (map_of (gw_dir w))(name \<mapsto> NDir m (gw_dir u'))"
  using assms by (auto simp: inside_dir_def update_conv' split: prod.splits)

lemma g_names_ok:
  "g_names E w = (Inr ns, w') \<Longrightarrow> ns = take (Suc GUARD_ENTRIES) (map fst (gw_dir w)) \<and> gw_dir w' = gw_dir w \<and> gw_said w' = gw_said w"
  unfolding g_names_def gerror_ok gcall_ok by auto

section \<open>Removing and replacing\<close>

lemma each_said:
  assumes "\<And>x w u w'. go x w = (Inr u, w') \<Longrightarrow> gw_said w' = gw_said w" "each go xs w = (Inr ys, w')"
  shows "gw_said w' = gw_said w"
  using assms(2)
proof (induction xs arbitrary: w ys)
  case (Cons x xs)
  then show ?case
    using assms(1) by (fastforce simp: sys_ok)
qed (simp add: sys_ok)

lemma clear_passes_ok:
  assumes "\<And>x w u w'. go x w = (Inr u, w') \<Longrightarrow> gw_said w' = gw_said w"
  shows "clear_passes E go k w = (Inr u, w') \<Longrightarrow> gw_dir w' = [] \<and> gw_said w' = gw_said w"
proof (induction k arbitrary: w)
  case (Suc k)
  then obtain found u1 where found: "g_names E w = (Inr found, u1)"
    and rest: "(if found = [] then sreturn () else sbind (each go found) (\<lambda>_. clear_passes E go k)) u1 = (Inr (), w')"
    by (auto simp: sys_ok)
  show ?case
  proof (cases "found = []")
    case True
    then show ?thesis
      using rest g_names_ok [OF found] by (auto simp: sys_ok)
  next
    case False
    then obtain ys u2 where "each go found u1 = (Inr ys, u2)" "clear_passes E go k u2 = (Inr (), w')"
      using rest by (auto simp: sys_ok)
    then show ?thesis
      using Suc.IH each_said [OF assms] g_names_ok [OF found] by fastforce
  qed
qed (simp add: sfail_def)

lemma remove_node_ok:
  assumes run: "remove_node E deeper name w = (Inr u, w')"
    and deeper: "\<And>go x w u w'. deeper = Some go \<Longrightarrow> go x w = (Inr u, w') \<Longrightarrow> gw_said w' = gw_said w"
  shows "leaves name None w w'"
proof -
  obtain r u1 where unlink: "g_unlink E name w = (r, u1)"
    using run unfolding remove_node_def stry_ok by blast
  show ?thesis
  proof (cases r)
    case (Inr x)
    then show ?thesis
      using run unlink g_unlink_ok unfolding remove_node_def stry_def by (auto simp: sys_ok)
  next
    case (Inl e)
    note e = gcall_err [OF unlink [unfolded Inl g_unlink_def]]
    show ?thesis
    proof (cases "e = NOENT")
      case True
      then have "map_of (gw_dir w) name = None"
        using e by (auto simp: ISDIR_def split: option.splits fnode.splits)
      then show ?thesis
        using run unlink e Inl True unfolding remove_node_def stry_def leaves_def by (auto simp: sys_ok fun_upd_idem)
    next
      case False
      then obtain go where go: "deeper = Some go" and e': "e = ISDIR \<or> e = NOT_PERMITTED"
        using run unlink Inl unfolding remove_node_def stry_def
        by (auto simp: sys_ok gerror_fail sfail_def split: if_splits option.splits)
      then obtain u2 u3 where open': "opened_dir E name u1 = (Inr (), u2)"
        and clear: "inside_dir name (clear_dir E go) u2 = (Inr (), u3)" and rmdir: "g_rmdir E name u3 = (Inr (), w')"
        using run unlink Inl False unfolding remove_node_def stry_def
        by (auto simp: sys_ok split: if_splits)
      obtain m m' es where es: "leaves name (Some (NDir m' es)) u1 u2"
        using opened_dir_ok [OF open'] by blast
      obtain u' where "clear_dir E go (u2\<lparr>gw_dir := es\<rparr>) = (Inr (), u')" "gw_said u3 = gw_said u'"
        "map_of (gw_dir u3) = (map_of (gw_dir u2))(name \<mapsto> NDir m' (gw_dir u'))"
        using inside_dir_ok [OF clear leaves_slot [OF es]] by blast
      moreover from this have "gw_said u' = gw_said u2"
        using clear_passes_ok [OF deeper [OF go]] unfolding clear_dir_def by fastforce
      ultimately have "leaves name (Some (NDir m' (gw_dir u'))) u2 u3"
        by (simp add: leaves_def)
      then have "leaves name None u1 w'"
        using es g_rmdir_ok [OF rmdir] leaves_trans by blast
      then show ?thesis
        using e by (simp add: leaves_def)
    qed
  qed
qed

lemma remove_at_ok: "remove_at E n name w = (Inr u, w') \<Longrightarrow> leaves name None w w'"
proof (induction n arbitrary: name w u w')
  case 0
  then show ?case
    using remove_node_ok [of E None name w u w'] by simp
next
  case (Suc n)
  have "gw_said w' = gw_said w" if "remove_at E n x w = (Inr u, w')" for x w u w'
    using Suc.IH [OF that] by (simp add: leaves_def)
  then show ?case
    using remove_node_ok [of E "Some (remove_at E n)" name w u w'] Suc.prems by auto
qed

lemma guard_remove_ok: "guard_remove E name w = (Inr u, w') \<Longrightarrow> leaves name None w w'"
  unfolding guard_remove_def by (rule remove_at_ok)

lemma temp_name_other: "temp_name E name n \<noteq> name"
proof
  assume "temp_name E name n = name"
  then have "length (temp_name E name n) = length name"
    by simp
  then show False
    by (simp add: temp_name_def)
qed

lemma beside_ok:
  assumes mk: "\<And>temp w u w'. mk temp w = (Inr u, w') \<Longrightarrow> map_of (gw_dir w) temp = None \<and> leaves temp (Some x) w w'"
    and mk_err: "\<And>temp w e w'. mk temp w = (Inl e, w') \<Longrightarrow> gw_dir w' = gw_dir w \<and> gw_said w' = gw_said w"
  shows "beside E name mk k w = (Inr temp, w') \<Longrightarrow>
    map_of (gw_dir w) temp = None \<and> leaves temp (Some x) w w' \<and> (\<exists>n. temp = temp_name E name n)"
proof (induction k arbitrary: w)
  case (Suc k)
  let ?temp = "temp_name E name (gw_next w)"
  obtain r u where run: "mk ?temp (w\<lparr>gw_next := Suc (gw_next w)\<rparr>) = (r, u)"
    and rest: "(case r of Inr _ \<Rightarrow> sreturn ?temp
       | Inl e \<Rightarrow> if e = EXIST then beside E name mk k else gerror E (sfail e)) u = (Inr temp, w')"
    using Suc.prems by (auto simp: Let_def sbind_def stry_def split: prod.splits)
  show ?case
  proof (cases r)
    case (Inr a)
    then show ?thesis
      using mk [OF run [unfolded Inr]] rest by (auto simp: sys_ok leaves_def)
  next
    case (Inl e)
    then have "beside E name mk k u = (Inr temp, w')"
      using rest by (auto simp: gerror_fail split: if_splits)
    from Suc.IH [OF this] show ?thesis
      using mk_err [OF run [unfolded Inl]] by (auto simp: leaves_def)
  qed
qed (simp add: sfail_def)

lemma g_make_err: "g_make E x name w = (Inl e, w') \<Longrightarrow> gw_dir w' = gw_dir w \<and> gw_said w' = gw_said w"
  unfolding g_make_def by (drule gcall_err) auto

lemma beside_make_ok:
  "beside E name (g_make E' x) k w = (Inr temp, w') \<Longrightarrow>
     map_of (gw_dir w) temp = None \<and> leaves temp (Some x) w w' \<and> (\<exists>n. temp = temp_name E name n)"
  using beside_ok [of "g_make E' x" x] g_make_ok g_make_err by blast

lemma discard_fails: "discard E temp why w \<noteq> (Inr a, w')"
  by (auto simp: discard_def stry_def sfail_def split: prod.splits)

lemma file_beside_ok:
  assumes "file_beside E name b mode w = (Inr temp, w')"
  shows "map_of (gw_dir w) temp = None \<and> leaves temp (Some (NFile b mode)) w w' \<and> (\<exists>n. temp = temp_name E name n)"
proof -
  obtain t u1 where make: "beside E name (g_make E (NFile [] 0x180)) 16 w = (Inr t, u1)"
    using assms unfolding file_beside_def sbind_ok by blast
  then obtain r u2 where fill: "(sbind (gerror E (g_fill E t b)) (\<lambda>_. sbind (gerror E (g_chmod E t mode)) (\<lambda>_. gerror E (g_sync E)))) u1 = (r, u2)"
    and rest: "(case r of Inl why \<Rightarrow> discard E t why | Inr _ \<Rightarrow> sreturn t) u2 = (Inr temp, w')"
    using assms unfolding file_beside_def sbind_ok stry_ok by fastforce
  have r: "r = Inr ()" "temp = t" "w' = u2"
    using rest by (cases r; simp add: discard_fails sys_ok)+
  obtain v1 v2 where steps: "g_fill E t b u1 = (Inr (), v1)" "g_chmod E t mode v1 = (Inr (), v2)" "g_sync E v2 = (Inr (), u2)"
    using fill unfolding r(1) sbind_ok gerror_ok by auto
  have t: "map_of (gw_dir w) t = None" "leaves t (Some (NFile [] 0x180)) w u1" "\<exists>n. t = temp_name E name n"
    using beside_make_ok [OF make] by blast+
  obtain m where "leaves t (Some (NFile b m)) u1 v1"
    using g_fill_ok [OF steps(1)] by blast
  moreover from this have "leaves t (Some (NFile b mode)) v1 v2"
    using g_chmod_ok [OF steps(2)] by (auto simp: set_mode_def dest: leaves_slot)
  ultimately have "leaves t (Some (NFile b mode)) w v2"
    using t(2) leaves_trans by blast
  then show ?thesis
    using t g_sync_ok [OF steps(3)] r by (simp add: leaves_def)
qed

lemma rename_over_ok:
  assumes "rename_over E temp name u = (Inr a, w')" "map_of (gw_dir w) temp = None" "leaves temp (Some x) w u" "temp \<noteq> name"
  shows "leaves name (Some x) w w'"
proof -
  have "g_rename E temp name u = (Inr (), w')"
    using assms(1) unfolding rename_over_def stry_def
    by (auto simp: discard_fails sys_ok split: prod.splits sum.splits)
  from g_rename_ok [OF this] show ?thesis
    using assms(2-4) leaves_slot [OF assms(3)] by (auto simp: leaves_def fun_eq_iff)
qed

lemma must_clear_dir: "must_clear (S_Dir m es) cur" "must_clear S_Absent cur"
  by (simp_all add: must_clear_def)


lemma replace_with_ok:
  "replace_with E name was cur w = (Inr u, w') \<Longrightarrow> proper was \<Longrightarrow> describes (map_of (gw_dir w) name) cur \<Longrightarrow>
     \<exists>v. leaves name v w w' \<and> describes v was"
  "replace_all E entries w = (Inr u, w') \<Longrightarrow> distinct (map fst entries) \<Longrightarrow> (\<forall>e \<in> set entries. proper (snd e)) \<Longrightarrow>
     (\<forall>e \<in> set entries. map_of (gw_dir w) (fst e) = None) \<Longrightarrow>
     gw_said w' = gw_said w \<and> (\<forall>e \<in> set entries. describes (map_of (gw_dir w') (fst e)) (snd e))
     \<and> (\<forall>n. n \<notin> fst ` set entries \<longrightarrow> map_of (gw_dir w') n = map_of (gw_dir w) n)"
proof (induction E name was cur and E entries arbitrary: w u w' and w u w' rule: replace_with_replace_all.induct)
  case (1 E name was cur)
  obtain w1 where clear: "(if must_clear was cur then guard_remove E name else sreturn ()) w = (Inr (), w1)"
    and rest: "(case was of
       S_Absent \<Rightarrow> sreturn ()
     | S_Other \<Rightarrow> sreturn ()
     | S_Dir mode entries \<Rightarrow>
         sbind (gerror E (g_make E (NDir owner_rwx []) name)) (\<lambda>_.
         sbind (opened_dir E name) (\<lambda>_.
         sbind (inside_dir name (replace_all E entries)) (\<lambda>_.
         gerror E (g_chmod E name mode))))
     | S_File bytes mode \<Rightarrow> sbind (file_beside E name bytes mode) (\<lambda>temp. rename_over E temp name)
     | S_Link target \<Rightarrow> sbind (beside E name (g_make E (NLink target)) 16) (\<lambda>temp. rename_over E temp name)) w1 = (Inr (), w')"
    using "1.prems"(1) unfolding replace_with.simps sbind_ok by auto
  have w1: "\<exists>v. leaves name v w w1" "must_clear was cur \<Longrightarrow> leaves name None w w1"
    using clear leaves_same [of name w] by (auto simp: sys_ok split: if_splits dest: guard_remove_ok)
  show ?case
  proof (cases was)
    case S_Absent
    then show ?thesis
      using rest w1(2) must_clear_dir by (auto simp: sys_ok)
  next
    case S_Other
    then show ?thesis
      using "1.prems"(2) by simp
  next
    case (S_File bytes mode)
    then obtain temp u1 where "file_beside E name bytes mode w1 = (Inr temp, u1)" "rename_over E temp name u1 = (Inr (), w')"
      using rest by (auto simp: sbind_ok)
    then have "leaves name (Some (NFile bytes mode)) w1 w'"
      using file_beside_ok rename_over_ok temp_name_other by metis
    then show ?thesis
      using w1(1) leaves_trans "1.prems"(2) S_File by fastforce
  next
    case (S_Link target)
    then obtain temp u1 where "beside E name (g_make E (NLink target)) 16 w1 = (Inr temp, u1)" "rename_over E temp name u1 = (Inr (), w')"
      using rest by (auto simp: sbind_ok)
    then have "leaves name (Some (NLink target)) w1 w'"
      using beside_make_ok rename_over_ok temp_name_other by metis
    then show ?thesis
      using w1(1) leaves_trans S_Link by fastforce
  next
    case (S_Dir mode entries)
    then obtain w2 w3 w4 where make: "g_make E (NDir owner_rwx []) name w1 = (Inr (), w2)"
      and enter: "opened_dir E name w2 = (Inr (), w3)" and inside: "inside_dir name (replace_all E entries) w3 = (Inr (), w4)"
      and mode: "g_chmod E name mode w4 = (Inr (), w')"
      using rest by (auto simp: sbind_ok gerror_ok)
    have l1: "leaves name None w w1"
      using w1(2) must_clear_dir S_Dir by blast
    have l2: "leaves name (Some (NDir owner_rwx [])) w1 w2"
      using g_make_ok [OF make] by blast
    obtain m' where l3: "leaves name (Some (NDir m' [])) w2 w3"
      using opened_dir_ok [OF enter] leaves_slot [OF l2] by auto
    obtain u' where run: "replace_all E entries (w3\<lparr>gw_dir := []\<rparr>) = (Inr (), u')" "gw_said w4 = gw_said u'"
      "map_of (gw_dir w4) = (map_of (gw_dir w3))(name \<mapsto> NDir m' (gw_dir u'))"
      using inside_dir_ok [OF inside leaves_slot [OF l3]] by blast
    have inner: "gw_said u' = gw_said w3 \<and> (\<forall>e \<in> set entries. describes (map_of (gw_dir u') (fst e)) (snd e))
        \<and> (\<forall>n. n \<notin> fst ` set entries \<longrightarrow> map_of (gw_dir u') n = None)"
      using "1.IH" [OF S_Dir run(1)] "1.prems"(2) S_Dir by simp
    then have all: "gw_said u' = gw_said w3" "\<forall>e \<in> set entries. describes (map_of (gw_dir u') (fst e)) (snd e)"
      "\<forall>n. map_of (gw_dir u') n \<noteq> None \<longrightarrow> n \<in> fst ` set entries"
      by (blast, blast) (use inner in metis)
    have l4: "leaves name (Some (NDir m' (gw_dir u'))) w3 w4"
      using run(2,3) all(1) by (simp add: leaves_def)
    have "leaves name (Some (NDir mode (gw_dir u'))) w4 w'"
      using g_chmod_ok [OF mode] leaves_slot [OF l4] by (auto simp: set_mode_def)
    then have "leaves name (Some (NDir mode (gw_dir u'))) w w'"
      using l1 l2 l3 l4 leaves_trans by meson
    moreover have "describes (Some (NDir mode (gw_dir u'))) was"
      using all(2,3) "1.prems"(2) S_Dir by auto
    ultimately show ?thesis
      by blast
  qed
next
  case (2 E)
  then show ?case
    by (simp add: sys_ok)
next
  case (3 E e entries)
  then obtain w1 where one: "replace_with E (fst e) (snd e) S_Absent w = (Inr (), w1)"
    and rest: "replace_all E entries w1 = (Inr (), w')"
    by (auto simp: sbind_ok simp del: replace_with.simps)
  obtain v where v: "leaves (fst e) v w w1" "describes v (snd e)"
    using "3.IH"(1) [OF one] "3.prems"(3,4) by auto
  have free: "\<forall>x \<in> set entries. map_of (gw_dir w1) (fst x) = None"
    using v(1) "3.prems"(2,4) by (auto simp: leaves_def) (metis fst_conv image_eqI)
  show ?case
    using "3.IH"(2) [OF rest] "3.prems"(2,3) free v by (auto simp: leaves_def)
qed


section \<open>Settling\<close>

definition trouble :: "string list \<Rightarrow> bool" where
  "trouble lines \<longleftrightarrow> list_ex (prefix ''could not restore '') lines"

lemma trouble_append [simp]: "trouble (xs @ ys) \<longleftrightarrow> trouble xs \<or> trouble ys"
  by (simp add: trouble_def)

lemma trouble_nil [simp]: "\<not> trouble []"
  by (simp add: trouble_def)

lemma trouble_failed [simp]: "trouble [failed_line shown why]"
  by (simp add: trouble_def failed_line_def prefix_def)

text \<open>Whatever a step did besides, if it said nothing of a failure then only \<open>name\<close> changed, and it is as it was.\<close>

definition settled :: "string \<Rightarrow> gstate \<Rightarrow> gworld \<Rightarrow> gworld \<Rightarrow> bool" where
  "settled name was w w' \<longleftrightarrow>
     (\<exists>ls. gw_said w' = gw_said w @ ls
        \<and> (\<not> trouble ls \<longrightarrow> (\<exists>v. map_of (gw_dir w') = (map_of (gw_dir w))(name := v) \<and> describes v was)))"

lemma leaves_settled: "leaves name v w w' \<Longrightarrow> describes v was \<Longrightarrow> settled name was w w'"
  by (auto simp: leaves_def settled_def)

lemma settled_said:
  assumes "settled name was w w1" "gw_dir w' = gw_dir w1" "gw_said w' = gw_said w1 @ ls"
  shows "settled name was w w'"
  using assms by (auto simp: settled_def)

lemma describes_slot:
  assumes "describes (Some (NDir m es)) (S_Dir old found)"
  shows "describes (map_of es n) (state_of found n)"
proof (cases "map_of found n")
  case None
  then have "n \<notin> fst ` set found"
    by (metis map_of_eq_None_iff)
  then have "map_of es n = None"
    using assms by auto
  then show ?thesis
    using None by (simp add: state_of_def)
next
  case (Some st)
  then show ?thesis
    using assms by (fastforce simp: state_of_def dest: map_of_SomeD)
qed

lemma state_of_entry: "distinct (map fst entries) \<Longrightarrow> e \<in> set entries \<Longrightarrow> state_of entries (fst e) = snd e"
  unfolding state_of_def by (metis map_of_is_SomeI option.simps(5) prod.collapse)

lemma state_of_proper: "(\<forall>e \<in> set entries. proper (snd e)) \<Longrightarrow> proper (state_of entries n)"
  by (auto simp: state_of_def split: option.splits dest!: map_of_SomeD)

subsection \<open>What was said stays said\<close>

definition says_more :: "(gworld, 'e, 'a) prog \<Rightarrow> bool" where
  "says_more m \<longleftrightarrow> (\<forall>w. prefix (gw_said w) (gw_said (snd (m w))))"

named_theorems says_intros \<open>programs that only add to what was said\<close>

lemma says_moreD: "says_more m \<Longrightarrow> m w = (r, w') \<Longrightarrow> \<exists>ls. gw_said w' = gw_said w @ ls"
  unfolding says_more_def prefix_def by (metis snd_conv)

lemma says_return [says_intros]: "says_more (sreturn a)" and says_fail [says_intros]: "says_more (sfail e)"
  by (simp_all add: says_more_def sreturn_def sfail_def)

lemma says_try [says_intros]:
  assumes "says_more m" "\<And>x. says_more (f x)"
  shows "says_more (stry m f)"
  using assms unfolding says_more_def stry_def by (auto split: prod.splits) (metis prefix_order.trans snd_conv)

lemma says_bind [says_intros]: "says_more m \<Longrightarrow> (\<And>a. says_more (f a)) \<Longrightarrow> says_more (sbind m f)"
  unfolding sbind_as_stry by (rule says_try) (auto split: sum.splits intro: says_intros)

lemma says_gcall [says_intros]: "says_more (gcall E f)"
  by (auto simp: says_more_def gcall_def Let_def split: option.splits sum.splits)

lemma says_gerror [says_intros]: "says_more m \<Longrightarrow> says_more (gerror E m)"
  by (auto simp: says_more_def gerror_def with_error_def split: prod.splits) (metis snd_conv)

lemma says_gsay [says_intros]: "says_more (gsay line a)"
  by (simp add: says_more_def gsay_def)

lemma says_inside [says_intros]:
  assumes "says_more m"
  shows "says_more (inside_dir name m)"
  unfolding says_more_def
proof
  fix w
  have "prefix (gw_said w) (gw_said (snd (m (w\<lparr>gw_dir := es\<rparr>))))" for es
    using assms unfolding says_more_def by (metis gworld.select_convs(4) gworld.surjective gworld.update_convs(1))
  then show "prefix (gw_said w) (gw_said (snd (inside_dir name m w)))"
    using assms unfolding says_more_def inside_dir_def
    by (auto split: option.splits fnode.splits prod.splits) (metis snd_conv)
qed

lemma says_if [says_intros]: "says_more m \<Longrightarrow> says_more n \<Longrightarrow> says_more (if b then m else n)"
  by simp

lemma says_calls [says_intros]:
  "says_more (g_stat E name)" "says_more (g_unlink E name)" "says_more (g_rmdir E name)" "says_more (g_make E x name)"
  "says_more (g_rename E name name')" "says_more (g_chmod E name mode)" "says_more (g_fill E name b)" "says_more (g_sync E)"
  "says_more (g_enter E name)"
  unfolding g_stat_def g_unlink_def g_rmdir_def g_make_def g_rename_def g_chmod_def g_fill_def g_sync_def g_enter_def
  by (rule says_gcall)+

lemma says_names [says_intros]: "says_more (g_names E)"
  unfolding g_names_def by (intro says_intros)

lemma says_each [says_intros]: "(\<And>x. says_more (go x)) \<Longrightarrow> says_more (each go xs)"
  by (induction xs) (auto intro!: says_intros)

lemma says_opened_dir [says_intros]: "says_more (opened_dir E name)"
  unfolding opened_dir_def by (intro says_intros)

lemma says_remove [says_intros]: "says_more (guard_remove E name)"
proof -
  have passes: "says_more (clear_passes E go k)" if "\<And>x. says_more (go x)" for go k
    by (induction k) (auto intro!: says_intros that)
  have clear: "says_more (clear_dir E go)" if "\<And>x. says_more (go x)" for go
    using passes [OF that] by (simp add: says_more_def clear_dir_def del: clear_passes.simps)
  have node: "says_more (remove_node E deeper name)" if "\<And>go x. deeper = Some go \<Longrightarrow> says_more (go x)" for deeper name
  proof (cases deeper)
    case (Some go)
    then have "says_more (go x)" for x
      using that by blast
    then show ?thesis
      unfolding remove_node_def Some by (intro says_intros) (auto intro!: says_intros clear split: sum.splits)
  qed (unfold remove_node_def, intro says_intros, auto intro!: says_intros split: sum.splits)
  have "says_more (remove_at E n name)" for n name
    by (induction n arbitrary: name) (auto intro: node)
  then show ?thesis
    unfolding guard_remove_def .
qed


lemma says_beside [says_intros]: "(\<And>temp. says_more (mk temp)) \<Longrightarrow> says_more (beside E name mk k)"
proof (induction k)
  case (Suc k)
  have "says_more (\<lambda>w. (Inr (gw_next w), w\<lparr>gw_next := Suc (gw_next w)\<rparr>))"
    by (simp add: says_more_def)
  then show ?case
    unfolding beside.simps Let_def using Suc by (intro says_intros) (auto intro!: says_intros split: sum.splits)
qed (simp add: says_intros)

lemma says_discard [says_intros]: "says_more (discard E temp why)"
  unfolding discard_def by (intro says_intros)

lemma says_file_beside [says_intros]: "says_more (file_beside E name b mode)"
  unfolding file_beside_def by (intro says_intros) (auto intro!: says_intros split: sum.splits)

lemma says_rename_over [says_intros]: "says_more (rename_over E temp name)"
  unfolding rename_over_def by (intro says_intros) (auto intro!: says_intros split: sum.splits)

lemma says_replace [says_intros]: "says_more (replace_with E name was cur)" "says_more (replace_all E entries)"
proof (induction E name was cur and E entries rule: replace_with_replace_all.induct)
  case (1 E name was cur)
  then show ?case
    unfolding replace_with.simps by (cases was) (auto intro!: says_intros)
qed (auto intro!: says_intros simp del: replace_with.simps)

lemma says_settle [says_intros]: "says_more (settle E name was cur shown)" "says_more (settle_all E ns entries found shown)"
proof (induction E name was cur shown and E ns entries found shown rule: settle_settle_all.induct)
  case (1 E name was cur shown)
  then show ?case
    by (cases was; cases cur) (auto intro!: says_intros simp del: replace_with.simps settle_all.simps)
next
  case (3 E entry rest entries found shown)
  then show ?case
    unfolding settle_all.simps Let_def
    by (intro says_intros) (auto intro!: says_intros simp del: settle.simps split: sum.splits)
qed (simp add: says_intros)

lemma settle_dirs:
  "S_Dir mode entries \<noteq> S_Dir old found \<Longrightarrow>
     settle E name (S_Dir mode entries) (S_Dir old found) shown =
       sbind (opened_dir E name) (\<lambda>_.
       sbind (inside_dir name (settle_all E (every_name entries found) entries found shown)) (\<lambda>_.
       sbind (gerror E (g_chmod E name mode)) (\<lambda>_.
       if mode \<noteq> old then gsay (notice (S_Dir mode entries) shown) () else sreturn ())))"
  by (simp only: settle.simps if_False prod.case gstate.case)

lemma settle_settled:
  "settle E name was cur shown w = (Inr u, w') \<Longrightarrow> proper was \<Longrightarrow> describes (map_of (gw_dir w) name) cur \<Longrightarrow>
     settled name was w w'"
  "settle_all E ns entries found shown w = (Inr u, w') \<Longrightarrow> (\<forall>e \<in> set entries. proper (snd e)) \<Longrightarrow> distinct ns \<Longrightarrow>
     (\<forall>n \<in> set ns. describes (map_of (gw_dir w) n) (state_of found n)) \<Longrightarrow>
     (\<exists>ls. gw_said w' = gw_said w @ ls
        \<and> (\<not> trouble ls \<longrightarrow> (\<forall>n \<in> set ns. describes (map_of (gw_dir w') n) (state_of entries n))
             \<and> (\<forall>n. n \<notin> set ns \<longrightarrow> map_of (gw_dir w') n = map_of (gw_dir w) n)))"
proof (induction E name was cur shown and E ns entries found shown arbitrary: w u w' and w u w' rule: settle_settle_all.induct)
  case (1 E name was cur shown)
  show ?case
  proof (cases "was = cur")
    case True
    then show ?thesis
      using "1.prems" leaves_same [of name w] leaves_settled by (auto simp: sys_ok)
  next
    case False
    show ?thesis
    proof (cases "\<exists>mode entries old found. was = S_Dir mode entries \<and> cur = S_Dir old found")
      case True
      then obtain mode entries old found where dirs: "was = S_Dir mode entries" "cur = S_Dir old found"
        by blast
      let ?ns = "every_name entries found"
      have whole_run: "sbind (opened_dir E name) (\<lambda>_.
          sbind (inside_dir name (settle_all E ?ns entries found shown)) (\<lambda>_.
          sbind (gerror E (g_chmod E name mode)) (\<lambda>_.
          if mode \<noteq> old then gsay (notice was shown) () else sreturn ()))) w = (Inr (), w')"
        using "1.prems"(1) settle_dirs [of mode entries old found E name shown] False unfolding dirs by simp
      obtain w1 w2 w3 where enter: "opened_dir E name w = (Inr (), w1)"
        and inside: "inside_dir name (settle_all E ?ns entries found shown) w1 = (Inr (), w2)"
        and mode: "g_chmod E name mode w2 = (Inr (), w3)"
        and said: "(if mode \<noteq> old then gsay (notice was shown) () else sreturn ()) w3 = (Inr () :: error + unit, w')"
        using whole_run unfolding sbind_ok gerror_ok by auto
      obtain m m' es where slot: "map_of (gw_dir w) name = Some (NDir m es)" and l1: "leaves name (Some (NDir m' es)) w w1"
        using opened_dir_ok [OF enter] by blast
      obtain u' where run: "settle_all E ?ns entries found shown (w1\<lparr>gw_dir := es\<rparr>) = (Inr (), u')" "gw_said w2 = gw_said u'"
        "map_of (gw_dir w2) = (map_of (gw_dir w1))(name \<mapsto> NDir m' (gw_dir u'))"
        using inside_dir_ok [OF inside leaves_slot [OF l1]] by blast
      have desc: "describes (Some (NDir m es)) (S_Dir old found)"
        using "1.prems"(3) slot dirs by simp
      have names: "set ?ns = fst ` set entries \<union> fst ` set found" "distinct ?ns"
        by (simp_all add: every_name_def)
      obtain ls where ls: "gw_said u' = gw_said w1 @ ls"
        and good: "\<not> trouble ls \<Longrightarrow> (\<forall>n \<in> set ?ns. describes (map_of (gw_dir u') n) (state_of entries n))
             \<and> (\<forall>n. n \<notin> set ?ns \<longrightarrow> map_of (gw_dir u') n = map_of es n)"
        using "1.IH" [OF False refl dirs run(1)] "1.prems"(2) dirs names(2) describes_slot [OF desc] by auto
      obtain x where x: "map_of (gw_dir w2) name = Some x" "leaves name (Some (set_mode mode x)) w2 w3"
        using g_chmod_ok [OF mode] by blast
      then have x': "set_mode mode x = NDir mode (gw_dir u')"
        using run(3) by (auto simp: set_mode_def)
      have dir: "gw_dir w' = gw_dir w3" "\<exists>ks. gw_said w' = gw_said w3 @ ks"
        using said by (auto simp: sys_ok gsay_def split: if_splits)
      have map: "map_of (gw_dir w') = (map_of (gw_dir w))(name \<mapsto> NDir mode (gw_dir u'))"
        using dir x(2) x' run(3) l1 by (auto simp: leaves_def)
      have told: "\<exists>ks. gw_said w' = gw_said w @ ls @ ks"
        using dir(2) x(2) run(2) ls l1 by (auto simp: leaves_def)
      have "describes (Some (NDir mode (gw_dir u'))) was" if quiet: "\<not> trouble ls"
      proof -
        have "describes (map_of (gw_dir u') (fst e)) (snd e)" if "e \<in> set entries" for e
        proof -
          have "state_of entries (fst e) = snd e"
            using state_of_entry that "1.prems"(2) dirs(1) by simp
          then show ?thesis
            using good [OF quiet] names(1) that by (metis UnI1 image_eqI)
        qed
        moreover have "n \<in> fst ` set entries" if "map_of (gw_dir u') n \<noteq> None" for n
        proof (rule ccontr)
          assume out: "n \<notin> fst ` set entries"
          then have "state_of entries n = S_Absent"
            by (metis map_of_eq_None_iff option.simps(4) state_of_def)
          moreover have "map_of es n = None" if "n \<notin> fst ` set found"
            using desc that by auto
          ultimately show False
            using good [OF quiet] that names(1) out by (metis Un_iff describes.simps(2))
        qed
        ultimately show ?thesis
          using "1.prems"(2) dirs(1) by simp
      qed
      then show ?thesis
        using map told unfolding settled_def by (metis trouble_append)
    next
      case other: False
      then obtain w1 where rep: "replace_with E name was cur w = (Inr (), w1)" and say: "gsay (notice was shown) () w1 = (Inr () :: error + unit, w')"
        using "1.prems"(1) False by (cases was; cases cur) (auto simp: sbind_ok simp del: replace_with.simps)
      obtain v where "leaves name v w w1" "describes v was"
        using replace_with_ok(1) [OF rep "1.prems"(2,3)] by blast
      then have "settled name was w w1"
        by (rule leaves_settled)
      then show ?thesis
        using say by (auto simp: gsay_def elim!: settled_said)
    qed
  qed
next
  case (2 E entries found shown)
  then show ?case
    by (auto simp: sys_ok)
next
  case (3 E entry rest entries found shown)
  let ?inner = "shown @ ''/'' @ from_utf8_lossy entry"
  obtain r w1 w2 where one: "settle E entry (state_of entries entry) (state_of found entry) ?inner w = (r, w1)"
    and told: "(case r of Inl why \<Rightarrow> gsay (failed_line ?inner why) () | Inr _ \<Rightarrow> sreturn ()) w1 = (Inr () :: error + unit, w2)"
    and rest: "settle_all E rest entries found shown w2 = (Inr (), w')"
    using "3.prems"(1) unfolding settle_all.simps Let_def stry_ok sbind_ok by auto
  obtain ls1 where ls1: "gw_said w1 = gw_said w @ ls1"
    using says_moreD [OF says_settle(1) one] by blast
  obtain ls3 where ls3: "gw_said w' = gw_said w2 @ ls3"
    using says_moreD [OF says_settle(2) rest] by blast
  show ?case
  proof (cases r)
    case (Inl why)
    then have "gw_said w' = gw_said w @ ls1 @ [failed_line ?inner why] @ ls3"
      using told ls1 ls3 by (auto simp: gsay_def)
    then show ?thesis
      by (metis trouble_append trouble_failed)
  next
    case (Inr a)
    then have w2: "w2 = w1"
      using told by (simp add: sys_ok)
    have "settled entry (state_of entries entry) w w1"
      using "3.IH"(1) [OF refl one [unfolded Inr]] state_of_proper [OF "3.prems"(2)] "3.prems"(4) by auto
    then have good1: "\<not> trouble ls1 \<Longrightarrow> \<exists>v. map_of (gw_dir w1) = (map_of (gw_dir w))(entry := v) \<and> describes v (state_of entries entry)"
      using ls1 by (auto simp: settled_def)
    show ?thesis
    proof (cases "trouble ls1")
      case True
      then show ?thesis
        using ls1 ls3 w2 by (intro exI [of _ "ls1 @ ls3"]) simp
    next
      case False
      then obtain v where v: "map_of (gw_dir w1) = (map_of (gw_dir w))(entry := v)" "describes v (state_of entries entry)"
        using good1 by blast
      have "\<forall>n \<in> set rest. describes (map_of (gw_dir w2) n) (state_of found n)"
        using "3.prems"(3,4) v(1) w2 by auto
      then obtain ls where "gw_said w' = gw_said w2 @ ls"
        "\<not> trouble ls \<longrightarrow> (\<forall>n \<in> set rest. describes (map_of (gw_dir w') n) (state_of entries n))
             \<and> (\<forall>n. n \<notin> set rest \<longrightarrow> map_of (gw_dir w') n = map_of (gw_dir w2) n)"
        using "3.IH"(2) [OF refl rest "3.prems"(2)] "3.prems"(3) by auto
      then show ?thesis
        using ls1 w2 v False "3.prems"(3) by (intro exI [of _ "ls1 @ ls"]) auto
    qed
  qed
qed


section \<open>Reading is true\<close>

definition looks :: "(gworld, 'e, 'a) prog \<Rightarrow> bool" where
  "looks m \<longleftrightarrow> (\<forall>w. gw_dir (snd (m w)) = gw_dir w \<and> gw_said (snd (m w)) = gw_said w)"

named_theorems looks_intros \<open>programs that change nothing\<close>

lemma looksD: "looks m \<Longrightarrow> m w = (r, w') \<Longrightarrow> gw_dir w' = gw_dir w \<and> gw_said w' = gw_said w"
  unfolding looks_def by (metis snd_conv)

lemma looks_return [looks_intros]: "looks (sreturn a)" and looks_fail [looks_intros]: "looks (sfail e)"
  by (simp_all add: looks_def sreturn_def sfail_def)

lemma looks_try [looks_intros]: "looks m \<Longrightarrow> (\<And>x. looks (f x)) \<Longrightarrow> looks (stry m f)"
  unfolding looks_def stry_def by (auto split: prod.splits) (metis snd_conv)+

lemma looks_bind [looks_intros]: "looks m \<Longrightarrow> (\<And>a. looks (f a)) \<Longrightarrow> looks (sbind m f)"
  unfolding sbind_as_stry by (rule looks_try) (auto split: sum.splits intro: looks_intros)

lemma looks_gcall: "(\<And>d a d'. f d = Inr (a, d') \<Longrightarrow> d' = d) \<Longrightarrow> looks (gcall E f)"
  by (fastforce simp: looks_def gcall_def Let_def split: option.splits sum.splits)

lemma looks_gerror [looks_intros]: "looks m \<Longrightarrow> looks (gerror E m)"
  by (auto simp: looks_def gerror_def with_error_def split: prod.splits) (metis snd_conv)+

lemma looks_calls [looks_intros]: "looks (g_stat E name)" "looks (g_enter E name)" "looks (g_names E)" "looks (opened_root E root)"
  unfolding g_stat_def g_enter_def g_names_def opened_root_def
  by (auto intro!: looks_gcall looks_gerror split: option.splits fnode.splits if_splits)

lemma inside_dir_same: "inside_dir name m w = (r, w') \<Longrightarrow> looks m \<Longrightarrow> gw_dir w' = gw_dir w \<and> gw_said w' = gw_said w"
  unfolding inside_dir_def
  by (auto simp: update_triv split: option.splits fnode.splits prod.splits dest!: looksD)

lemma looks_inside [looks_intros]: "looks m \<Longrightarrow> looks (inside_dir name m)"
  unfolding looks_def [of "inside_dir name m"] using inside_dir_same [of name m] by (metis prod.collapse)

lemma looks_kind [looks_intros]: "looks (g_kind E name)"
  unfolding g_kind_def by (intro looks_intros) (auto intro!: looks_intros split: sum.splits)

lemma looks_file [looks_intros]: "looks (g_file E name b)"
  unfolding g_file_def by (intro looks_intros) (auto intro!: looks_intros split: fnode.splits)

lemma looks_entries [looks_intros]: "(\<And>x b. looks (go x b)) \<Longrightarrow> looks (read_entries go mode ns acc b)"
  by (induction ns arbitrary: acc b) (auto intro!: looks_intros split: prod.splits)

lemma looks_read [looks_intros]: "looks (read_state E n name b)"
proof (induction n arbitrary: name b)
  case 0
  then show ?case
    unfolding read_state.simps read_node_def Let_def
    by (intro looks_intros) (auto intro!: looks_intros split: option.splits)
next
  case (Suc n)
  then show ?case
    unfolding read_state.simps read_node_def Let_def
    by (intro looks_intros) (auto intro!: looks_intros split: option.splits fnode.splits)
qed

lemma inside_dir_still:
  assumes "inside_dir name p w = (r, w')" "map_of (gw_dir w) name = Some (NDir m es)"
    and "\<And>u'. p (w\<lparr>gw_dir := es\<rparr>) = (r, u') \<Longrightarrow> gw_dir u' = es \<and> gw_said u' = gw_said w"
  shows "gw_dir w' = gw_dir w \<and> gw_said w' = gw_said w"
  using assms by (auto simp: inside_dir_def update_triv split: prod.splits)

definition entries_counted :: "fnode option \<Rightarrow> budget \<Rightarrow> budget \<Rightarrow> bool" where
  "entries_counted slot b b' \<longleftrightarrow>
     (\<not> bu_over b' \<longrightarrow>
        (if slot = None then bu_entries b \<le> bu_entries b' else Suc (bu_entries b) \<le> bu_entries b' \<and> bu_entries b' \<le> GUARD_ENTRIES))"

definition true_reading :: "string \<Rightarrow> budget \<Rightarrow> gworld \<Rightarrow> gstate \<times> budget \<Rightarrow> gworld \<Rightarrow> bool" where
  "true_reading name b w x w' \<longleftrightarrow>
     gw_dir w' = gw_dir w \<and> gw_said w' = gw_said w \<and> describes (map_of (gw_dir w) name) (fst x)
     \<and> (whole (fst x) \<longrightarrow> proper (fst x)) \<and> entries_counted (map_of (gw_dir w) name) b (snd x)"

lemma btree_insert_set: "set (btree_insert k v m) \<subseteq> insert (k, v) (set m)"
  by (induction k v m rule: btree_insert.induct) auto

lemma read_entries_true:
  assumes go: "\<And>x b w y w'. go x b w = (Inr y, w') \<Longrightarrow> true_reading x b w y w'"
  shows "read_entries go mode ns acc b w = (Inr (st, b'), w') \<Longrightarrow> (\<forall>n \<in> set ns. map_of (gw_dir w) n \<noteq> None) \<Longrightarrow>
    (\<forall>e \<in> set acc. describes (map_of (gw_dir w) (fst e)) (snd e) \<and> (whole (snd e) \<longrightarrow> proper (snd e))) \<Longrightarrow> sorted_wrt (<) (map fst acc) \<Longrightarrow>
    bu_entries b \<le> GUARD_ENTRIES \<Longrightarrow>
    gw_dir w' = gw_dir w \<and> gw_said w' = gw_said w
    \<and> (bu_over b' \<and> st = S_Other
       \<or> (\<exists>entries. st = S_Dir mode entries \<and> (\<forall>e \<in> set entries. describes (map_of (gw_dir w) (fst e)) (snd e) \<and> (whole (snd e) \<longrightarrow> proper (snd e)))
            \<and> fst ` set entries = fst ` set acc \<union> set ns \<and> sorted_wrt (<) (map fst entries)
            \<and> bu_entries b + length ns \<le> bu_entries b' \<and> bu_entries b' \<le> GUARD_ENTRIES))"
proof (induction ns arbitrary: acc b w)
  case Nil
  then show ?case
    by (auto simp: sys_ok)
next
  case (Cons n ns)
  obtain found b1 w1 where one: "go n b w = (Inr (found, b1), w1)"
    and rest: "(if bu_over b1 then sreturn (S_Other, b1) else read_entries go mode ns (btree_insert n found acc) b1) w1 = (Inr (st, b'), w')"
    using Cons.prems(1) by (auto simp: sbind_ok)
  have w1: "gw_dir w1 = gw_dir w" "gw_said w1 = gw_said w" "describes (map_of (gw_dir w) n) found" "whole found \<longrightarrow> proper found"
    "entries_counted (map_of (gw_dir w) n) b b1"
    using go [OF one] by (simp_all add: true_reading_def)
  show ?case
  proof (cases "bu_over b1")
    case True
    then show ?thesis
      using rest w1 by (auto simp: sys_ok)
  next
    case False
    have "map_of (gw_dir w) n \<noteq> None"
      using Cons.prems(2) by simp
    then have count: "Suc (bu_entries b) \<le> bu_entries b1" "bu_entries b1 \<le> GUARD_ENTRIES"
      using w1(5) False by (auto simp: entries_counted_def)
    have acc: "\<forall>e \<in> set (btree_insert n found acc). describes (map_of (gw_dir w) (fst e)) (snd e) \<and> (whole (snd e) \<longrightarrow> proper (snd e))"
      using btree_insert_set [of n found acc] Cons.prems(3) w1(3,4) by fastforce
    have run: "read_entries go mode ns (btree_insert n found acc) b1 w1 = (Inr (st, b'), w')"
      using rest False by simp
    from Cons.IH [OF run] Cons.prems(2) acc sorted_btree_insert [OF Cons.prems(4)] count w1(1,2) keys_btree_insert [of n found acc]
    show ?thesis
      by auto
  qed
qed

lemma mode_idem: "all_mode_bits (all_mode_bits m) = all_mode_bits m"
  by (simp add: all_mode_bits_def and.assoc)

lemma describes_whole_dir:
  assumes "\<forall>e \<in> set entries. describes (map_of es (fst e)) (snd e) \<and> (whole (snd e) \<longrightarrow> proper (snd e))"
    and "fst ` set entries = fst ` set es" "sorted_wrt (<) (map fst entries)"
  shows "describes (Some (NDir mode es)) (S_Dir (all_mode_bits mode) entries)"
    and "whole (S_Dir (all_mode_bits mode) entries) \<longrightarrow> proper (S_Dir (all_mode_bits mode) entries)"
proof -
  show "describes (Some (NDir mode es)) (S_Dir (all_mode_bits mode) entries)"
    using assms(1,2) by (auto simp: map_of_eq_None_iff [symmetric])
  show "whole (S_Dir (all_mode_bits mode) entries) \<longrightarrow> proper (S_Dir (all_mode_bits mode) entries)"
    using assms(1,3) strict_sorted_iff by (auto simp: mode_idem list_all_iff)
qed

lemma read_node_true:
  assumes deeper: "\<And>go x b w y w'. deeper = Some go \<Longrightarrow> go x b w = (Inr y, w') \<Longrightarrow> true_reading x b w y w'"
    and run: "read_node E deeper name b w = (Inr y, w')"
  shows "true_reading name b w y w'"
proof -
  obtain kind w1 where kind: "g_kind E name w = (Inr kind, w1)"
    using run unfolding read_node_def sbind_ok by blast
  note k = g_kind_ok [OF kind]
  show ?thesis
  proof (cases kind)
    case None
    then show ?thesis
      using run kind k unfolding read_node_def by (auto simp: sbind_def sreturn_def true_reading_def entries_counted_def)
  next
    case (Some x)
    let ?b1 = "b\<lparr>bu_entries := Suc (bu_entries b)\<rparr>"
    show ?thesis
    proof (cases "deeper = None \<or> GUARD_ENTRIES < bu_entries ?b1")
      case True
      then show ?thesis
        using run kind k Some unfolding read_node_def
        by (auto simp: sbind_def sreturn_def true_reading_def entries_counted_def Let_def split: option.splits if_splits)
    next
      case False
      then obtain go where go: "deeper = Some go" and room: "bu_entries ?b1 \<le> GUARD_ENTRIES"
        by auto
      have rest: "(case x of
               NFile _ _ \<Rightarrow> g_file E name ?b1
             | NLink t \<Rightarrow> sbind (gerror E (g_stat E name)) (\<lambda>_. sreturn (S_Link t, ?b1))
             | NDir mode _ \<Rightarrow>
                 sbind (gerror E (g_stat E name)) (\<lambda>_.
                 inside_dir name (sbind (g_names E) (\<lambda>ns. read_entries go (all_mode_bits mode) ns [] ?b1)))
             | NSpecial \<Rightarrow> sreturn (S_Other, ?b1)) w1 = (Inr y, w')"
        using run kind Some go room unfolding read_node_def by (simp add: sbind_def Let_def)
      show ?thesis
      proof (cases x)
        case (NFile bytes mode)
        then show ?thesis
          using rest k Some room unfolding g_file_def
          by (auto simp: sbind_ok gerror_ok sreturn_ok true_reading_def entries_counted_def mode_idem split: if_splits dest!: g_stat_ok)
      next
        case (NLink t)
        then show ?thesis
          using rest k Some room by (auto simp: sbind_ok gerror_ok sreturn_ok true_reading_def entries_counted_def dest!: g_stat_ok)
      next
        case NSpecial
        then show ?thesis
          using rest k Some room by (auto simp: sreturn_ok true_reading_def entries_counted_def)
      next
        case (NDir mode es)
        obtain z w2 where stat: "g_stat E name w1 = (Inr z, w2)"
          and inner: "inside_dir name (sbind (g_names E) (\<lambda>ns. read_entries go (all_mode_bits mode) ns [] ?b1)) w2 = (Inr y, w')"
          using rest NDir by (auto simp: sbind_ok gerror_ok)
        have slot: "map_of (gw_dir w2) name = Some (NDir mode es)" "gw_dir w2 = gw_dir w" "gw_said w2 = gw_said w"
          using g_stat_ok [OF stat] k Some NDir by auto
        obtain st b' where y: "y = (st, b')"
          by fastforce
        have reading: "gw_dir u' = es \<and> gw_said u' = gw_said w2 \<and> describes (Some (NDir mode es)) st \<and> (whole st \<longrightarrow> proper st)
            \<and> entries_counted (Some (NDir mode es)) b b'"
          if p: "sbind (g_names E) (\<lambda>ns. read_entries go (all_mode_bits mode) ns [] ?b1) (w2\<lparr>gw_dir := es\<rparr>) = (Inr y, u')" for u'
        proof -
          obtain ns v where ns: "g_names E (w2\<lparr>gw_dir := es\<rparr>) = (Inr ns, v)"
            and ents: "read_entries go (all_mode_bits mode) ns [] ?b1 v = (Inr (st, b'), u')"
            using p y by (auto simp: sbind_ok)
          have v: "ns = take (Suc GUARD_ENTRIES) (map fst es)" "gw_dir v = es" "gw_said v = gw_said w2"
            using g_names_ok [OF ns] by auto
          have there: "\<forall>n \<in> set ns. map_of (gw_dir v) n \<noteq> None"
            unfolding v(1,2) by (auto dest!: in_set_takeD simp: map_of_eq_None_iff)
          have "\<exists>entries. st = S_Dir (all_mode_bits mode) entries \<and> (\<forall>e \<in> set entries. describes (map_of es (fst e)) (snd e) \<and> (whole (snd e) \<longrightarrow> proper (snd e)))
              \<and> fst ` set entries = set ns \<and> sorted_wrt (<) (map fst entries)
              \<and> Suc (bu_entries b) + length ns \<le> bu_entries b' \<and> bu_entries b' \<le> GUARD_ENTRIES \<or> bu_over b' \<and> st = S_Other"
            and kept: "gw_dir u' = es" "gw_said u' = gw_said w2"
            using read_entries_true [OF deeper [OF go] ents there] v(2,3) room by auto
          then show ?thesis
          proof (elim exE disjE)
            fix entries
            assume e: "st = S_Dir (all_mode_bits mode) entries \<and> (\<forall>e \<in> set entries. describes (map_of es (fst e)) (snd e) \<and> (whole (snd e) \<longrightarrow> proper (snd e)))
              \<and> fst ` set entries = set ns \<and> sorted_wrt (<) (map fst entries)
              \<and> Suc (bu_entries b) + length ns \<le> bu_entries b' \<and> bu_entries b' \<le> GUARD_ENTRIES"
            then have "length ns \<le> GUARD_ENTRIES"
              by simp
            then have "ns = map fst es"
              using v(1) by (simp add: min_def split: if_splits)
            then show ?thesis
              using e kept describes_whole_dir [of entries es mode] by (auto simp: entries_counted_def)
          qed (use kept in \<open>auto simp: entries_counted_def\<close>)
        qed
        have "gw_dir w' = gw_dir w2 \<and> gw_said w' = gw_said w2"
          using inside_dir_still [OF inner slot(1)] reading by blast
        moreover obtain u' where "sbind (g_names E) (\<lambda>ns. read_entries go (all_mode_bits mode) ns [] ?b1) (w2\<lparr>gw_dir := es\<rparr>) = (Inr y, u')"
          using inside_dir_ok [OF inner slot(1)] by blast
        ultimately show ?thesis
          using reading slot y by (auto simp: true_reading_def)
      qed
    qed
  qed
qed

lemma read_state_true: "read_state E n name b w = (Inr y, w') \<Longrightarrow> true_reading name b w y w'"
proof (induction n arbitrary: name b w y w')
  case 0
  then show ?case
    using read_node_true [of None E name b w y w'] by simp
next
  case (Suc n)
  then show ?case
    using read_node_true [of "Some (read_state E n)" E name b w y w'] by auto
qed


section \<open>Kept and restored\<close>

fun slot_at :: "gdir \<Rightarrow> string list \<Rightarrow> string \<Rightarrow> fnode option" where
  "slot_at d [] name = map_of d name"
| "slot_at d (p # ps) name = (case map_of d p of Some (NDir _ es) \<Rightarrow> slot_at es ps name | _ \<Rightarrow> None)"

lemma slot_at_map: "map_of d = map_of d' \<Longrightarrow> slot_at d ps name = slot_at d' ps name"
  by (cases ps) simp_all

text \<open>Two paths are apart when neither is the other or lies beneath it.\<close>

definition apart :: "string list \<Rightarrow> string \<Rightarrow> string list \<Rightarrow> string \<Rightarrow> bool" where
  "apart ps name qs name' \<longleftrightarrow> \<not> prefix (ps @ [name]) (qs @ [name']) \<and> \<not> prefix (qs @ [name']) (ps @ [name])"

lemma apart_Cons: "apart (p # ps) name (p # qs) name' \<longleftrightarrow> apart ps name qs name'"
  by (simp add: apart_def)

text \<open>What putting one path back does: that path is as it was, and every path apart from it is as it is.\<close>

definition restored_at :: "string list \<Rightarrow> string \<Rightarrow> gstate \<Rightarrow> gdir \<Rightarrow> gdir \<Rightarrow> bool" where
  "restored_at ps name was d d' \<longleftrightarrow>
     describes (slot_at d' ps name) was
     \<and> (\<forall>qs n. apart ps name qs n \<longrightarrow> slot_at d qs n \<noteq> None \<longrightarrow> slot_at d' qs n = slot_at d qs n)"

lemma apart_first:
  assumes "apart [] name qs n"
  shows "(case qs of [] \<Rightarrow> n \<noteq> name | q # _ \<Rightarrow> q \<noteq> name)"
  using assms by (cases qs) (auto simp: apart_def)

lemma settled_restored:
  assumes "map_of d' = (map_of d)(name := v)" "describes v was"
  shows "restored_at [] name was d d'"
  unfolding restored_at_def
proof (intro conjI allI impI)
  show "describes (slot_at d' [] name) was"
    using assms by simp
  fix qs n
  assume "apart [] name qs n"
  from apart_first [OF this] show "slot_at d' qs n = slot_at d qs n"
    by (cases qs) (auto simp: assms(1))
qed

lemma restored_inside:
  assumes "restored_at ps name was es es'" "map_of d' = (map_of d)(p \<mapsto> NDir m' es')"
    and "\<And>m es''. map_of d p = Some (NDir m es'') \<Longrightarrow> es'' = es"
  shows "restored_at (p # ps) name was d d'"
  unfolding restored_at_def
proof (intro conjI allI impI)
  show "describes (slot_at d' (p # ps) name) was"
    using assms(1,2) by (simp add: restored_at_def)
  fix qs n
  assume apart: "apart (p # ps) name qs n" and there: "slot_at d qs n \<noteq> None"
  show "slot_at d' qs n = slot_at d qs n"
  proof (cases qs)
    case Nil
    then have "n \<noteq> p"
      using apart by (auto simp: apart_def)
    then show ?thesis
      using Nil assms(2) by simp
  next
    case (Cons q qs')
    show ?thesis
    proof (cases "q = p")
      case True
      then obtain m where "map_of d p = Some (NDir m es)"
        using there Cons assms(3) by (auto split: option.splits fnode.splits)
      then show ?thesis
        using assms(1,2) apart there Cons True by (auto simp: restored_at_def apart_Cons)
    qed (use Cons assms(2) in auto)
  qed
qed

lemma inside_dir_restored:
  assumes "inside_dir p m w = (Inr u, w')" "map_of (gw_dir w) p = Some (NDir mode es)"
    and m: "\<And>v r v'. m v = (Inr r, v') \<Longrightarrow> \<exists>ls. gw_said v' = gw_said v @ ls \<and> (\<not> trouble ls \<longrightarrow> restored_at ps name was (gw_dir v) (gw_dir v'))"
    and old: "\<And>m' es''. map_of d p = Some (NDir m' es'') \<Longrightarrow> es'' = es"
    and same: "\<And>n. n \<noteq> p \<Longrightarrow> map_of (gw_dir w) n = map_of d n"
  shows "\<exists>ls. gw_said w' = gw_said w @ ls \<and> (\<not> trouble ls \<longrightarrow> restored_at (p # ps) name was d (gw_dir w'))"
proof -
  obtain v' where run: "m (w\<lparr>gw_dir := es\<rparr>) = (Inr u, v')" "gw_said w' = gw_said v'"
    "map_of (gw_dir w') = (map_of (gw_dir w))(p \<mapsto> NDir mode (gw_dir v'))"
    using inside_dir_ok [OF assms(1,2)] by blast
  obtain ls where ls: "gw_said v' = gw_said w @ ls" "\<not> trouble ls \<Longrightarrow> restored_at ps name was es (gw_dir v')"
    using m [OF run(1)] by auto
  have "map_of (gw_dir w') = (map_of d)(p \<mapsto> NDir mode (gw_dir v'))"
    using run(3) same by auto
  then show ?thesis
    using ls run(2) restored_inside [OF ls(2) _ old] by auto
qed

lemma put_under_restored:
  "put_under E ps name was shown w = (Inr u, w') \<Longrightarrow> proper was \<Longrightarrow>
     \<exists>ls. gw_said w' = gw_said w @ ls \<and> (\<not> trouble ls \<longrightarrow> restored_at ps name was (gw_dir w) (gw_dir w'))"
proof (induction E ps name was shown arbitrary: w u w' rule: put_under.induct)
  case (1 E name was shown)
  obtain r w1 where read: "read_state E (Suc GUARD_DEPTH) name Budget_default w = (r, w1)"
    and settle: "settle E name was (case r of Inr (st, _) \<Rightarrow> st | Inl _ \<Rightarrow> S_Other) shown w1 = (Inr u, w')"
    using "1.prems"(1) by (auto simp: stry_ok simp del: settle.simps read_state.simps)
  have w1: "gw_dir w1 = gw_dir w \<and> gw_said w1 = gw_said w"
    using looksD [OF looks_read read] .
  have "describes (map_of (gw_dir w1) name) (case r of Inr (st, _) \<Rightarrow> st | Inl _ \<Rightarrow> S_Other)"
    using read read_state_true [of E "Suc GUARD_DEPTH" name Budget_default w _ w1] w1
    by (auto simp: true_reading_def split: sum.splits)
  from settle_settled(1) [OF settle "1.prems"(2) this] show ?case
    using settled_restored w1 by (fastforce simp: settled_def)
next
  case (2 E part parts name was shown)
  obtain kind w1 w2 w3 where kind: "g_kind E part w = (Inr kind, w1)"
    and made: "(case kind of
              Some (NDir _ _) \<Rightarrow> sreturn ()
            | None \<Rightarrow> gerror E (g_make E (NDir 0x1ED []) part)
            | Some _ \<Rightarrow> sbind (guard_remove E part) (\<lambda>_. gerror E (g_make E (NDir 0x1ED []) part))) w1 = (Inr (), w2)"
    and enter: "opened_dir E part w2 = (Inr (), w3)"
    and inside: "inside_dir part (put_under E parts name was shown) w3 = (Inr u, w')"
    using "2.prems"(1) unfolding put_under.simps sbind_ok by auto
  have k: "kind = map_of (gw_dir w) part" "gw_dir w1 = gw_dir w" "gw_said w1 = gw_said w"
    using g_kind_ok [OF kind] by auto
  have made': "\<exists>v. leaves part v w1 w2 \<and> (\<forall>m es. kind = Some (NDir m es) \<longrightarrow> v = kind)"
  proof (cases "\<exists>m es. kind = Some (NDir m es)")
    case True
    then show ?thesis
      using made k leaves_same [of part w1] by (auto simp: sys_ok)
  next
    case False
    show ?thesis
    proof (cases kind)
      case None
      then have "g_make E (NDir 0x1ED []) part w1 = (Inr (), w2)"
        using made by (simp add: gerror_ok)
      then show ?thesis
        using g_make_ok False by blast
    next
      case (Some x)
      then obtain u1 where "guard_remove E part w1 = (Inr (), u1)" "g_make E (NDir 0x1ED []) part u1 = (Inr (), w2)"
        using made False by (cases x) (auto simp: sbind_ok gerror_ok)
      then show ?thesis
        using guard_remove_ok g_make_ok leaves_trans False by blast
    qed
  qed
  then obtain v where v: "leaves part v w1 w2" "\<And>m es. kind = Some (NDir m es) \<Longrightarrow> v = kind"
    by blast
  obtain m m' es where es: "map_of (gw_dir w2) part = Some (NDir m es)" "leaves part (Some (NDir m' es)) w2 w3"
    using opened_dir_ok [OF enter] by blast
  have said: "gw_said w3 = gw_said w"
    using es(2) v(1) k(3) by (simp add: leaves_def)
  have "\<exists>ls. gw_said w' = gw_said w3 @ ls \<and> (\<not> trouble ls \<longrightarrow> restored_at (part # parts) name was (gw_dir w) (gw_dir w'))"
  proof (rule inside_dir_restored [OF inside leaves_slot [OF es(2)]])
    show "\<exists>ls. gw_said v' = gw_said v @ ls \<and> (\<not> trouble ls \<longrightarrow> restored_at parts name was (gw_dir v) (gw_dir v'))"
      if "put_under E parts name was shown v = (Inr r, v')" for v r v'
      using "2.IH" [OF that "2.prems"(2)] .
    show "es'' = es" if "map_of (gw_dir w) part = Some (NDir m'' es'')" for m'' es''
      using v(2) [of m'' es''] that k(1) es(1) leaves_slot [OF v(1)] by auto
    show "map_of (gw_dir w3) n = map_of (gw_dir w) n" if "n \<noteq> part" for n
      using that es(2) v(1) k(2) by (simp add: leaves_def)
  qed
  then show ?case
    unfolding said .
qed

lemma inside_path_restored:
  "inside_path root (put_under E ps name was shown) w = (Inr u, w') \<Longrightarrow> is_dir_at (gw_dir w) root \<Longrightarrow> proper was \<Longrightarrow>
     \<exists>ls. gw_said w' = gw_said w @ ls \<and> (\<not> trouble ls \<longrightarrow> restored_at (root @ ps) name was (gw_dir w) (gw_dir w'))"
proof (induction root arbitrary: w w')
  case Nil
  then show ?case
    using put_under_restored by simp
next
  case (Cons c root)
  obtain m es where c: "map_of (gw_dir w) c = Some (NDir m es)" and es: "is_dir_at es root"
    using Cons.prems(2) by (auto split: option.splits fnode.splits)
  obtain v where run: "inside_path root (put_under E ps name was shown) (w\<lparr>gw_dir := es\<rparr>) = (Inr u, v)"
    "gw_said w' = gw_said v" "map_of (gw_dir w') = (map_of (gw_dir w))(c \<mapsto> NDir m (gw_dir v))"
    using inside_dir_ok [OF Cons.prems(1) [unfolded inside_path.simps] c] by blast
  obtain ls where ls: "gw_said v = gw_said w @ ls" "\<not> trouble ls \<Longrightarrow> restored_at (root @ ps) name was es (gw_dir v)"
    using Cons.IH [OF run(1)] es Cons.prems(3) by auto
  have "\<not> trouble ls \<Longrightarrow> restored_at (c # (root @ ps)) name was (gw_dir w) (gw_dir w')"
    using restored_inside [OF ls(2) run(3)] c by simp
  then show ?case
    using ls(1) run(2) by auto
qed

definition kept_at :: "guard_kept \<Rightarrow> string list \<times> string" where
  "kept_at k = (kp_root k @ fst (guard_split (kp_name k)), snd (guard_split (kp_name k)))"

definition kept_slot :: "gdir \<Rightarrow> guard_kept \<Rightarrow> fnode option" where
  "kept_slot d k = slot_at d (fst (kept_at k)) (snd (kept_at k))"

definition kept_apart :: "guard_kept \<Rightarrow> guard_kept \<Rightarrow> bool" where
  "kept_apart k k' \<longleftrightarrow> apart (fst (kept_at k)) (snd (kept_at k)) (fst (kept_at k')) (snd (kept_at k'))"

lemma opened_root_ok: "opened_root E root w = (Inr u, w') \<Longrightarrow> is_dir_at (gw_dir w) root \<and> gw_dir w' = gw_dir w \<and> gw_said w' = gw_said w"
  unfolding opened_root_def gerror_ok gcall_ok by (auto split: if_splits)

lemma put_back_restored:
  assumes "put_back E k w = (Inr u, w')" "proper (kp_was k)"
  shows "\<exists>ls. gw_said w' = gw_said w @ ls
    \<and> (\<not> trouble ls \<longrightarrow> restored_at (fst (kept_at k)) (snd (kept_at k)) (kp_was k) (gw_dir w) (gw_dir w'))"
proof -
  obtain w1 where root: "opened_root E (kp_root k) w = (Inr (), w1)"
    and put: "inside_path (kp_root k) (put_under E (fst (guard_split (kp_name k))) (snd (guard_split (kp_name k))) (kp_was k) (kp_shown k)) w1 = (Inr u, w')"
    using assms(1) unfolding put_back_def by (auto simp: sbind_ok split: prod.splits)
  from inside_path_restored [OF put] opened_root_ok [OF root] assms(2) show ?thesis
    by (simp add: kept_at_def)
qed

lemma looks_says: "looks m \<Longrightarrow> says_more m"
  by (simp add: looks_def says_more_def)

lemma says_put_under: "says_more (put_under E ps name was shown)"
proof (induction ps)
  case Nil
  then show ?case
    unfolding put_under.simps by (intro says_intros looks_says [OF looks_read])
next
  case (Cons p ps)
  then show ?case
    unfolding put_under.simps g_kind_def
    by (intro says_intros) (auto intro!: says_intros split: option.splits fnode.splits sum.splits)
qed

lemma says_inside_path: "says_more m \<Longrightarrow> says_more (inside_path root m)"
  by (induction root) (auto intro: says_intros)

lemma says_put_back: "says_more (put_back E k)"
  unfolding put_back_def opened_root_def
  by (auto intro!: says_intros says_inside_path says_put_under split: prod.splits)

lemma says_restore: "says_more (guard_restore E ks)"
  by (induction ks) (auto intro!: says_intros says_put_back split: sum.splits)

text \<open>A path is as it was before: one state describes both, completely.\<close>

definition as_before :: "fnode option \<Rightarrow> fnode option \<Rightarrow> bool" where
  "as_before slot slot' \<longleftrightarrow> (\<exists>st. proper st \<and> st \<noteq> S_Absent \<and> describes slot st \<and> describes slot' st)"

lemma describes_present: "describes slot st \<Longrightarrow> proper st \<Longrightarrow> st \<noteq> S_Absent \<Longrightarrow> slot \<noteq> None"
  by (cases st; cases slot) auto

lemma restored_keeps:
  assumes "restored_at (fst (kept_at k)) (snd (kept_at k)) was d d'" "kept_apart k k'" "kept_slot d k' \<noteq> None"
  shows "kept_slot d' k' = kept_slot d k'"
  using assms unfolding restored_at_def kept_apart_def kept_slot_def by blast

lemma guard_restore_restores:
  assumes "guard_restore E ks w = (r, w')" "gw_said w' = gw_said w @ ls" "\<not> trouble ls"
    and "sorted_wrt kept_apart ks" "\<forall>k \<in> set ks. proper (kp_was k) \<and> kp_was k \<noteq> S_Absent"
  shows "(\<forall>k \<in> set ks. describes (kept_slot (gw_dir w') k) (kp_was k))
    \<and> (\<forall>k'. (\<forall>k \<in> set ks. kept_apart k k') \<longrightarrow> kept_slot (gw_dir w) k' \<noteq> None \<longrightarrow> kept_slot (gw_dir w') k' = kept_slot (gw_dir w) k')"
  using assms
proof (induction ks arbitrary: w ls)
  case Nil
  then show ?case
    by (simp add: sreturn_def)
next
  case (Cons k ks)
  obtain x w1 where put: "put_back E k w = (x, w1)"
    by (meson surj_pair)
  obtain ls1 where ls1: "gw_said w1 = gw_said w @ ls1"
    using says_moreD [OF says_put_back put] by blast
  define w2 where "w2 = (case x of Inl why \<Rightarrow> w1\<lparr>gw_said := gw_said w1 @ [failed_line (kp_shown k) why]\<rparr> | Inr _ \<Rightarrow> w1)"
  have rest: "guard_restore E ks w2 = (r, w')"
    using Cons.prems(1) put
    by (cases x) (simp_all add: stry_def sbind_def gsay_def sreturn_def w2_def)
  obtain ls2 where ls2: "gw_said w' = gw_said w2 @ ls2"
    using says_moreD [OF says_restore rest] by blast
  obtain u where x: "x = Inr u"
  proof (cases x)
    case (Inl why)
    then have "ls = ls1 @ [failed_line (kp_shown k) why] @ ls2"
      using ls1 ls2 Cons.prems(2) by (simp add: w2_def)
    then have "trouble ls"
      unfolding \<open>ls = _\<close> trouble_append using trouble_failed by blast
    then show ?thesis
      using Cons.prems(3) by simp
  qed
  then have w2: "w2 = w1" and quiet: "\<not> trouble ls1" "\<not> trouble ls2"
    using ls1 ls2 Cons.prems(2,3) by (auto simp: w2_def)
  have redone: "restored_at (fst (kept_at k)) (snd (kept_at k)) (kp_was k) (gw_dir w) (gw_dir w1)"
    using put_back_restored [OF put [unfolded x]] Cons.prems(5) ls1 quiet(1) by auto
  then have slot: "describes (kept_slot (gw_dir w1) k) (kp_was k)"
    by (simp add: restored_at_def kept_slot_def)
  note IH = Cons.IH [OF rest ls2 quiet(2)]
  have "kept_slot (gw_dir w') k = kept_slot (gw_dir w1) k"
  proof -
    have "\<forall>k' \<in> set ks. kept_apart k' k"
      using Cons.prems(4) by (auto simp: kept_apart_def apart_def)
    then show ?thesis
      using IH Cons.prems(4,5) describes_present [OF slot] w2 by auto
  qed
  moreover have "kept_slot (gw_dir w') k' = kept_slot (gw_dir w) k'"
    if "\<forall>k'' \<in> set (k # ks). kept_apart k'' k'" "kept_slot (gw_dir w) k' \<noteq> None" for k'
    using IH Cons.prems(4,5) restored_keeps [OF redone] that w2 by auto
  ultimately show ?case
    using IH Cons.prems(4,5) slot w2 by auto
qed

section \<open>What is kept\<close>

definition true_state :: "string list \<Rightarrow> string \<Rightarrow> gworld \<Rightarrow> gstate \<Rightarrow> gworld \<Rightarrow> bool" where
  "true_state ps name w st w' \<longleftrightarrow>
     gw_dir w' = gw_dir w \<and> gw_said w' = gw_said w \<and> describes (slot_at (gw_dir w) ps name) st \<and> proper st"

lemma kept_state_ok: "kept_state shown x = Inr st \<Longrightarrow> st = fst x \<and> whole st"
  by (auto simp: kept_state_def split: prod.splits if_splits gstate.splits)

lemma inside_true:
  assumes "inside_dir part p w = (Inr st, w')" "map_of (gw_dir w) part = Some (NDir m es)"
    and "\<And>v. p (w\<lparr>gw_dir := es\<rparr>) = (Inr st, v) \<Longrightarrow> true_state ps name (w\<lparr>gw_dir := es\<rparr>) st v"
  shows "true_state (part # ps) name w st w'"
  using assms by (auto simp: inside_dir_def true_state_def update_triv split: prod.splits)

lemma read_under_true: "read_under E ps name shown w = (Inr st, w') \<Longrightarrow> true_state ps name w st w'"
proof (induction E ps name shown arbitrary: w st w' rule: read_under.induct)
  case (1 E name shown)
  then obtain x where read: "read_state E (Suc GUARD_DEPTH) name Budget_default w = (Inr x, w')"
    and kept: "kept_state shown x = Inr st"
    unfolding read_under.simps sbind_ok slift_ok by blast
  show ?case
    using read_state_true [OF read] kept_state_ok [OF kept] unfolding true_reading_def true_state_def by auto
next
  case (2 E part parts name shown)
  obtain kind w1 where kind: "g_kind E part w = (Inr kind, w1)"
    and rest: "(case kind of
       Some (NDir _ _) \<Rightarrow> sbind (gerror E (g_enter E part)) (\<lambda>_. inside_dir part (read_under E parts name shown))
     | Some (NLink _) \<Rightarrow> sfail (other_error (shown @ LINKED)) | _ \<Rightarrow> sreturn S_Absent) w1 = (Inr st, w')"
    using "2.prems" unfolding read_under.simps sbind_ok by blast
  have k: "kind = map_of (gw_dir w) part" "gw_dir w1 = gw_dir w" "gw_said w1 = gw_said w"
    using g_kind_ok [OF kind] by auto
  show ?case
  proof (cases "\<exists>m es. kind = Some (NDir m es)")
    case True
    then obtain m es where dir: "kind = Some (NDir m es)"
      by blast
    then obtain m' w2 where enter: "g_enter E part w1 = (Inr m', w2)"
      and inside: "inside_dir part (read_under E parts name shown) w2 = (Inr st, w')"
      using rest by (auto simp: sbind_ok gerror_ok)
    have w2: "gw_dir w2 = gw_dir w" "gw_said w2 = gw_said w"
      using g_enter_ok [OF enter] k by auto
    have "true_state (part # parts) name w2 st w'"
      using inside_true [OF inside, of m es parts name] "2.IH" dir k(1) w2 by auto
    then show ?thesis
      using w2 by (simp add: true_state_def)
  next
    case False
    then have "st = S_Absent" "w' = w1"
      using rest by (auto simp: sys_ok split: option.splits fnode.splits)
    moreover have "slot_at (gw_dir w) (part # parts) name = None"
      using False k(1) by (auto split: option.splits fnode.splits)
    ultimately show ?thesis
      using k by (simp add: true_state_def)
  qed
qed

lemma inside_path_true:
  "inside_path root (read_under E ps name shown) w = (Inr st, w') \<Longrightarrow> is_dir_at (gw_dir w) root \<Longrightarrow>
     true_state (root @ ps) name w st w'"
proof (induction root arbitrary: w w')
  case Nil
  then show ?case
    using read_under_true by simp
next
  case (Cons c root)
  obtain m es where c: "map_of (gw_dir w) c = Some (NDir m es)" "is_dir_at es root"
    using Cons.prems(2) by (auto split: option.splits fnode.splits)
  then show ?case
    using inside_true [OF Cons.prems(1) [unfolded inside_path.simps] c(1), of "root @ ps" name] Cons.IH by auto
qed

text \<open>The path \<open>name\<close> below a writable root, and what the guard promises of the ones it kept.\<close>

definition below_slot :: "gdir \<Rightarrow> string list \<times> string \<Rightarrow> fnode option" where
  "below_slot d x = slot_at d (fst x @ fst (guard_split (snd x))) (snd (guard_split (snd x)))"

definition truly_kept :: "gdir \<Rightarrow> guard_kept \<Rightarrow> bool" where
  "truly_kept d k \<longleftrightarrow> proper (kp_was k) \<and> kp_was k \<noteq> S_Absent \<and> describes (kept_slot d k) (kp_was k)"

lemma guard_take_true:
  assumes "guard_take E shown_of paths kept w = (Inr ks, w')" "\<forall>k \<in> set kept. truly_kept (gw_dir w) k"
  shows "gw_dir w' = gw_dir w \<and> gw_said w' = gw_said w \<and> (\<forall>k \<in> set ks. truly_kept (gw_dir w) k) \<and> set kept \<subseteq> set ks
    \<and> (\<forall>x \<in> set paths. below_slot (gw_dir w) x = None \<or> (\<exists>k \<in> set ks. (kp_root k, kp_name k) = x))"
  using assms
proof (induction E shown_of paths kept arbitrary: w rule: guard_take.induct)
  case (1 E shown_of kept)
  then show ?case
    by (auto simp: sys_ok)
next
  case (2 E shown_of root name rest kept)
  show ?case
  proof (cases "list_ex (\<lambda>k. kp_root k = root \<and> kp_name k = name) kept")
    case True
    then have "\<exists>k \<in> set kept. (kp_root k, kp_name k) = (root, name)"
      by (auto simp: list_ex_iff)
    moreover have "guard_take E shown_of rest kept w = (Inr ks, w')"
      using "2.prems"(1) True by simp
    note IH = "2.IH"(1) [OF True this "2.prems"(2)]
    ultimately show ?thesis
      using IH by auto
  next
    case False
    obtain ps leaf where split: "guard_split name = (ps, leaf)"
      by fastforce
    let ?shown = "shown_of root name"
    define kept' where "kept' was = (if was = S_Absent then kept
       else kept @ [\<lparr>kp_root = root, kp_name = name, kp_shown = ?shown, kp_was = was\<rparr>])" for was
    obtain w1 was w2 where root: "opened_root E root w = (Inr (), w1)"
      and read: "inside_path root (read_under E ps leaf ?shown) w1 = (Inr was, w2)"
      and take: "guard_take E shown_of rest (kept' was) w2 = (Inr ks, w')"
      using "2.prems"(1) False split unfolding kept'_def by (auto simp: sbind_ok Let_def)
    have w1: "is_dir_at (gw_dir w) root" "gw_dir w1 = gw_dir w" "gw_said w1 = gw_said w"
      using opened_root_ok [OF root] by auto
    have st: "gw_dir w2 = gw_dir w" "gw_said w2 = gw_said w" "describes (below_slot (gw_dir w) (root, name)) was" "proper was"
      using inside_path_true [OF read] w1 split by (auto simp: true_state_def below_slot_def)
    have "\<forall>k \<in> set (kept' was). truly_kept (gw_dir w2) k"
      using "2.prems"(2) st split
      by (auto simp: kept'_def truly_kept_def kept_slot_def kept_at_def below_slot_def)
    with take have IH: "gw_dir w' = gw_dir w2 \<and> gw_said w' = gw_said w2 \<and> (\<forall>k \<in> set ks. truly_kept (gw_dir w2) k)
        \<and> set (kept' was) \<subseteq> set ks
        \<and> (\<forall>x \<in> set rest. below_slot (gw_dir w2) x = None \<or> (\<exists>k \<in> set ks. (kp_root k, kp_name k) = x))"
      unfolding kept'_def by (rule "2.IH"(2) [OF False refl split [symmetric] refl])
    have "below_slot (gw_dir w) (root, name) = None \<or> (\<exists>k \<in> set (kept' was). (kp_root k, kp_name k) = (root, name))"
      using st(3) by (auto simp: kept'_def)
    moreover have "set kept \<subseteq> set (kept' was)"
      by (auto simp: kept'_def)
    ultimately show ?thesis
      using IH unfolding st(1,2) list.set ball_simps by (meson subset_eq)
  qed
qed


text \<open>
  C5: The paths a command may not change are, after it, as they were before it, whatever the command did
  to the tree: files with their bytes and permission bits, links, and directories with exactly the
  entries they had.  This holds when the restore reports no line saying that something could not be
  restored; taking the states changes nothing.  The kept paths are apart from each other: no writable root lies
  inside a protected path of another.
\<close>

theorem guard_restores:
  assumes take: "guard_take E shown_of paths [] w = (Inr kept, w1)" and apart: "sorted_wrt kept_apart kept"
    and restore: "guard_restore E' kept v = (r, v')" and said: "gw_said v = []" and quiet: "\<not> trouble (gw_said v')"
  shows "gw_dir w1 = gw_dir w
    \<and> (\<forall>x \<in> set paths. below_slot (gw_dir w) x \<noteq> None \<longrightarrow> as_before (below_slot (gw_dir w) x) (below_slot (gw_dir v') x))"
proof -
  have kept: "gw_dir w1 = gw_dir w" "\<forall>k \<in> set kept. truly_kept (gw_dir w) k"
    "\<forall>x \<in> set paths. below_slot (gw_dir w) x = None \<or> (\<exists>k \<in> set kept. (kp_root k, kp_name k) = x)"
    using guard_take_true [OF take] by auto
  have redone: "\<forall>k \<in> set kept. describes (kept_slot (gw_dir v') k) (kp_was k)"
    using guard_restore_restores [OF restore _ quiet apart] kept(2) said by (auto simp: truly_kept_def)
  have "as_before (below_slot (gw_dir w) x) (below_slot (gw_dir v') x)"
    if x: "x \<in> set paths" "below_slot (gw_dir w) x \<noteq> None" for x
  proof -
    obtain k where k: "k \<in> set kept" "(kp_root k, kp_name k) = x"
      using kept(3) x by auto
    then have slot: "below_slot d x = kept_slot d k" for d
      by (auto simp: below_slot_def kept_slot_def kept_at_def)
    show ?thesis
      using kept(2) redone k(1) unfolding slot as_before_def truly_kept_def by blast
  qed
  then show ?thesis
    using kept(1) by blast
qed

definition demo_guard :: guard_env where
  "demo_guard = \<lparr>ge_fault = (\<lambda>_. None), ge_text = (\<lambda>_. ''error''), ge_pid = 7\<rparr>"

definition demo_before :: gworld where
  "demo_before = \<lparr>gw_dir = [(''work'', NDir 0x1ED [(''.git'', NDir 0x1ED [(''hooks'', NDir 0x1ED [(''pre-push'', NFile ''true'' 0x1ED)]),
       (''config'', NFile ''[core]'' 0x1A4)])])], gw_ops = 0, gw_next = 0, gw_said = []\<rparr>"

text \<open>The command replaced the hook, added one, and put a link where the configuration was.\<close>

definition demo_after :: gworld where
  "demo_after = \<lparr>gw_dir = [(''work'', NDir 0x1ED [(''.git'', NDir 0x1ED [(''config'', NLink ''/etc/evil''),
       (''hooks'', NDir 0x1ED [(''post-merge'', NFile ''evil'' 0x1ED), (''pre-push'', NFile ''evil'' 0x1ED)])]), (''new'', NFile ''x'' 0x1A4)])],
       gw_ops = 0, gw_next = 0, gw_said = []\<rparr>"

definition demo_paths :: "(string list \<times> string) list" where
  "demo_paths = map (Pair [''work'']) PERSISTENT"

definition demo_kept :: "guard_kept list" where
  "demo_kept =
     [\<lparr>kp_root = [''work''], kp_name = ''.git/hooks'', kp_shown = ''.git/hooks'', kp_was = S_Dir 0x1ED [(''pre-push'', S_File ''true'' 0x1ED)]\<rparr>,
      \<lparr>kp_root = [''work''], kp_name = ''.git/config'', kp_shown = ''.git/config'', kp_was = S_File ''[core]'' 0x1A4\<rparr>]"

text \<open>The limits are far from the sizes below, so they are compared without being computed.\<close>

definition room_check :: "nat \<Rightarrow> nat \<Rightarrow> bool" where "room_check a n \<longleftrightarrow> GUARD_MOST - a < n"

lemma room_small [code_unfold]: "(GUARD_MOST - a < n) = (if a + n < 100 then False else room_check a n)"
  by (auto simp: GUARD_MOST_def room_check_def)

definition many_check :: "nat \<Rightarrow> bool" where "many_check n \<longleftrightarrow> GUARD_ENTRIES < n"

lemma many_small [code_unfold]: "(GUARD_ENTRIES < n) = (if n < 10 then False else many_check n)"
  by (auto simp: GUARD_ENTRIES_def many_check_def)

definition take_check :: "'a list \<Rightarrow> 'a list" where "take_check xs = take (Suc GUARD_ENTRIES) xs"

lemma take_small [code_unfold]: "take (Suc GUARD_ENTRIES) xs = (if length xs < 10 then xs else take_check xs)"
  by (auto simp: GUARD_ENTRIES_def take_check_def)

lemma demo_guard_take:
  "guard_take demo_guard (\<lambda>_ n. n) demo_paths [] demo_before = (Inr demo_kept, snd (guard_take demo_guard (\<lambda>_ n. n) demo_paths [] demo_before))"
  by code_simp

lemma demo_guard_restore:
  "sorted_wrt kept_apart demo_kept \<and> \<not> trouble (gw_said (snd (guard_restore demo_guard demo_kept demo_after)))
   \<and> below_slot (gw_dir demo_before) ([''work''], ''.git/hooks'') \<noteq> None"
  by (intro conjI) code_simp+

theorem guard_restores_witness:
  "as_before (below_slot (gw_dir demo_before) ([''work''], ''.git/hooks''))
     (below_slot (gw_dir (snd (guard_restore demo_guard demo_kept demo_after))) ([''work''], ''.git/hooks''))"
proof -
  have "([''work''], ''.git/hooks'') \<in> set demo_paths"
    by (simp add: demo_paths_def PERSISTENT_def)
  moreover have "gw_said demo_after = []"
    by (simp add: demo_after_def)
  ultimately show ?thesis
    using guard_restores [OF demo_guard_take conjunct1 [OF demo_guard_restore] prod.collapse [symmetric]] demo_guard_restore by blast
qed

end
