(* ===== verification/OAuth_Challenge.thy ===== *)
theory OAuth_Challenge
  imports Jail_Policy Text Wire
begin

text \<open>
  What a server's \<open>WWW-Authenticate\<close> header says (\<open>mcp_client/oauth/challenge.rs\<close>), and the errors of
  the OAuth client (\<open>mcp_client/oauth.rs\<close>).
\<close>

datatype oauth_error =
    E_Configuration | E_Store | E_Busy | E_Backoff | E_Cancelled | E_Changed | E_Credential
  | E_Required | E_Network | E_Timeout | E_Metadata | E_Callback

section \<open>The header\<close>

definition DQUOTE :: byte where "DQUOTE = CHR 0x22"
definition BACKSLASH :: byte where "BACKSLASH = CHR 0x5C"

definition token_byte :: "byte \<Rightarrow> bool" where
  "token_byte b \<longleftrightarrow> is_ascii_alphanumeric b \<or> code b \<in> {33, 35, 36, 37, 38, 39, 42, 43, 45, 46, 94, 95, 96, 124, 126}"

definition oauth_token :: "string \<Rightarrow> bool" where
  "oauth_token v \<longleftrightarrow> v \<noteq> [] \<and> list_all token_byte v"

definition printable :: "byte \<Rightarrow> bool" where
  "printable b \<longleftrightarrow> 0x20 \<le> code b \<and> code b \<le> 0x7E"

fun quoted_bytes :: "bool \<Rightarrow> bytes \<Rightarrow> bytes option" where
  "quoted_bytes escaped [] = (if escaped then None else Some [])"
| "quoted_bytes escaped (b # bs) =
     (if \<not> printable b \<or> (\<not> escaped \<and> b = DQUOTE) then None
      else if \<not> escaped \<and> b = BACKSLASH then quoted_bytes True bs
      else map_option (Cons b) (quoted_bytes False bs))"

definition challenge_value :: "string \<Rightarrow> oauth_error + string" where
  "challenge_value input =
     (if input = [] \<or> hd input \<noteq> DQUOTE then rbind (ensure (oauth_token input) E_Metadata) (\<lambda>_. Inr input)
      else if length input < 2 \<or> last input \<noteq> DQUOTE then Inl E_Metadata
      else ok_or (quoted_bytes False (butlast (tl input))) E_Metadata)"

text \<open>The commas outside quotes; \<open>cur\<close> is the field so far, reversed.\<close>

fun split_fields :: "bool \<Rightarrow> bool \<Rightarrow> bytes \<Rightarrow> bytes \<Rightarrow> bytes list option" where
  "split_fields quoted escaped cur [] = (if quoted \<or> escaped then None else Some [rev cur])"
| "split_fields quoted escaped cur (b # bs) =
     (if escaped then split_fields quoted False (b # cur) bs
      else if quoted \<and> b = BACKSLASH then split_fields quoted True (b # cur) bs
      else let quoted = (if b = DQUOTE then \<not> quoted else quoted) in
        if b = CHR '','' \<and> \<not> quoted then map_option (Cons (rev cur)) (split_fields quoted False [] bs)
        else split_fields quoted False (b # cur) bs)"

definition to_ascii_lowercase :: "string \<Rightarrow> string" where
  "to_ascii_lowercase = map (\<lambda>b. if is_ascii_uppercase b then char_of (code b + 32) else b)"

definition eq_ignore_ascii_case :: "string \<Rightarrow> string \<Rightarrow> bool" where
  "eq_ignore_ascii_case a b \<longleftrightarrow> to_ascii_lowercase a = to_ascii_lowercase b"

definition split_once :: "byte \<Rightarrow> string \<Rightarrow> (string \<times> string) option" where
  "split_once sep s =
     (let front = takeWhile (\<lambda>b. b \<noteq> sep) s in
      if length front = length s then None else Some (front, drop (Suc (length front)) s))"

definition scheme_name :: "string \<Rightarrow> string" where
  "scheme_name part = takeWhile (\<lambda>b. b \<noteq> CHR '' '' \<and> b \<noteq> CHR ''='') part"

text \<open>
  What a field begins with: either it is a parameter, or it names a scheme and may go on with its
  first parameter.  The result is whether the Bearer scheme is the current one, whether it was met,
  and the parameter.
\<close>

definition field_scheme :: "bool \<Rightarrow> bool \<Rightarrow> string \<Rightarrow> oauth_error + bool \<times> bool \<times> string option" where
  "field_scheme active met part =
     (let prefix = scheme_name part; rest = trim_start (drop (length prefix) part) in
      if rest \<noteq> [] \<and> hd rest = CHR ''='' then Inr (active, met, Some part)
      else if \<not> oauth_token prefix then Inl E_Metadata
      else let bearer = eq_ignore_ascii_case prefix ''bearer'' in
        if bearer \<and> met then Inl E_Metadata
        else Inr (bearer, met \<or> bearer, if rest = [] then None else Some rest))"

definition field_parameter :: "(string \<times> string) list \<Rightarrow> string \<Rightarrow> oauth_error + (string \<times> string) list" where
  "field_parameter result part =
     rbind (ok_or (split_once (CHR ''='') part) E_Metadata) (\<lambda>(name, item).
     let name = str_trim name in
     rbind (ensure (oauth_token name) E_Metadata) (\<lambda>_.
     rbind (challenge_value (str_trim item)) (\<lambda>v.
     rbind (ensure (map_of result (to_ascii_lowercase name) = None) E_Metadata) (\<lambda>_.
     Inr (btree_insert (to_ascii_lowercase name) v result)))))"

fun bearer_fields :: "bool \<Rightarrow> bool \<Rightarrow> (string \<times> string) list \<Rightarrow> bytes list \<Rightarrow> oauth_error + (string \<times> string) list" where
  "bearer_fields active met result [] = Inr result"
| "bearer_fields active met result (part0 # parts) =
     (let part = str_trim part0 in
      rbind (ensure (part \<noteq> []) E_Metadata) (\<lambda>_.
      rbind (field_scheme active met part) (\<lambda>(active, met, parameter).
      case parameter of
        None \<Rightarrow> bearer_fields active met result parts
      | Some part \<Rightarrow>
          if \<not> active then bearer_fields active met result parts
          else rbind (field_parameter result part) (\<lambda>result. bearer_fields active met result parts))))"

definition challenge_bearer :: "string \<Rightarrow> oauth_error + (string \<times> string) list" where
  "challenge_bearer input =
     rbind (ensure (length input \<le> 8192 \<and> list_all printable input) E_Metadata) (\<lambda>_.
     rbind (ok_or (split_fields False False [] input) E_Metadata) (\<lambda>parts.
     bearer_fields False False [] parts))"

section \<open>A challenge as a server writes it\<close>

definition escape_quoted :: "string \<Rightarrow> string" where
  "escape_quoted v = concat (map (\<lambda>b. if b = DQUOTE \<or> b = BACKSLASH then [BACKSLASH, b] else [b]) v)"

definition parameter_text :: "string \<times> string \<Rightarrow> string" where
  "parameter_text p = fst p @ ''='' @ [DQUOTE] @ escape_quoted (snd p) @ [DQUOTE]"

fun parameters_text :: "(string \<times> string) list \<Rightarrow> string" where
  "parameters_text [] = []"
| "parameters_text [p] = parameter_text p"
| "parameters_text (p # ps) = parameter_text p @ '', '' @ parameters_text ps"

definition challenge_text :: "(string \<times> string) list \<Rightarrow> string" where
  "challenge_text ps = ''Bearer '' @ parameters_text ps"

definition parameter_ok :: "string \<times> string \<Rightarrow> bool" where
  "parameter_ok p \<longleftrightarrow> oauth_token (fst p) \<and> to_ascii_lowercase (fst p) = fst p \<and> list_all printable (snd p)"

section \<open>What is written is read back\<close>

lemma printable_ascii: "printable b \<Longrightarrow> code b < 128"
  by (simp add: printable_def)

lemma token_byte_facts: "token_byte b \<Longrightarrow> printable b \<and> b \<noteq> CHR ''='' \<and> b \<noteq> CHR '' '' \<and> b \<noteq> CHR '','' \<and> b \<noteq> DQUOTE \<and> b \<noteq> BACKSLASH"
  by (auto simp: token_byte_def printable_def DQUOTE_def BACKSLASH_def is_ascii_alphanumeric_def is_ascii_digit_def
      is_ascii_lowercase_def is_ascii_uppercase_def code_def)

lemma chars_ascii: "list_all (\<lambda>b. code b < 128) s \<Longrightarrow> chars s = map (\<lambda>b. [b]) s"
proof -
  assume ascii: "list_all (\<lambda>b. code b < 128) s"
  have "list_all is_char (map (\<lambda>b. [b]) s)"
    using ascii by (auto simp: list_all_iff is_char_def utf8_head_def)
  from chars_concat [OF this] show ?thesis
    by simp
qed

lemma white_printable: "printable b \<Longrightarrow> white_space [b] \<longleftrightarrow> b = CHR '' ''"
  using code_inject [of b "CHR '' ''"] by (auto simp: printable_def white_space_def code_def)

lemma concat_singles: "concat (map (\<lambda>b. [b]) s) = s"
  by (induction s) auto

lemma trim_start_printable:
  assumes "list_all printable s"
  shows "trim_start s = dropWhile (\<lambda>b. b = CHR '' '') s"
proof -
  have "chars s = map (\<lambda>b. [b]) s"
    using assms printable_ascii by (intro chars_ascii) (auto simp: list_all_iff)
  moreover have "dropWhile white_space (map (\<lambda>b. [b]) s) = map (\<lambda>b. [b]) (dropWhile (\<lambda>b. b = CHR '' '') s)"
    using assms by (induction s) (auto simp: white_printable)
  ultimately show ?thesis
    by (simp add: trim_start_def concat_singles)
qed

lemma str_trim_printable:
  assumes "list_all printable s"
  shows "str_trim s = rev (dropWhile (\<lambda>b. b = CHR '' '') (rev (dropWhile (\<lambda>b. b = CHR '' '') s)))"
proof -
  have step: "dropWhile white_space (map (\<lambda>b. [b]) u) = map (\<lambda>b. [b]) (dropWhile (\<lambda>b. b = CHR '' '') u)"
    if "list_all printable u" for u
    using that by (induction u) (auto simp: white_printable)
  have "chars s = map (\<lambda>b. [b]) s"
    using assms printable_ascii by (intro chars_ascii) (auto simp: list_all_iff)
  moreover have "list_all printable (rev (dropWhile (\<lambda>b. b = CHR '' '') s))"
    using assms by (auto simp: list_all_iff dest: set_dropWhileD)
  ultimately show ?thesis
    using assms by (simp add: str_trim_def step rev_map concat_singles)
qed

lemma str_trim_none:
  assumes "list_all printable s" "s \<noteq> []" "hd s \<noteq> CHR '' ''" "last s \<noteq> CHR '' ''"
  shows "str_trim s = s" "str_trim (CHR '' '' # s) = s"
proof -
  have "dropWhile (\<lambda>b. b = CHR '' '') s = s" "dropWhile (\<lambda>b. b = CHR '' '') (rev s) = rev s"
    using assms by (cases s, auto, cases s rule: rev_cases, auto)
  moreover have "printable (CHR '' '')"
    by (simp add: printable_def code_def)
  ultimately show "str_trim s = s" "str_trim (CHR '' '' # s) = s"
    using assms(1) by (simp_all add: str_trim_printable)
qed

lemma quoted_escape: "list_all printable v \<Longrightarrow> quoted_bytes False (escape_quoted v) = Some v"
  by (induction v) (auto simp: escape_quoted_def DQUOTE_def BACKSLASH_def printable_def code_def)

lemma escape_printable: "list_all printable v \<Longrightarrow> list_all printable (escape_quoted v)"
  by (induction v) (auto simp: escape_quoted_def DQUOTE_def BACKSLASH_def printable_def code_def)

lemma split_token:
  "list_all token_byte k \<Longrightarrow> split_fields False False cur (k @ s) = split_fields False False (rev k @ cur) s"
  by (induction k arbitrary: cur) (auto dest: token_byte_facts)

lemma split_escaped:
  "split_fields True False cur (escape_quoted v @ s) = split_fields True False (rev (escape_quoted v) @ cur) s"
  by (induction v arbitrary: cur) (auto simp: escape_quoted_def DQUOTE_def BACKSLASH_def)

lemma split_parameter:
  assumes "parameter_ok p"
  shows "split_fields False False cur (parameter_text p @ s) = split_fields False False (rev (parameter_text p) @ cur) s"
  using assms split_token [of "fst p"] split_escaped [of _ "snd p"]
  by (auto simp: parameter_text_def parameter_ok_def oauth_token_def DQUOTE_def BACKSLASH_def)

lemma split_parameters:
  "list_all parameter_ok (p # ps) \<Longrightarrow>
     split_fields False False cur (parameters_text (p # ps)) =
       Some ((rev cur @ parameter_text p) # map (\<lambda>q. CHR '' '' # parameter_text q) ps)"
proof (induction ps arbitrary: p cur)
  case Nil
  then show ?case
    using split_parameter [of p cur "[]"] by simp
next
  case (Cons q ps)
  have "split_fields False False cur (parameters_text (p # q # ps)) =
      split_fields False False (rev (parameter_text p) @ cur) ('', '' @ parameters_text (q # ps))"
    using split_parameter [of p cur "'', '' @ parameters_text (q # ps)"] Cons.prems by simp
  also have "\<dots> = map_option (Cons (rev cur @ parameter_text p)) (split_fields False False [CHR '' ''] (parameters_text (q # ps)))"
    by (simp add: DQUOTE_def BACKSLASH_def del: parameters_text.simps)
  finally show ?case
    using Cons.IH [of q "[CHR '' '']"] Cons.prems by simp
qed

text \<open>A written parameter is printable and has no blank at either end, so trimming leaves it.\<close>

lemma parameter_shape:
  assumes "parameter_ok p"
  shows "list_all printable (parameter_text p)" "parameter_text p \<noteq> []" "hd (parameter_text p) \<noteq> CHR '' ''"
    "last (parameter_text p) \<noteq> CHR '' ''" "str_trim (parameter_text p) = parameter_text p"
    "str_trim (CHR '' '' # parameter_text p) = parameter_text p"
proof -
  show pr: "list_all printable (parameter_text p)"
    using assms escape_printable [of "snd p"] token_byte_facts
    by (auto simp: parameter_text_def parameter_ok_def oauth_token_def list_all_iff printable_def DQUOTE_def code_def)
  show ne: "parameter_text p \<noteq> []"
    by (simp add: parameter_text_def)
  obtain c k where "fst p = c # k" "token_byte c"
    using assms by (cases "fst p") (auto simp: parameter_ok_def oauth_token_def)
  then show hd: "hd (parameter_text p) \<noteq> CHR '' ''"
    using token_byte_facts by (auto simp: parameter_text_def)
  show last: "last (parameter_text p) \<noteq> CHR '' ''"
    by (simp add: parameter_text_def DQUOTE_def)
  show "str_trim (parameter_text p) = parameter_text p" "str_trim (CHR '' '' # parameter_text p) = parameter_text p"
    using str_trim_none [OF pr ne hd last] by auto
qed

lemma takeWhile_token: "list_all token_byte k \<Longrightarrow> takeWhile (\<lambda>b. b \<noteq> CHR '' '' \<and> b \<noteq> CHR ''='') (k @ CHR ''='' # s) = k"
  "list_all token_byte k \<Longrightarrow> takeWhile (\<lambda>b. b \<noteq> CHR ''='') (k @ CHR ''='' # s) = k"
  by (induction k) (auto dest: token_byte_facts)

lemma parameter_read:
  assumes "parameter_ok p" "map_of result (fst p) = None"
  shows "field_parameter result (parameter_text p) = Inr (btree_insert (fst p) (snd p) result)"
proof -
  let ?item = "[DQUOTE] @ escape_quoted (snd p) @ [DQUOTE]"
  have key: "list_all token_byte (fst p)" "fst p \<noteq> []" "to_ascii_lowercase (fst p) = fst p"
    and v: "list_all printable (snd p)"
    using assms(1) by (auto simp: parameter_ok_def oauth_token_def)
  have pk: "list_all printable (fst p)"
    using key(1) token_byte_facts by (auto simp: list_all_iff)
  have "hd (fst p) \<noteq> CHR '' ''" "last (fst p) \<noteq> CHR '' ''"
    using key(1,2) token_byte_facts by (auto simp: list_all_iff)
  then have name: "str_trim (fst p) = fst p"
    using str_trim_none [OF pk key(2)] by simp
  have "list_all printable ?item"
    using escape_printable [OF v] by (simp add: printable_def DQUOTE_def code_def)
  then have item: "str_trim ?item = ?item"
    using str_trim_none(1) [of ?item] by (simp add: DQUOTE_def)
  have "split_once (CHR ''='') (parameter_text p) = Some (fst p, ?item)"
    using takeWhile_token(2) [OF key(1), of ?item] by (simp add: split_once_def parameter_text_def Let_def)
  moreover have "challenge_value ?item = Inr (snd p)"
    using quoted_escape [OF v] by (simp add: challenge_value_def butlast_append)
  ultimately show ?thesis
    using name item key assms(2) by (simp add: field_parameter_def oauth_token_def)
qed

lemma parameter_field:
  assumes "parameter_ok p"
  shows "field_scheme active met (parameter_text p) = Inr (active, met, Some (parameter_text p))"
proof -
  let ?tail = "[CHR ''=''] @ [DQUOTE] @ escape_quoted (snd p) @ [DQUOTE]"
  have key: "list_all token_byte (fst p)" and v: "list_all printable (snd p)"
    using assms by (auto simp: parameter_ok_def oauth_token_def)
  have "scheme_name (parameter_text p) = fst p"
    using takeWhile_token(1) [OF key] by (simp add: scheme_name_def parameter_text_def)
  moreover have "trim_start ?tail = ?tail"
    using escape_printable [OF v] by (subst trim_start_printable) (auto simp: printable_def DQUOTE_def code_def)
  ultimately show ?thesis
    by (simp add: field_scheme_def parameter_text_def Let_def)
qed

lemma distinct_other: "distinct (map fst (p # ps)) \<Longrightarrow> q \<in> set ps \<Longrightarrow> fst q \<noteq> fst p"
  by (metis distinct.simps(2) image_eqI list.set_map list.simps(9))

lemma bearer_rest:
  "list_all parameter_ok ps \<Longrightarrow> distinct (map fst ps) \<Longrightarrow> (\<forall>p \<in> set ps. map_of result (fst p) = None) \<Longrightarrow>
     \<exists>m. bearer_fields True True result (map (\<lambda>q. CHR '' '' # parameter_text q) ps) = Inr m
       \<and> (\<forall>k. map_of m k = (case map_of ps k of Some v \<Rightarrow> Some v | None \<Rightarrow> map_of result k))"
proof (induction ps arbitrary: result)
  case (Cons p ps)
  let ?r = "btree_insert (fst p) (snd p) result"
  obtain m where m: "bearer_fields True True ?r (map (\<lambda>q. CHR '' '' # parameter_text q) ps) = Inr m"
    "\<And>k. map_of m k = (case map_of ps k of Some v \<Rightarrow> Some v | None \<Rightarrow> map_of ?r k)"
    using Cons.IH [of ?r] Cons.prems distinct_other [OF Cons.prems(2)] by (auto simp: map_of_btree_insert)
  have none: "map_of ps (fst p) = None"
    using Cons.prems(2) by (simp add: map_of_eq_None_iff)
  have "bearer_fields True True result (map (\<lambda>q. CHR '' '' # parameter_text q) (p # ps)) = Inr m"
    using m(1) Cons.prems parameter_shape(2,6) [of p] parameter_field [of p] parameter_read [of p result] by (simp add: Let_def)
  moreover have "map_of m k = (case map_of (p # ps) k of Some v \<Rightarrow> Some v | None \<Rightarrow> map_of result k)" for k
    using none unfolding m(2) map_of_btree_insert by (cases p) (simp split: option.split)
  ultimately show ?case
    by blast
qed simp

lemma bearer_scheme:
  assumes "parameter_ok p"
  shows "field_scheme False False (''Bearer '' @ parameter_text p) = Inr (True, True, Some (parameter_text p))"
proof -
  have pr: "list_all printable (CHR '' '' # parameter_text p)"
    using parameter_shape(1) [OF assms] by (simp add: printable_def code_def)
  have "dropWhile (\<lambda>b. b = CHR '' '') (parameter_text p) = parameter_text p"
    using parameter_shape(2,3) [OF assms] by (cases "parameter_text p") auto
  then have rest: "trim_start (CHR '' '' # parameter_text p) = parameter_text p"
    using pr by (simp add: trim_start_printable)
  have "hd (parameter_text p) \<noteq> CHR ''=''"
    using assms token_byte_facts by (cases "fst p") (auto simp: parameter_text_def parameter_ok_def oauth_token_def)
  moreover have "oauth_token ''Bearer''" "eq_ignore_ascii_case ''Bearer'' ''bearer''"
    by code_simp+
  ultimately show ?thesis
    using rest parameter_shape(2) [OF assms] by (simp add: field_scheme_def scheme_name_def Let_def)
qed

text \<open>
  C20: Writing a Bearer challenge and reading it back gives its parameters, whatever printable text they
  hold, quotes, backslashes and commas included.
\<close>

theorem challenge_round_trip:
  assumes "ps \<noteq> []" "list_all parameter_ok ps" "distinct (map fst ps)" "length (challenge_text ps) \<le> 8192"
  shows "\<exists>m. challenge_bearer (challenge_text ps) = Inr m \<and> map_of m = map_of ps"
proof -
  obtain p qs where ps: "ps = p # qs"
    using assms(1) by (cases ps) auto
  let ?first = "''Bearer '' @ parameter_text p"
  have ok: "parameter_ok p" "list_all parameter_ok qs"
    using assms(2) ps by auto
  have pr: "list_all printable (parameters_text ps)"
    using assms(2) parameter_shape(1)
    by (induction ps rule: parameters_text.induct) (auto simp: printable_def code_def)
  then have input: "list_all printable (challenge_text ps)"
    by (simp add: challenge_text_def printable_def code_def)
  have split: "split_fields False False [] (challenge_text ps) = Some (?first # map (\<lambda>q. CHR '' '' # parameter_text q) qs)"
    using split_parameters [of p qs "rev ''Bearer ''"] assms(2) ps
    by (simp add: challenge_text_def DQUOTE_def BACKSLASH_def del: parameters_text.simps)
  have first: "list_all printable ?first"
    using parameter_shape(1) [OF ok(1)] by (simp add: printable_def code_def)
  have trim: "str_trim ?first = ?first"
    using str_trim_none(1) [OF first] parameter_shape(2,4) [OF ok(1)] by simp
  obtain m where m: "bearer_fields True True [(fst p, snd p)] (map (\<lambda>q. CHR '' '' # parameter_text q) qs) = Inr m"
    "\<And>k. map_of m k = (case map_of qs k of Some v \<Rightarrow> Some v | None \<Rightarrow> map_of [(fst p, snd p)] k)"
  proof -
    have "\<forall>q \<in> set qs. map_of [(fst p, snd p)] (fst q) = None"
      using distinct_other [of p qs] assms(3) ps by simp
    moreover have "distinct (map fst qs)"
      using assms(3) ps by simp
    ultimately show ?thesis
      using bearer_rest [OF ok(2), of "[(fst p, snd p)]"] that by blast
  qed
  have "challenge_bearer (challenge_text ps) = Inr m"
    using assms(4) input split trim bearer_scheme [OF ok(1)] parameter_read [OF ok(1), of "[]"] m(1)
    by (simp add: challenge_bearer_def Let_def)
  moreover have "map_of m = map_of ps"
  proof -
    have "map_of qs (fst p) = None"
      using assms(3) ps by (simp add: map_of_eq_None_iff)
    then show ?thesis
      unfolding ps by (cases p) (auto simp: fun_eq_iff m(2) split: option.splits)
  qed
  ultimately show ?thesis
    by blast
qed

theorem challenge_round_trip_witness:
  "\<exists>m. challenge_bearer (challenge_text [(''scope'', ''a,b''), (''resource_metadata'', ''https://r/'')]) = Inr m
     \<and> map_of m ''scope'' = Some ''a,b''"
proof -
  let ?ps = "[(''scope'', ''a,b''), (''resource_metadata'', ''https://r/'')]"
  have "list_all parameter_ok ?ps" "distinct (map fst ?ps)"
    by code_simp+
  moreover have "length (challenge_text ?ps) < 100"
    by code_simp
  ultimately obtain m where m: "challenge_bearer (challenge_text ?ps) = Inr m" "map_of m = map_of ?ps"
    using challenge_round_trip [of ?ps] by auto
  show ?thesis
    using m by (intro exI [of _ m]) simp
qed

end
