(* ===== verification/Web_Fetch.thy ===== *)
theory Web_Fetch
  imports Setup Kernel
begin

text \<open>
  Fetching a page (\<open>web/http.rs\<close>): which addresses are public, what a destination may be, and the
  redirects that are followed.  URLs are read by the \<open>url\<close> crate, names are resolved and requests are
  sent by the host; every answer is any function of the requests made before it.
\<close>

type_synonym origin = "string \<times> string \<times> nat"

record url =
  u_text :: string
  u_scheme :: string
  u_host :: "string option"
  u_user :: string
  u_password :: "string option"
  u_fragment :: "string option"
  u_path :: string
  u_query :: "string option"
  u_origin :: origin
  u_port :: "nat option"

section \<open>Public addresses\<close>

text \<open>Octets and segments are the numbers of the address; \<open>ip_wf\<close> bounds them.\<close>

datatype ip_addr = V4 nat nat nat nat | V6 "nat list"

definition ip_wf :: "ip_addr \<Rightarrow> bool" where
  "ip_wf ip = (case ip of V4 a b c d \<Rightarrow> a < 256 \<and> b < 256 \<and> c < 256 \<and> d < 256
     | V6 ss \<Rightarrow> length ss = 8 \<and> list_all (\<lambda>s. s < 65536) ss)"

definition public4 :: "nat \<Rightarrow> nat \<Rightarrow> nat \<Rightarrow> nat \<Rightarrow> bool" where
  "public4 a b c d \<longleftrightarrow>
     \<not> ((a = 10 \<or> (a = 172 \<and> 16 \<le> b \<and> b \<le> 31) \<or> (a = 192 \<and> b = 168))
        \<or> a = 127
        \<or> (a = 169 \<and> b = 254)
        \<or> (a = 255 \<and> b = 255 \<and> c = 255 \<and> d = 255)
        \<or> (224 \<le> a \<and> a \<le> 239)
        \<or> (a = 0 \<and> b = 0 \<and> c = 0 \<and> d = 0)
        \<or> ((a = 192 \<and> b = 0 \<and> c = 2) \<or> (a = 198 \<and> b = 51 \<and> c = 100) \<or> (a = 203 \<and> b = 0 \<and> c = 113))
        \<or> a = 0
        \<or> 240 \<le> a
        \<or> (a = 100 \<and> 64 \<le> b \<and> b \<le> 127)
        \<or> (a = 198 \<and> 18 \<le> b \<and> b \<le> 19)
        \<or> (a = 192 \<and> b = 0 \<and> c = 0))"

definition to_ipv4_mapped :: "nat list \<Rightarrow> (nat \<times> nat \<times> nat \<times> nat) option" where
  "to_ipv4_mapped ss =
     (if take 6 ss = [0, 0, 0, 0, 0, 0xFFFF]
      then Some (ss ! 6 div 256, ss ! 6 mod 256, ss ! 7 div 256, ss ! 7 mod 256) else None)"

definition public_address :: "ip_addr \<Rightarrow> bool" where
  "public_address ip =
     (case ip of
        V4 a b c d \<Rightarrow> public4 a b c d
      | V6 ss \<Rightarrow>
          (case to_ipv4_mapped ss of
             Some (a, b, c, d) \<Rightarrow> public4 a b c d
           | None \<Rightarrow>
               let special = (ss ! 0 = 0x2001 \<and> (ss ! 1 < 0x200 \<or> ss ! 1 = 0xDB8)) \<or> ss ! 0 = 0x2002
                     \<or> (ss ! 0 = 0x3FFF \<and> ss ! 1 AND 0xF000 = 0) in
               ss ! 0 AND 0xE000 = 0x2000 \<and> \<not> special))"

text \<open>The same as blocks of addresses: a network and how many leading bits it fixes.\<close>

definition SPECIAL4 :: "((nat \<times> nat \<times> nat \<times> nat) \<times> nat) list" where
  "SPECIAL4 = [((0, 0, 0, 0), 8), ((10, 0, 0, 0), 8), ((100, 64, 0, 0), 10), ((127, 0, 0, 0), 8), ((169, 254, 0, 0), 16),
     ((172, 16, 0, 0), 12), ((192, 0, 0, 0), 24), ((192, 0, 2, 0), 24), ((192, 168, 0, 0), 16), ((198, 18, 0, 0), 15),
     ((198, 51, 100, 0), 24), ((203, 0, 113, 0), 24), ((224, 0, 0, 0), 4), ((240, 0, 0, 0), 4)]"

definition number4 :: "nat \<times> nat \<times> nat \<times> nat \<Rightarrow> nat" where
  "number4 q = (case q of (a, b, c, d) \<Rightarrow> ((a * 256 + b) * 256 + c) * 256 + d)"

definition in_block :: "nat \<Rightarrow> nat \<Rightarrow> nat \<Rightarrow> nat \<Rightarrow> bool" where
  "in_block bits n net len \<longleftrightarrow> n div 2 ^ (bits - len) = net div 2 ^ (bits - len)"

fun number6 :: "nat list \<Rightarrow> nat" where
  "number6 ss = foldl (\<lambda>n s. n * 65536 + s) 0 ss"

text \<open>Of IPv6, the global unicast block less three special ones.\<close>

definition SPECIAL6 :: "(nat \<times> nat \<times> nat) list" where
  "SPECIAL6 = [(0x2001, 0, 23), (0x2001, 0xDB8, 32), (0x2002, 0, 16), (0x3FFF, 0, 20)]"

definition special4 :: "nat \<times> nat \<times> nat \<times> nat \<Rightarrow> bool" where
  "special4 q \<longleftrightarrow> list_ex (\<lambda>(net, len). in_block 32 (number4 q) (number4 net) len) SPECIAL4"

definition public_reference :: "ip_addr \<Rightarrow> bool" where
  "public_reference ip =
     (case ip of
        V4 a b c d \<Rightarrow> \<not> special4 (a, b, c, d)
      | V6 ss \<Rightarrow>
          (case to_ipv4_mapped ss of
             Some q \<Rightarrow> \<not> special4 q
           | None \<Rightarrow>
               let top = ss ! 0 * 65536 + ss ! 1 in
               in_block 32 top (0x2000 * 65536) 3
               \<and> \<not> list_ex (\<lambda>(hi, lo, len). in_block 32 top (hi * 65536 + lo) len) SPECIAL6))"

lemma number4_div:
  assumes "b < 256" "c < 256" "d < 256"
  shows "number4 (a, b, c, d) div 2 ^ 24 = a"
    and "number4 (a, b, c, d) div 2 ^ 28 = a div 16"
    and "number4 (a, b, c, d) div 2 ^ 22 = a * 4 + b div 64"
    and "number4 (a, b, c, d) div 2 ^ 20 = a * 16 + b div 16"
    and "number4 (a, b, c, d) div 2 ^ 17 = a * 128 + b div 2"
    and "number4 (a, b, c, d) div 2 ^ 16 = a * 256 + b"
    and "number4 (a, b, c, d) div 2 ^ 8 = (a * 256 + b) * 256 + c"
  using assms by (simp_all add: number4_def)

lemma number4_net:
  "number4 (0, 0, 0, 0) = 0"
  "number4 (10, 0, 0, 0) = 167772160"
  "number4 (100, 64, 0, 0) = 1681915904"
  "number4 (127, 0, 0, 0) = 2130706432"
  "number4 (169, 254, 0, 0) = 2851995648"
  "number4 (172, 16, 0, 0) = 2886729728"
  "number4 (192, 0, 0, 0) = 3221225472"
  "number4 (192, 0, 2, 0) = 3221225984"
  "number4 (192, 168, 0, 0) = 3232235520"
  "number4 (198, 18, 0, 0) = 3323068416"
  "number4 (198, 51, 100, 0) = 3325256704"
  "number4 (203, 0, 113, 0) = 3405803776"
  "number4 (224, 0, 0, 0) = 3758096384"
  "number4 (240, 0, 0, 0) = 4026531840"
  by (simp_all add: number4_def)

lemma radix_eq:
  fixes a b k x y :: nat
  assumes "b < k" "y < k"
  shows "a * k + b = x * k + y \<longleftrightarrow> a = x \<and> b = y"
proof
  assume eq: "a * k + b = x * k + y"
  have "(a * k + b) div k = a" "(x * k + y) div k = x" "(a * k + b) mod k = b" "(x * k + y) mod k = y"
    using assms by auto
  then show "a = x \<and> b = y"
    by (simp only: eq)
qed simp

lemma div_step: "0 < k \<Longrightarrow> n div k = m \<longleftrightarrow> m * k \<le> n \<and> n < Suc m * k" for n k m :: nat
  using div_nat_eqI [of k m n] dividend_less_div_times [of k n] by (auto simp: mult.commute)

lemma special4_iff:
  assumes "a < 256" "b < 256" "c < 256" "d < 256"
  shows "special4 (a, b, c, d) \<longleftrightarrow> \<not> public4 a b c d"
proof -
  have blocks: "special4 (a, b, c, d) \<longleftrightarrow>
      a = 0 \<or> a = 10 \<or> a * 4 + b div 64 = 401 \<or> a = 127 \<or> a * 256 + b = 43518 \<or> a * 16 + b div 16 = 2753
      \<or> (a * 256 + b) * 256 + c = 12582912 \<or> (a * 256 + b) * 256 + c = 12582914 \<or> a * 256 + b = 49320
      \<or> a * 128 + b div 2 = 25353 \<or> (a * 256 + b) * 256 + c = 12989284 \<or> (a * 256 + b) * 256 + c = 13303921
      \<or> a div 16 = 14 \<or> a div 16 = 15"
    using number4_div [OF assms(2-4), of a]
    by (simp add: special4_def SPECIAL4_def in_block_def number4_net)
  have two: "a * 256 + b = x * 256 + y \<longleftrightarrow> a = x \<and> b = y" if "y < 256" for x y
    using radix_eq assms(2) that by blast
  have three: "(a * 256 + b) * 256 + c = (x * 256 + y) * 256 + z \<longleftrightarrow> a = x \<and> b = y \<and> c = z" if "y < 256" "z < 256" for x y z
    using radix_eq [of c 256 z "a * 256 + b" "x * 256 + y"] assms(3) that two by auto
  have "a * 4 + b div 64 = 401 \<longleftrightarrow> a = 100 \<and> 64 \<le> b \<and> b \<le> 127"
    "a * 16 + b div 16 = 2753 \<longleftrightarrow> a = 172 \<and> 16 \<le> b \<and> b \<le> 31"
    "a * 128 + b div 2 = 25353 \<longleftrightarrow> a = 198 \<and> 18 \<le> b \<and> b \<le> 19"
    using div_step [of 64 b 1] div_step [of 16 b 1] div_step [of 2 b 9] radix_eq [of "b div 64" 4 1 a 100]
      radix_eq [of "b div 16" 16 1 a 172] radix_eq [of "b div 2" 128 9 a 198] assms(2) by auto
  moreover have "a div 16 = 14 \<longleftrightarrow> 224 \<le> a \<and> a \<le> 239" "a div 16 = 15 \<longleftrightarrow> 240 \<le> a"
    using div_step [of 16 a 14] div_step [of 16 a 15] assms(1) by auto
  moreover have "a * 256 + b = 43518 \<longleftrightarrow> a = 169 \<and> b = 254" "a * 256 + b = 49320 \<longleftrightarrow> a = 192 \<and> b = 168"
    using two [of 254 169] two [of 168 192] by simp_all
  moreover have "(a * 256 + b) * 256 + c = 12582912 \<longleftrightarrow> a = 192 \<and> b = 0 \<and> c = 0" "(a * 256 + b) * 256 + c = 12582914 \<longleftrightarrow> a = 192 \<and> b = 0 \<and> c = 2"
    "(a * 256 + b) * 256 + c = 12989284 \<longleftrightarrow> a = 198 \<and> b = 51 \<and> c = 100"
    "(a * 256 + b) * 256 + c = 13303921 \<longleftrightarrow> a = 203 \<and> b = 0 \<and> c = 113"
    using three [of 0 0 192] three [of 0 2 192] three [of 51 100 198] three [of 0 113 203] by simp_all
  ultimately have "special4 (a, b, c, d) \<longleftrightarrow>
      a = 0 \<or> a = 10 \<or> (a = 100 \<and> 64 \<le> b \<and> b \<le> 127) \<or> a = 127 \<or> (a = 169 \<and> b = 254) \<or> (a = 172 \<and> 16 \<le> b \<and> b \<le> 31)
      \<or> (a = 192 \<and> b = 0 \<and> c = 0) \<or> (a = 192 \<and> b = 0 \<and> c = 2) \<or> (a = 192 \<and> b = 168) \<or> (a = 198 \<and> 18 \<le> b \<and> b \<le> 19)
      \<or> (a = 198 \<and> b = 51 \<and> c = 100) \<or> (a = 203 \<and> b = 0 \<and> c = 113) \<or> (224 \<le> a \<and> a \<le> 239) \<or> 240 \<le> a"
    unfolding blocks by simp
  moreover have "a = 255 \<Longrightarrow> 240 \<le> a"
    by simp
  ultimately show ?thesis
    unfolding public4_def by argo
qed

lemma special6_iff:
  assumes "hi < 65536" "lo < 65536"
  shows "in_block 32 (hi * 65536 + lo) (0x2000 * 65536) 3 \<longleftrightarrow> hi AND 0xE000 = 0x2000"
    and "in_block 32 (hi * 65536 + lo) (0x2001 * 65536 + 0) 23 \<longleftrightarrow> hi = 0x2001 \<and> lo < 0x200"
    and "in_block 32 (hi * 65536 + lo) (0x2001 * 65536 + 0xDB8) 32 \<longleftrightarrow> hi = 0x2001 \<and> lo = 0xDB8"
    and "in_block 32 (hi * 65536 + lo) (0x2002 * 65536 + 0) 16 \<longleftrightarrow> hi = 0x2002"
    and "in_block 32 (hi * 65536 + lo) (0x3FFF * 65536 + 0) 20 \<longleftrightarrow> hi = 0x3FFF \<and> lo AND 0xF000 = 0"
proof -
  have part: "(hi * 65536 + lo) div 512 = hi * 128 + lo div 512" "(hi * 65536 + lo) div 65536 = hi"
    "(hi * 65536 + lo) div 4096 = hi * 16 + lo div 4096" "(hi * 65536 + lo) div 536870912 = hi div 8192"
    using assms(2) by simp_all
  have "hi * 128 + lo div 512 = 1048704 \<longleftrightarrow> hi = 0x2001 \<and> lo div 512 = 0"
    using radix_eq [of "lo div 512" 128 0 hi "0x2001"] assms(2) by simp
  then show "in_block 32 (hi * 65536 + lo) (0x2001 * 65536 + 0) 23 \<longleftrightarrow> hi = 0x2001 \<and> lo < 0x200"
    unfolding in_block_def using part(1) by (simp add: div_eq_0_iff)
  have "hi * 65536 + lo = 0x20010DB8 \<longleftrightarrow> hi = 0x2001 \<and> lo = 0xDB8"
    using radix_eq [of lo 65536 "0xDB8" hi "0x2001"] assms(2) by simp
  then show "in_block 32 (hi * 65536 + lo) (0x2001 * 65536 + 0xDB8) 32 \<longleftrightarrow> hi = 0x2001 \<and> lo = 0xDB8"
    unfolding in_block_def by simp
  show "in_block 32 (hi * 65536 + lo) (0x2002 * 65536 + 0) 16 \<longleftrightarrow> hi = 0x2002"
    unfolding in_block_def using part(2) by simp
  have masked: "n AND push_bit k (mask j) = (n div 2 ^ k) mod 2 ^ j * 2 ^ k" for n k j :: nat
  proof -
    have "n AND push_bit k (mask j) = push_bit k (take_bit j (drop_bit k n))"
      by (rule bit_eqI) (auto simp: bit_simps)
    then show ?thesis
      by (simp add: push_bit_eq_mult take_bit_eq_mod drop_bit_eq_div)
  qed
  have "(0xE000 :: nat) = push_bit 13 (mask 3)" "(0xF000 :: nat) = push_bit 12 (mask 4)"
    by (simp_all add: mask_eq_exp_minus_1 push_bit_eq_mult)
  then have hi: "hi AND 0xE000 = (hi div 8192) mod 8 * 8192" and lo: "lo AND 0xF000 = (lo div 4096) mod 16 * 4096"
    using masked [of hi 13 3] masked [of lo 12 4] by simp_all
  have "hi div 8192 < 8" "lo div 4096 < 16"
    using assms by auto
  then have "(hi div 8192) mod 8 * 8192 = 0x2000 \<longleftrightarrow> hi div 8192 = 1" "(lo div 4096) mod 16 * 4096 = 0 \<longleftrightarrow> lo div 4096 = 0"
    by auto
  moreover have "hi * 16 + lo div 4096 = 262128 \<longleftrightarrow> hi = 0x3FFF \<and> lo div 4096 = 0"
    using radix_eq [of "lo div 4096" 16 0 hi "0x3FFF"] assms(2) by simp
  ultimately show "in_block 32 (hi * 65536 + lo) (0x2000 * 65536) 3 \<longleftrightarrow> hi AND 0xE000 = 0x2000"
    "in_block 32 (hi * 65536 + lo) (0x3FFF * 65536 + 0) 20 \<longleftrightarrow> hi = 0x3FFF \<and> lo AND 0xF000 = 0"
    unfolding hi lo in_block_def using part(3,4) by simp_all
qed

text \<open>
  C22: An address counts as public exactly when it lies in none of the reserved blocks: fourteen of IPv4,
  and of IPv6 the global unicast block less four; an IPv4-mapped address is judged as the IPv4 one.
\<close>

theorem public_address_exact:
  assumes "ip_wf ip"
  shows "public_address ip \<longleftrightarrow> public_reference ip"
proof (cases ip)
  case (V4 a b c d)
  then show ?thesis
    using assms special4_iff [of a b c d] by (simp add: ip_wf_def public_address_def public_reference_def)
next
  case (V6 ss)
  have ss: "ss ! i < 65536" if "i < 8" for i
    using assms that V6 by (simp add: ip_wf_def list_all_length)
  show ?thesis
  proof (cases "to_ipv4_mapped ss")
    case None
    then show ?thesis
      using special6_iff [of "ss ! 0" "ss ! 1"] ss [of 0] ss [of 1] V6
      by (auto simp: public_address_def public_reference_def Let_def SPECIAL6_def)
  next
    case (Some q)
    then have "q = (ss ! 6 div 256, ss ! 6 mod 256, ss ! 7 div 256, ss ! 7 mod 256)"
      by (auto simp: to_ipv4_mapped_def split: if_splits)
    then show ?thesis
      using Some V6 special4_iff [of "ss ! 6 div 256" "ss ! 6 mod 256" "ss ! 7 div 256" "ss ! 7 mod 256"] ss [of 6] ss [of 7]
      by (simp add: public_address_def public_reference_def)
  qed
qed

theorem public_address_exact_witness:
  "public_reference (V4 169 254 169 254) = False \<and> public_address (V4 8 8 8 8) = public_reference (V4 8 8 8 8)"
proof -
  have "\<not> public_address (V4 169 254 169 254)"
    by (simp add: public_address_def public4_def)
  then show ?thesis
    using public_address_exact [of "V4 169 254 169 254"] public_address_exact [of "V4 8 8 8 8"] by (simp add: ip_wf_def)
qed

section \<open>Destinations and redirects\<close>

record web_settings =
  ws_allow_private :: bool
  ws_timeout :: duration
  ws_max_bytes :: nat
  ws_searxng :: "string option"

record web_sent =
  wt_url :: url
  wt_addresses :: "ip_addr list"

record web_reply =
  wr_status :: nat
  wr_location :: "string option"
  wr_content_type :: "string option"
  wr_body :: "string + bytes"

text \<open>The host: the clock and name resolution by how many requests were sent, and their replies.\<close>

record web_host =
  wh_parse :: "string \<Rightarrow> string + url"
  wh_join :: "url \<Rightarrow> string \<Rightarrow> string + url"
  wh_ascii :: "origin \<Rightarrow> string"
  wh_resolve :: "web_sent list \<Rightarrow> string \<Rightarrow> nat \<Rightarrow> (string + ip_addr list) option"
  wh_elapsed :: "web_sent list \<Rightarrow> duration"
  wh_client :: "web_sent list \<Rightarrow> string + unit"
  wh_send :: "web_sent list \<Rightarrow> string + web_reply"

text \<open>The brackets an IPv6 host is written in, taken off.\<close>

definition trim_brackets :: "string \<Rightarrow> string" where
  "trim_brackets s = (let bracket = (\<lambda>b. b = CHR ''['' \<or> b = CHR '']'') in rev (dropWhile bracket (rev (dropWhile bracket s))))"

definition is_loopback :: "ip_addr \<Rightarrow> bool" where
  "is_loopback ip = (case ip of V4 a b c d \<Rightarrow> a = 127 | V6 ss \<Rightarrow> ss = [0, 0, 0, 0, 0, 0, 0, 1])"

definition web_validated :: "web_host \<Rightarrow> web_settings \<Rightarrow> web_sent list \<Rightarrow> string \<Rightarrow> string + url \<times> ip_addr list" where
  "web_validated H S sent source =
     rbind (map_err (\<lambda>why. ''invalid URL: '' @ why) (wh_parse H source)) (\<lambda>u.
     rbind (ensure ((u_scheme u = ''http'' \<or> u_scheme u = ''https'') \<and> u_user u = [] \<and> u_password u = None)
              ''only HTTP(S) URLs without embedded credentials are allowed'') (\<lambda>_.
     rbind (ok_or (u_host u) ''URL needs a host'') (\<lambda>host.
     rbind (ok_or (u_port u) ''URL needs a port'') (\<lambda>port.
     rbind (ok_or (wh_resolve H sent (trim_brackets host) port) ''DNS resolution timed out'') (\<lambda>r.
     rbind (map_err (\<lambda>why. ''DNS resolution failed: '' @ why) r) (\<lambda>found.
     rbind (ensure (found \<noteq> []) ''URL host resolved to no addresses'') (\<lambda>_.
     rbind (ensure (ws_allow_private S \<or> list_all public_address found)
              ''private, loopback and reserved destinations require trusted web.allow_private configuration'') (\<lambda>_.
     Inr (u, found)))))))))"

record fetched =
  ft_url :: url
  ft_status :: nat
  ft_content_type :: string
  ft_body :: string

definition text_type :: "string \<Rightarrow> bool" where
  "text_type t \<longleftrightarrow> prefix ''text/'' t \<or> sublist ''json'' t \<or> sublist ''xml'' t"

definition fetched_page :: "web_host \<Rightarrow> web_settings \<Rightarrow> url \<Rightarrow> web_reply \<Rightarrow> string + fetched" where
  "fetched_page H S u r =
     rbind (ensure (200 \<le> wr_status r \<and> wr_status r < 300)
              (wh_ascii H (u_origin u) @ '' returned HTTP '' @ dec_text (wr_status r))) (\<lambda>_.
     let kind = (case wr_content_type r of None \<Rightarrow> ''text/plain'' | Some t \<Rightarrow> t) in
     rbind (ensure (text_type kind) (''unsupported page content type: '' @ kind)) (\<lambda>_.
     rbind (map_err (\<lambda>why. ''page could not be read: '' @ why) (wr_body r)) (\<lambda>whole.
     let body = take (ws_max_bytes S + 1) whole in
     rbind (ensure (length body \<le> ws_max_bytes S) (''page exceeds the '' @ dec_text (ws_max_bytes S) @ '' byte download limit'')) (\<lambda>_.
     Inr \<lparr>ft_url = u, ft_status = wr_status r, ft_content_type = kind, ft_body = from_utf8_lossy body\<rparr>))))"

definition fetch_checked :: "web_host \<Rightarrow> web_settings \<Rightarrow> web_sent list \<Rightarrow> string \<Rightarrow> string + url \<times> ip_addr list" where
  "fetch_checked H S sent dest =
     rbind (web_validated H S sent dest) (\<lambda>x.
     rbind (ensure (wh_elapsed H sent \<le> ws_timeout S) ''web request timed out'') (\<lambda>_.
     rbind (map_err (\<lambda>why. ''HTTP client could not start: '' @ why) (wh_client H sent)) (\<lambda>_.
     Inr x)))"

definition redirect_target :: "web_host \<Rightarrow> url \<Rightarrow> web_reply \<Rightarrow> string + string" where
  "redirect_target H u r =
     rbind (ok_or (wr_location r) ''redirect has no valid Location header'') (\<lambda>location.
     rbind (map_err (\<lambda>why. ''invalid redirect: '' @ why) (wh_join H u location)) (\<lambda>to.
     rbind (ensure (\<not> (u_scheme u = ''https'' \<and> u_scheme to \<noteq> ''https'')) ''HTTPS downgrade redirect refused'') (\<lambda>_.
     Inr (u_text to))))"

fun fetch_from :: "web_host \<Rightarrow> web_settings \<Rightarrow> nat \<Rightarrow> string \<Rightarrow> web_sent list \<Rightarrow> (string + fetched) \<times> web_sent list" where
  "fetch_from H S 0 dest sent = (Inl ''page exceeded five redirects'', sent)"
| "fetch_from H S (Suc n) dest sent =
     (case fetch_checked H S sent dest of
        Inl why \<Rightarrow> (Inl why, sent)
      | Inr (u, found) \<Rightarrow>
          let sent = sent @ [\<lparr>wt_url = u, wt_addresses = found\<rparr>] in
          (case wh_send H sent of
             Inl why \<Rightarrow> (Inl (''web request failed: '' @ why), sent)
           | Inr r \<Rightarrow>
               if wr_status r \<in> {301, 302, 303, 307, 308}
               then (case redirect_target H u r of
                       Inl why \<Rightarrow> (Inl why, sent)
                     | Inr dest \<Rightarrow> fetch_from H S n dest sent)
               else (fetched_page H S u r, sent)))"

definition web_fetch :: "web_host \<Rightarrow> web_settings \<Rightarrow> string \<Rightarrow> (string + fetched) \<times> web_sent list" where
  "web_fetch H S source = fetch_from H S 6 source []"

section \<open>Where requests go\<close>

definition fetch_admitted :: "web_settings \<Rightarrow> web_sent \<Rightarrow> bool" where
  "fetch_admitted S x \<longleftrightarrow>
     (u_scheme (wt_url x) = ''http'' \<or> u_scheme (wt_url x) = ''https'') \<and> u_user (wt_url x) = [] \<and> u_password (wt_url x) = None
     \<and> wt_addresses x \<noteq> [] \<and> (ws_allow_private S \<or> (\<forall>ip \<in> set (wt_addresses x). public_address ip))"

definition no_downgrade :: "web_sent list \<Rightarrow> bool" where
  "no_downgrade sent \<longleftrightarrow>
     successively (\<lambda>x y. u_scheme (wt_url x) = ''https'' \<longrightarrow> u_scheme (wt_url y) = ''https'') sent"

text \<open>What the \<open>url\<close> crate documents: a URL written out and read again keeps its scheme.\<close>

definition url_rereads :: "web_host \<Rightarrow> bool" where
  "url_rereads H \<longleftrightarrow> (\<forall>u l v w. wh_join H u l = Inr v \<longrightarrow> wh_parse H (u_text v) = Inr w \<longrightarrow> u_scheme w = u_scheme v)"

lemma web_validated_ok:
  assumes "web_validated H S sent dest = Inr (u, found)"
  shows "wh_parse H dest = Inr u \<and> fetch_admitted S \<lparr>wt_url = u, wt_addresses = found\<rparr>"
  using assms unfolding web_validated_def rbind_eq_Inr
  by (auto simp: fetch_admitted_def list_all_iff)

lemma fetch_checked_ok: "fetch_checked H S sent dest = Inr x \<Longrightarrow> web_validated H S sent dest = Inr x"
  unfolding fetch_checked_def rbind_eq_Inr by auto

lemma redirect_target_ok:
  "redirect_target H u r = Inr dest \<Longrightarrow>
     \<exists>location to. wh_join H u location = Inr to \<and> dest = u_text to \<and> (u_scheme u = ''https'' \<longrightarrow> u_scheme to = ''https'')"
  unfolding redirect_target_def rbind_eq_Inr by auto

lemma no_downgrade_snoc:
  "no_downgrade (sent @ [x]) \<longleftrightarrow>
     no_downgrade sent \<and> (sent \<noteq> [] \<longrightarrow> u_scheme (wt_url (last sent)) = ''https'' \<longrightarrow> u_scheme (wt_url x) = ''https'')"
  by (auto simp: no_downgrade_def successively_append_iff)

definition page_of :: "web_settings \<Rightarrow> web_sent list \<Rightarrow> fetched \<Rightarrow> bool" where
  "page_of S sent p \<longleftrightarrow>
     sent \<noteq> [] \<and> ft_url p = wt_url (last sent) \<and> text_type (ft_content_type p)
     \<and> (\<exists>body. length body \<le> ws_max_bytes S \<and> ft_body p = from_utf8_lossy body)"

lemma fetched_page_ok:
  assumes "fetched_page H S u r = Inr p"
  shows "ft_url p = u \<and> text_type (ft_content_type p) \<and> (\<exists>body. length body \<le> ws_max_bytes S \<and> ft_body p = from_utf8_lossy body)"
proof -
  obtain whole where "length (take (ws_max_bytes S + 1) whole) \<le> ws_max_bytes S"
    "p = \<lparr>ft_url = u, ft_status = wr_status r, ft_content_type = (case wr_content_type r of None \<Rightarrow> ''text/plain'' | Some t \<Rightarrow> t),
       ft_body = from_utf8_lossy (take (ws_max_bytes S + 1) whole)\<rparr>"
    "text_type (case wr_content_type r of None \<Rightarrow> ''text/plain'' | Some t \<Rightarrow> t)"
    using assms unfolding fetched_page_def Let_def rbind_eq_Inr by auto
  then show ?thesis
    by (auto simp del: length_take)
qed

lemma fetch_from_run:
  assumes "url_rereads H" "fetch_from H S n dest sent = (r, sent')" "list_all (fetch_admitted S) sent" "no_downgrade sent"
    and "sent \<noteq> [] \<Longrightarrow> u_scheme (wt_url (last sent)) = ''https'' \<Longrightarrow> (\<And>w. wh_parse H dest = Inr w \<Longrightarrow> u_scheme w = ''https'')"
  shows "list_all (fetch_admitted S) sent' \<and> no_downgrade sent' \<and> length sent' \<le> length sent + n
    \<and> (\<forall>p. r = Inr p \<longrightarrow> page_of S sent' p)"
  using assms
proof (induction n arbitrary: dest sent)
  case (Suc n)
  show ?case
  proof (cases "fetch_checked H S sent dest")
    case (Inl why)
    then show ?thesis
      using Suc.prems by auto
  next
    case (Inr x)
    obtain u found where x: "x = (u, found)"
      by fastforce
    let ?sent = "sent @ [\<lparr>wt_url = u, wt_addresses = found\<rparr>]"
    note ok = web_validated_ok [OF fetch_checked_ok [OF Inr [unfolded x]]]
    have good: "list_all (fetch_admitted S) ?sent" "no_downgrade ?sent"
      using ok Suc.prems(3-5) by (auto simp: no_downgrade_snoc)
    note run = Suc.prems(2) [unfolded fetch_from.simps Inr x, simplified, unfolded Let_def]
    show ?thesis
    proof (cases "wh_send H ?sent")
      case (Inl why)
      then show ?thesis
        using run good by auto
    next
      case (Inr reply)
      show ?thesis
      proof (cases "wr_status reply \<in> {301, 302, 303, 307, 308}")
        case False
        then have "r = fetched_page H S u reply" "sent' = ?sent"
          using run Inr by auto
        then show ?thesis
          using good fetched_page_ok by (auto simp: page_of_def)
      next
        case redirect: True
        show ?thesis
        proof (cases "redirect_target H u reply")
          case (Inl why)
          then show ?thesis
            using run good redirect \<open>wh_send H ?sent = Inr reply\<close> by auto
        next
          case (Inr dest')
          obtain location to where to: "wh_join H u location = Inr to" "dest' = u_text to" "u_scheme u = ''https'' \<longrightarrow> u_scheme to = ''https''"
            using redirect_target_ok [OF Inr] by blast
          have next': "fetch_from H S n dest' ?sent = (r, sent')"
            using run redirect Inr \<open>wh_send H ?sent = Inr reply\<close> by auto
          have same: "u_scheme v = u_scheme to" if "wh_parse H dest' = Inr v" for v
            using Suc.prems(1) to(1) that unfolding url_rereads_def to(2) by blast
          have "list_all (fetch_admitted S) sent' \<and> no_downgrade sent' \<and> length sent' \<le> length ?sent + n
              \<and> (\<forall>p. r = Inr p \<longrightarrow> page_of S sent' p)"
          proof (rule Suc.IH [OF Suc.prems(1) next' good])
            fix v
            assume "u_scheme (wt_url (last ?sent)) = ''https''" "wh_parse H dest' = Inr v"
            then show "u_scheme v = ''https''"
              using same to(3) by simp
          qed
          then show ?thesis
            by simp
        qed
      qed
    qed
  qed
qed auto

text \<open>
  C7: However a page redirects and whatever a name resolves to, every request of a fetch goes over HTTP(S)
  without credentials in the URL, to addresses that are all public unless the configuration allows
  private ones; never from HTTPS to HTTP; at most six in all.  The page that comes back is the last
  one asked for, a text of at most the configured size.
\<close>

theorem web_fetch_confined:
  assumes "url_rereads H" "web_fetch H S source = (r, sent)"
  shows "list_all (fetch_admitted S) sent \<and> no_downgrade sent \<and> length sent \<le> 6 \<and> (\<forall>p. r = Inr p \<longrightarrow> page_of S sent p)"
  using fetch_from_run [OF assms(1) assms(2) [unfolded web_fetch_def]] by (simp add: no_downgrade_def)

definition demo_url :: "string \<Rightarrow> string \<Rightarrow> url" where
  "demo_url scheme text = \<lparr>u_text = text, u_scheme = scheme, u_host = Some ''a.example'', u_user = [], u_password = None,
     u_fragment = None, u_path = ''/'', u_query = None, u_origin = (scheme, ''a.example'', 443), u_port = Some 443\<rparr>"

definition demo_web :: web_host where
  "demo_web = \<lparr>wh_parse = (\<lambda>s. Inr (demo_url ''https'' s)), wh_join = (\<lambda>u l. Inr (demo_url ''https'' l)), wh_ascii = (\<lambda>_. ''o''),
     wh_resolve = (\<lambda>_ _ _. Some (Inr [V4 8 8 8 8])), wh_elapsed = (\<lambda>_. 0), wh_client = (\<lambda>_. Inr ()),
     wh_send = (\<lambda>sent. Inr (if length sent = 1 then \<lparr>wr_status = 302, wr_location = Some ''https://b/'', wr_content_type = None, wr_body = Inr []\<rparr>
       else \<lparr>wr_status = 200, wr_location = None, wr_content_type = Some ''text/html'', wr_body = Inr ''hi''\<rparr>))\<rparr>"

theorem web_fetch_confined_witness:
  "\<exists>p. fst (web_fetch demo_web \<lparr>ws_allow_private = False, ws_timeout = 1, ws_max_bytes = 9, ws_searxng = None\<rparr> ''https://a/'') = Inr p
     \<and> u_text (ft_url p) = ''https://b/''
     \<and> list_all (fetch_admitted \<lparr>ws_allow_private = False, ws_timeout = 1, ws_max_bytes = 9, ws_searxng = None\<rparr>)
         (snd (web_fetch demo_web \<lparr>ws_allow_private = False, ws_timeout = 1, ws_max_bytes = 9, ws_searxng = None\<rparr> ''https://a/''))"
proof -
  let ?S = "\<lparr>ws_allow_private = False, ws_timeout = 1, ws_max_bytes = 9, ws_searxng = None\<rparr>"
  let ?x = "web_fetch demo_web ?S ''https://a/''"
  have "url_rereads demo_web"
    by (auto simp: url_rereads_def demo_web_def demo_url_def)
  moreover have "\<exists>p. fst ?x = Inr p \<and> u_text (ft_url p) = ''https://b/''"
    by (simp add: web_fetch_def numeral_eq_Suc demo_web_def demo_url_def web_validated_def public_address_def public4_def
        fetched_page_def text_type_def Let_def fetch_checked_def redirect_target_def)
  ultimately show ?thesis
    using web_fetch_confined [of demo_web ?S "''https://a/''" "fst ?x" "snd ?x"] by auto
qed

end
