(* ===== verification/OAuth_Client.thy ===== *)
theory OAuth_Client
  imports OAuth_Challenge Web_Fetch Event_Schema "HOL-Library.Countable"
begin

text \<open>
  The resource-bound OAuth client (\<open>mcp_client/oauth/\<close>): configuration and what it permits, the proof
  of a login, the callback, token replies, requests and discovery.  The \<open>url\<close>, \<open>sha2\<close>, \<open>base64\<close> and
  \<open>serde\<close> crates are the record \<open>oauth_lib\<close>; the network is \<open>oauth_net\<close>, each answer any function of the
  requests made before.
\<close>

text \<open>The replies \<open>serde\<close> derives readers for: a missing field, a null and a text are told apart.\<close>

datatype optional_text = Missing | Present "string option"

record token_reply =
  rp_error :: optional_text
  rp_access_token :: string
  rp_token_type :: string
  rp_expires_in :: "64 word option"
  rp_refresh_token :: optional_text
  rp_scope :: "string option"

record resource_document =
  rd_resource :: string
  rd_servers :: "string list"
  rd_scopes :: "string list option"
  rd_methods :: "string list option"

record server_document =
  sd_issuer :: string
  sd_authorization :: string
  sd_token :: string
  sd_challenge_methods :: "string list"
  sd_response_types :: "string list"
  sd_grants :: "string list option"
  sd_auth_methods :: "string list option"
  sd_response_issuer :: bool
  sd_client_documents :: bool

record oauth_lib =
  ol_parse :: "string \<Rightarrow> url option"
  ol_ascii :: "origin \<Rightarrow> string"
  ol_ip :: "string \<Rightarrow> ip_addr option"
  ol_pairs :: "url \<Rightarrow> (string \<times> string) list"
  ol_append :: "url \<Rightarrow> (string \<times> string) list \<Rightarrow> url"
  ol_sha256 :: "bytes \<Rightarrow> bytes"
  ol_base64 :: "bytes \<Rightarrow> string"
  ol_form :: "(string \<times> string) list \<Rightarrow> string"
  ol_reply :: "bytes \<Rightarrow> token_reply option"
  ol_resource :: "bytes \<Rightarrow> resource_document option"
  ol_server :: "bytes \<Rightarrow> server_document option"

section \<open>Configuration\<close>

record oauth_config =
  oc_issuer :: string
  oc_resource :: string
  oc_client_id :: string
  oc_scopes :: "string list"
  oc_origins :: "string list"
  oc_private_origins :: "string list"
  oc_callback_port :: "16 word"
  oc_timeout_secs :: "64 word"

record oauth_binding =
  ob_endpoint :: string
  ob_resource :: string
  ob_issuer :: string
  ob_client_id :: string

definition bare :: "byte \<Rightarrow> bool" where
  "bare b \<longleftrightarrow> \<not> (code b \<le> 0x20 \<or> code b = 0x7F)"

definition oauth_uri :: "oauth_lib \<Rightarrow> string \<Rightarrow> oauth_error + url" where
  "oauth_uri L v =
     rbind (ensure (length v \<le> 4096 \<and> list_all bare v) E_Configuration) (\<lambda>_.
     rbind (ok_or (ol_parse L v) E_Configuration) (\<lambda>u.
     rbind (ensure ((u_scheme u = ''http'' \<or> u_scheme u = ''https'') \<and> u_host u \<noteq> None \<and> u_user u = []
              \<and> u_password u = None \<and> u_fragment u = None) E_Configuration) (\<lambda>_.
     Inr u)))"

definition oauth_origin :: "oauth_lib \<Rightarrow> string \<Rightarrow> oauth_error + string" where
  "oauth_origin L v =
     rbind (oauth_uri L v) (\<lambda>u.
     rbind (ensure (u_path u = ''/'' \<and> u_query u = None) E_Configuration) (\<lambda>_.
     Inr (ol_ascii L (u_origin u))))"

definition oauth_scope :: "string \<Rightarrow> bool" where
  "oauth_scope v \<longleftrightarrow> v \<noteq> [] \<and> length v \<le> 256
     \<and> list_all (\<lambda>b. code b = 0x21 \<or> (0x23 \<le> code b \<and> code b \<le> 0x5B) \<or> (0x5D \<le> code b \<and> code b \<le> 0x7E)) v"

definition config_private :: "oauth_lib \<Rightarrow> oauth_config \<Rightarrow> url \<Rightarrow> bool" where
  "config_private L c u \<longleftrightarrow>
     list_ex (\<lambda>item. oauth_origin L item = Inr (ol_ascii L (u_origin u))) (oc_private_origins c)"

definition config_secure :: "oauth_lib \<Rightarrow> oauth_config \<Rightarrow> url \<Rightarrow> oauth_error + unit" where
  "config_secure L c u =
     (let loopback = (case Option.bind (u_host u) (\<lambda>h. ol_ip L (trim_brackets h)) of None \<Rightarrow> False | Some ip \<Rightarrow> is_loopback ip) in
      ensure (u_scheme u = ''https'' \<or> (loopback \<and> config_private L c u)) E_Configuration)"

fun all_ok :: "('a \<Rightarrow> 'e + 'b) \<Rightarrow> 'a list \<Rightarrow> 'e + unit" where
  "all_ok f [] = Inr ()"
| "all_ok f (x # xs) = rbind (f x) (\<lambda>_. all_ok f xs)"

definition client_ok :: "string \<Rightarrow> bool" where
  "client_ok v \<longleftrightarrow> v \<noteq> [] \<and> length v \<le> 4096 \<and> list_all bare v"

definition config_bind :: "oauth_lib \<Rightarrow> oauth_config \<Rightarrow> string \<Rightarrow> oauth_error + oauth_binding" where
  "config_bind L c endpoint =
     rbind (ensure (1 \<le> oc_timeout_secs c \<and> oc_timeout_secs c \<le> 300 \<and> length (oc_scopes c) \<le> 32
              \<and> list_all oauth_scope (oc_scopes c) \<and> length (oc_origins c) \<le> 16 \<and> length (oc_private_origins c) \<le> 16
              \<and> client_ok (oc_client_id c)) E_Configuration) (\<lambda>_.
     rbind (all_ok (oauth_origin L) (oc_origins c @ oc_private_origins c)) (\<lambda>_.
     rbind (oauth_uri L endpoint) (\<lambda>e.
     rbind (oauth_uri L (oc_resource c)) (\<lambda>r.
     rbind (oauth_uri L (oc_issuer c)) (\<lambda>i.
     rbind (ensure (u_query i = None \<and> u_origin e = u_origin r) E_Configuration) (\<lambda>_.
     rbind (all_ok (config_secure L c) [e, r, i]) (\<lambda>_.
     rbind (if prefix ''http:'' (oc_client_id c) \<or> prefix ''https:'' (oc_client_id c)
            then rbind (oauth_uri L (oc_client_id c)) (\<lambda>u.
                 ensure (u_scheme u = ''https'' \<and> u_query u = None) E_Configuration)
            else Inr ()) (\<lambda>_.
     Inr \<lparr>ob_endpoint = u_text e, ob_resource = u_text r, ob_issuer = oc_issuer c, ob_client_id = oc_client_id c\<rparr>))))))))"

definition config_permits :: "oauth_lib \<Rightarrow> oauth_config \<Rightarrow> string \<Rightarrow> oauth_error + url" where
  "config_permits L c v =
     rbind (oauth_uri L v) (\<lambda>u.
     rbind (config_secure L c u) (\<lambda>_.
     rbind (oauth_uri L (oc_issuer c)) (\<lambda>i.
     rbind (if u_origin i = u_origin u then Inr True
            else rbind (oauth_uri L (oc_resource c)) (\<lambda>r.
                 Inr (u_origin r = u_origin u
                    \<or> list_ex (\<lambda>item. oauth_origin L item = Inr (ol_ascii L (u_origin u))) (oc_origins c)))) (\<lambda>allowed.
     rbind (ensure allowed E_Configuration) (\<lambda>_.
     Inr u)))))"

definition oauth_binding_validate :: "oauth_lib \<Rightarrow> oauth_binding \<Rightarrow> oauth_error + unit" where
  "oauth_binding_validate L b =
     rbind (oauth_uri L (ob_endpoint b)) (\<lambda>e.
     rbind (oauth_uri L (ob_resource b)) (\<lambda>r.
     rbind (oauth_uri L (ob_issuer b)) (\<lambda>i.
     ensure (u_text e = ob_endpoint b \<and> u_text r = ob_resource b \<and> u_origin e = u_origin r \<and> u_query i = None
       \<and> client_ok (ob_client_id b)) E_Configuration)))"

text \<open>The name of a binding's files: a digest of every field with its length before it.\<close>

definition framed_field :: "string \<Rightarrow> bytes" where
  "framed_field s = to_be_bytes 8 (length s) @ s"

definition binding_bytes :: "oauth_binding \<Rightarrow> bytes" where
  "binding_bytes b =
     ''casper-mcp-oauth-store-v1'' @ framed_field (ob_endpoint b) @ framed_field (ob_resource b)
       @ framed_field (ob_issuer b) @ framed_field (ob_client_id b)"

definition binding_key :: "oauth_lib \<Rightarrow> oauth_binding \<Rightarrow> string" where
  "binding_key L b = concat (map hex2 (ol_sha256 L (binding_bytes b)))"

section \<open>Credentials\<close>

record credential =
  cr_access_token :: string
  cr_refresh_token :: "string option"
  cr_expires_at :: "64 word option"
  cr_scopes :: "string list"

definition visible_text :: "string \<Rightarrow> bool" where
  "visible_text t \<longleftrightarrow> t \<noteq> [] \<and> length t \<le> 16384 \<and> list_all (\<lambda>b. 0x21 \<le> code b \<and> code b \<le> 0x7E) t"

definition credential_validate :: "credential \<Rightarrow> oauth_error + unit" where
  "credential_validate c =
     ensure (visible_text (cr_access_token c) \<and> (\<forall>t \<in> set_option (cr_refresh_token c). visible_text t)
       \<and> length (cr_scopes c) \<le> 32 \<and> list_all oauth_scope (cr_scopes c)
       \<and> list_all (\<lambda>b. is_ascii_alphanumeric b \<or> b \<in> set ''-._~+/='') (cr_access_token c)) E_Credential"

definition credential_fresh :: "credential \<Rightarrow> 64 word \<Rightarrow> bool" where
  "credential_fresh c time = (case cr_expires_at c of None \<Rightarrow> True | Some e \<Rightarrow> time < e)"

definition granted_scopes :: "string option \<Rightarrow> string list \<Rightarrow> credential option \<Rightarrow> string list" where
  "granted_scopes given requested previous =
     (case given of
        Some s \<Rightarrow> split_at_byte (CHR '' '') s
      | None \<Rightarrow> if requested \<noteq> [] then requested else (case previous of None \<Rightarrow> [] | Some c \<Rightarrow> cr_scopes c))"

definition token_credential ::
  "oauth_lib \<Rightarrow> bytes \<Rightarrow> credential option \<Rightarrow> string list \<Rightarrow> 64 word \<Rightarrow> oauth_error + credential" where
  "token_credential L body previous requested time =
     rbind (ensure (length body \<le> 65536) E_Credential) (\<lambda>_.
     rbind (ok_or (ol_reply L body) E_Credential) (\<lambda>r.
     rbind (ensure (rp_error r = Missing \<and> eq_ignore_ascii_case (rp_token_type r) ''Bearer'' \<and> rp_expires_in r \<noteq> Some 0)
              E_Credential) (\<lambda>_.
     let refresh = (case rp_refresh_token r of
           Missing \<Rightarrow> Option.bind previous cr_refresh_token | Present v \<Rightarrow> v);
         scopes = granted_scopes (rp_scope r) requested previous in
     rbind (ensure (length scopes \<le> 32 \<and> list_all oauth_scope scopes) E_Credential) (\<lambda>_.
     rbind (case rp_expires_in r of
              None \<Rightarrow> Inr None
            | Some s \<Rightarrow> if unat time + unat s < 2 ^ 64 then Inr (Some (time + s)) else Inl E_Credential) (\<lambda>expires.
     let c = \<lparr>cr_access_token = rp_access_token r, cr_refresh_token = refresh, cr_expires_at = expires, cr_scopes = scopes\<rparr> in
     rbind (credential_validate c) (\<lambda>_.
     Inr c))))))"

section \<open>The proof of a login\<close>

record oauth_discovery =
  di_issuer :: string
  di_authorization :: string
  di_token :: string
  di_scopes :: "string list"
  di_require_issuer :: bool

record oauth_proof =
  pf_state :: string
  pf_verifier :: string

definition proof_challenge :: "oauth_lib \<Rightarrow> oauth_proof \<Rightarrow> string" where
  "proof_challenge L p = ol_base64 L (ol_sha256 L (pf_verifier p))"

definition RESERVED :: "string list" where
  "RESERVED = [''client_id'', ''response_type'', ''redirect_uri'', ''state'', ''scope'', ''resource'',
     ''code_challenge'', ''code_challenge_method'']"

fun spaced :: "string list \<Rightarrow> string" where
  "spaced [] = []"
| "spaced [s] = s"
| "spaced (s # ss) = s @ '' '' @ spaced ss"

definition proof_authorization ::
  "oauth_lib \<Rightarrow> oauth_proof \<Rightarrow> oauth_config \<Rightarrow> oauth_discovery \<Rightarrow> string \<Rightarrow> oauth_error + url" where
  "proof_authorization L p c d redirect =
     rbind (config_permits L c (di_authorization d)) (\<lambda>base.
     rbind (ensure (\<not> list_ex (\<lambda>(name, _). name \<in> set RESERVED) (ol_pairs L base)) E_Metadata) (\<lambda>_.
     rbind (config_permits L c (oc_resource c)) (\<lambda>r.
     let u1 = ol_append L base
           [(''client_id'', oc_client_id c), (''response_type'', ''code''), (''redirect_uri'', redirect), (''state'', pf_state p),
            (''resource'', u_text r), (''code_challenge'', proof_challenge L p), (''code_challenge_method'', ''S256'')];
         u2 = (if di_scopes d = [] then u1 else ol_append L u1 [(''scope'', spaced (di_scopes d))]) in
     rbind (ensure (length (u_text u2) \<le> 16384) E_Configuration) (\<lambda>_.
     Inr u2))))"

definition different :: "string \<Rightarrow> string \<Rightarrow> nat" where
  "different a b = fold (\<lambda>(x, y) d. d OR (code x XOR code y)) (zip a b) 0"

definition oauth_equal :: "string \<Rightarrow> string \<Rightarrow> bool" where
  "oauth_equal a b \<longleftrightarrow> length a = length b \<and> different a b = 0"

section \<open>The callback\<close>

definition CRLF :: bytes where "CRLF = [CHR 0x0D, CHR 0x0A]"

fun split_crlf :: "bytes \<Rightarrow> bytes list" where
  "split_crlf [] = [[]]"
| "split_crlf (b # bs) =
     (case bs of
        c # cs \<Rightarrow> if b = CHR 0x0D \<and> c = CHR 0x0A then [] # split_crlf cs
                 else (case split_crlf bs of [] \<Rightarrow> [[b]] | w # ws \<Rightarrow> (b # w) # ws)
      | [] \<Rightarrow> [[b]])"

fun request_read :: "bytes \<Rightarrow> bytes \<Rightarrow> oauth_error + bytes" where
  "request_read got incoming =
     (if suffix (CRLF @ CRLF) got then Inr got
      else if 8192 \<le> length got then Inl E_Callback
      else case incoming of [] \<Rightarrow> Inl E_Callback | b # bs \<Rightarrow> request_read (got @ [b]) bs)"

definition request_path :: "string \<Rightarrow> oauth_error + string" where
  "request_path line =
     (case split_at_byte (CHR '' '') line of
        [how, target, proto] \<Rightarrow>
          if how = ''GET'' \<and> proto = ''HTTP/1.1'' \<and> prefix ''/oauth/callback?'' target then Inr target else Inl E_Callback
      | _ \<Rightarrow> Inl E_Callback)"

fun callback_headers :: "string option \<Rightarrow> string list \<Rightarrow> oauth_error + string option" where
  "callback_headers host [] = Inr host"
| "callback_headers host (line # rest) =
     (if line = [] then Inr host
      else rbind (ok_or (split_once (CHR '':'') line) E_Callback) (\<lambda>(name, v).
        let is_host = eq_ignore_ascii_case name ''host'';
            host' = (if is_host then Some (str_trim v) else host) in
        if is_host \<and> host \<noteq> None then Inl E_Callback
        else if eq_ignore_ascii_case name ''transfer-encoding''
          \<or> (eq_ignore_ascii_case name ''content-length'' \<and> str_trim v \<noteq> ''0'') then Inl E_Callback
        else callback_headers host' rest))"

fun callback_parameters :: "(string \<times> string) list \<Rightarrow> (string \<times> string) list \<Rightarrow> oauth_error + (string \<times> string) list" where
  "callback_parameters got [] = Inr got"
| "callback_parameters got ((name, v) # rest) =
     (if 16 \<le> length got \<or> map_of got name \<noteq> None then Inl E_Callback
      else callback_parameters (btree_insert name v got) rest)"

definition code_ok :: "string \<Rightarrow> bool" where
  "code_ok s \<longleftrightarrow> s \<noteq> [] \<and> length s \<le> 4096 \<and> list_all (\<lambda>b. \<not> (code b < 0x21 \<or> code b = 0x7F)) s"

definition callback_answer :: "(string \<times> string) list \<Rightarrow> string \<Rightarrow> oauth_discovery \<Rightarrow> oauth_error + string" where
  "callback_answer ps expected d =
     rbind (ensure (case map_of ps ''state'' of None \<Rightarrow> False | Some v \<Rightarrow> oauth_equal v expected) E_Callback) (\<lambda>_.
     rbind (ensure (case map_of ps ''iss'' of None \<Rightarrow> \<not> di_require_issuer d | Some i \<Rightarrow> i = di_issuer d) E_Callback) (\<lambda>_.
     rbind (ensure (map_of ps ''error'' = None) E_Required) (\<lambda>_.
     rbind (ok_or (map_of ps ''code'') E_Callback) (\<lambda>c.
     rbind (ensure (code_ok c) E_Callback) (\<lambda>_.
     Inr c)))))"

definition callback_parse :: "oauth_lib \<Rightarrow> string \<Rightarrow> bytes \<Rightarrow> string \<Rightarrow> oauth_discovery \<Rightarrow> oauth_error + string" where
  "callback_parse L host body expected d =
     rbind (ensure (from_utf8 body) E_Callback) (\<lambda>_.
     let lines = split_crlf body in
     rbind (request_path (hd lines)) (\<lambda>path.
     rbind (callback_headers None (tl lines)) (\<lambda>named.
     rbind (ensure (named = Some host) E_Callback) (\<lambda>_.
     rbind (ok_or (ol_parse L (''http://'' @ host @ path)) E_Callback) (\<lambda>u.
     rbind (ensure (u_path u = ''/oauth/callback'' \<and> u_fragment u = None) E_Callback) (\<lambda>_.
     rbind (callback_parameters [] (ol_pairs L u)) (\<lambda>ps.
     callback_answer ps expected d)))))))"

definition crlf_lines :: "string list \<Rightarrow> bytes" where
  "crlf_lines ls = concat (map (\<lambda>l. l @ CRLF) ls)"

definition callback_reply :: "bool \<Rightarrow> bytes" where
  "callback_reply ok =
     (if ok then crlf_lines [''HTTP/1.1 200 OK'', ''Content-Type: text/plain'', ''Cache-Control: no-store'', ''Connection: close'',
         ''Content-Length: 39'', []] @ ''Authorization received. Return to CLI.'' @ [CHR 0x0A]
      else crlf_lines [''HTTP/1.1 400 Bad Request'', ''Content-Type: text/plain'', ''Cache-Control: no-store'', ''Connection: close'',
         ''Content-Length: 24'', []] @ ''Authorization rejected.'' @ [CHR 0x0A])"

text \<open>The one connection a callback accepts: its peer, the bytes it sends before it ends or fails, and what
  else may go wrong.  The reply written is returned beside the result.\<close>

record callback_peer =
  cp_address :: "ip_addr option"
  cp_bytes :: bytes
  cp_late :: bool
  cp_wrote :: "bool option"

definition callback_redirect :: "string \<Rightarrow> string" where
  "callback_redirect host = ''http://'' @ host @ ''/oauth/callback''"

definition callback_receive ::
  "oauth_lib \<Rightarrow> string \<Rightarrow> callback_peer \<Rightarrow> string \<Rightarrow> oauth_discovery \<Rightarrow> (oauth_error + string) \<times> bytes option" where
  "callback_receive L host peer expected d =
     (case rbind (ok_or (cp_address peer) E_Callback) (\<lambda>ip. ensure (is_loopback ip) E_Callback) of
        Inl e \<Rightarrow> (Inl e, None)
      | Inr _ \<Rightarrow>
          if cp_late peer then (Inl E_Timeout, None)
          else case request_read [] (cp_bytes peer) of
            Inl e \<Rightarrow> (Inl e, None)
          | Inr request \<Rightarrow>
              let parsed = callback_parse L host request expected d in
              (rbind (case cp_wrote peer of None \<Rightarrow> Inl E_Timeout | Some ok \<Rightarrow> ensure ok E_Callback) (\<lambda>_. parsed), Some (callback_reply (is_ok parsed))))"

section \<open>Requests\<close>

record oauth_request =
  rq_url :: url
  rq_addresses :: "ip_addr list"
  rq_form :: "(string \<times> string) list option"

record http_reply =
  hr_status :: nat
  hr_challenges :: "string option list"
  hr_encoded :: bool
  hr_length :: "nat option"
  hr_chunks :: "bytes option list"

record oauth_response =
  rs_status :: nat
  rs_challenge :: "string option"
  rs_body :: bytes

text \<open>What the network answers, by the requests made so far, the one just made included: names, connections and
  replies, and which of the three timeouts has run out.\<close>

record oauth_net =
  on_allowed :: bool
  on_lookup :: "oauth_request list \<Rightarrow> string \<Rightarrow> nat \<Rightarrow> ip_addr list option"
  on_client :: "oauth_request list \<Rightarrow> bool"
  on_send :: "oauth_request list \<Rightarrow> http_reply option"
  on_stalled :: "oauth_request list \<Rightarrow> bool"
  on_late :: "oauth_request list \<Rightarrow> bool"
  on_overdue :: "oauth_request list \<Rightarrow> bool"

type_synonym 'a oauth = "(oauth_request list, oauth_error, 'a) prog"

definition CONTROL_LIMIT :: nat where "CONTROL_LIMIT = 64 * 1024"

text \<open>A future under a timeout: nothing is waited for between two requests but the next one.\<close>

definition in_time :: "(oauth_request list \<Rightarrow> bool) \<Rightarrow> 'a oauth \<Rightarrow> 'a oauth" where
  "in_time overdue m = (\<lambda>log. if overdue log then (Inl E_Timeout, log)
     else case m log of (r, log') \<Rightarrow> (if overdue log' then Inl E_Timeout else r, log'))"

definition control_client :: "oauth_lib \<Rightarrow> oauth_net \<Rightarrow> oauth_config \<Rightarrow> string \<Rightarrow> (url \<times> ip_addr list) oauth" where
  "control_client L N c target =
     in_time (on_stalled N) (sbind (scheck (on_allowed N) E_Network) (\<lambda>_.
     sbind (slift (config_permits L c target)) (\<lambda>u.
     sbind (slift (ok_or (u_host u) E_Configuration)) (\<lambda>host.
     sbind (slift (ok_or (u_port u) E_Configuration)) (\<lambda>port.
     sbind (\<lambda>log. (ok_or (on_lookup N log (trim_brackets host) port) E_Network, log)) (\<lambda>found.
     let addresses = take 65 found in
     sbind (scheck (addresses \<noteq> [] \<and> length addresses \<le> 64 \<and> (config_private L c u \<or> list_all public_address addresses)) E_Network) (\<lambda>_.
     sbind (\<lambda>log. (ensure (on_client N log) E_Network, log)) (\<lambda>_.
     sreturn (u, addresses)))))))))"

fun gather_challenges :: "string \<Rightarrow> string option list \<Rightarrow> oauth_error + string" where
  "gather_challenges got [] = Inr got"
| "gather_challenges got (v # vs) =
     (case v of
        None \<Rightarrow> Inl E_Metadata
      | Some text \<Rightarrow>
          if 8192 < length got + length text + 1 then Inl E_Metadata
          else gather_challenges ((if got = [] then got else got @ '','') @ text) vs)"

fun gather_body :: "bytes \<Rightarrow> bytes option list \<Rightarrow> oauth_error + bytes" where
  "gather_body got [] = Inr got"
| "gather_body got (v # vs) =
     (case v of
        None \<Rightarrow> Inl E_Network
      | Some chunk \<Rightarrow> if CONTROL_LIMIT < length got + length chunk then Inl E_Metadata else gather_body (got @ chunk) vs)"

definition control_reply :: "bool \<Rightarrow> http_reply \<Rightarrow> oauth_error + oauth_response" where
  "control_reply probe r =
     rbind (ensure (\<not> (300 \<le> hr_status r \<and> hr_status r < 400)) E_Metadata) (\<lambda>_.
     rbind (gather_challenges [] (hr_challenges r)) (\<lambda>text.
     let challenge = (if text = [] then None else Some text) in
     if probe then Inr \<lparr>rs_status = hr_status r, rs_challenge = challenge, rs_body = []\<rparr>
     else
       rbind (ensure (\<not> hr_encoded r \<and> (case hr_length r of None \<Rightarrow> True | Some n \<Rightarrow> n \<le> CONTROL_LIMIT)) E_Metadata) (\<lambda>_.
       rbind (gather_body [] (hr_chunks r)) (\<lambda>body.
       Inr \<lparr>rs_status = hr_status r, rs_challenge = challenge, rs_body = body\<rparr>))))"

definition control_send :: "oauth_net \<Rightarrow> url \<Rightarrow> ip_addr list \<Rightarrow> (string \<times> string) list option \<Rightarrow> http_reply oauth" where
  "control_send N u addresses form log =
     (let log = log @ [\<lparr>rq_url = u, rq_addresses = addresses, rq_form = form\<rparr>] in (ok_or (on_send N log) E_Network, log))"

definition control_exchange ::
  "oauth_lib \<Rightarrow> oauth_net \<Rightarrow> oauth_config \<Rightarrow> string \<Rightarrow> (string \<times> string) list option \<Rightarrow> bool \<Rightarrow> oauth_response oauth" where
  "control_exchange L N c target form probe =
     sbind (control_client L N c target) (\<lambda>(u, addresses).
     sbind (scheck (case form of None \<Rightarrow> True | Some f \<Rightarrow> length (ol_form L f) \<le> CONTROL_LIMIT) E_Credential) (\<lambda>_.
     sbind (control_send N u addresses form) (\<lambda>r.
     slift (control_reply probe r))))"

definition control_request ::
  "oauth_lib \<Rightarrow> oauth_net \<Rightarrow> oauth_config \<Rightarrow> string \<Rightarrow> (string \<times> string) list option \<Rightarrow> bool \<Rightarrow> oauth_response oauth" where
  "control_request L N c target form probe =
     stry (control_exchange L N c target form probe) (\<lambda>r. \<lambda>log. (if on_late N log then Inl E_Timeout else r, log))"

section \<open>Discovery\<close>

definition well_known :: "oauth_lib \<Rightarrow> string \<Rightarrow> bool \<Rightarrow> oauth_error + string list" where
  "well_known L source resource =
     rbind (ok_or (ol_parse L source) E_Metadata) (\<lambda>u.
     let base = ol_ascii L (u_origin u);
         path = rev (dropWhile (\<lambda>b. b = CHR ''/'') (rev (u_path u)));
         tail = (if resource then ''oauth-protected-resource'' else ''oauth-authorization-server'') in
     Inr ([base @ ''/.well-known/'' @ tail @ path]
       @ (if resource then (if path = [] then [] else [base @ ''/.well-known/'' @ tail])
          else [base @ ''/.well-known/openid-configuration'' @ path]
            @ (if path = [] then [] else [base @ path @ ''/.well-known/openid-configuration'']))))"

fun oauth_document ::
  "oauth_lib \<Rightarrow> oauth_net \<Rightarrow> oauth_config \<Rightarrow> (bytes \<Rightarrow> 'a option) \<Rightarrow> string list \<Rightarrow> 'a oauth" where
  "oauth_document L N c read [] = sfail E_Metadata"
| "oauth_document L N c read (place # places) =
     sbind (in_time (on_overdue N) (control_request L N c place None False)) (\<lambda>r.
     if rs_status r = 404 \<or> rs_status r = 405 then oauth_document L N c read places
     else
       sbind (scheck (200 \<le> rs_status r \<and> rs_status r < 300) E_Metadata) (\<lambda>_.
       slift (ok_or (read (rs_body r)) E_Metadata)))"

definition names_any :: "string list option \<Rightarrow> string \<Rightarrow> bool" where
  "names_any given name = (case given of None \<Rightarrow> True | Some xs \<Rightarrow> name \<in> set xs)"

definition resource_checked :: "oauth_lib \<Rightarrow> oauth_config \<Rightarrow> string \<Rightarrow> resource_document \<Rightarrow> oauth_error + unit" where
  "resource_checked L c endpoint d =
     rbind (config_permits L c (rd_resource d)) (\<lambda>u.
     rbind (config_bind L c endpoint) (\<lambda>b.
     ensure (u_text u = ob_resource b \<and> rd_servers d \<noteq> [] \<and> length (rd_servers d) \<le> 16
       \<and> oc_issuer c \<in> set (rd_servers d) \<and> names_any (rd_methods d) ''header'') E_Metadata))"

definition server_checked :: "oauth_lib \<Rightarrow> oauth_config \<Rightarrow> server_document \<Rightarrow> oauth_error + unit" where
  "server_checked L c d =
     rbind (ensure (sd_issuer d = oc_issuer c \<and> ''S256'' \<in> set (sd_challenge_methods d) \<and> ''code'' \<in> set (sd_response_types d)
              \<and> names_any (sd_grants d) ''authorization_code'' \<and> names_any (sd_auth_methods d) ''none''
              \<and> (prefix ''https:'' (oc_client_id c) \<longrightarrow> sd_client_documents d)) E_Metadata) (\<lambda>_.
     rbind (config_permits L c (sd_authorization d)) (\<lambda>_.
     rbind (config_permits L c (sd_token d)) (\<lambda>_.
     Inr ())))"

definition discovered_scopes :: "oauth_config \<Rightarrow> string list \<Rightarrow> oauth_error + string list" where
  "discovered_scopes c requested =
     rbind (if oc_scopes c = [] then Inr requested
            else rbind (ensure (list_all (\<lambda>s. s \<in> set (oc_scopes c)) requested) E_Metadata) (\<lambda>_. Inr (oc_scopes c))) (\<lambda>scopes.
     rbind (ensure (length scopes \<le> 32 \<and> list_all oauth_scope scopes) E_Metadata) (\<lambda>_.
     Inr scopes))"

definition oauth_discover :: "oauth_lib \<Rightarrow> oauth_net \<Rightarrow> oauth_config \<Rightarrow> string \<Rightarrow> oauth_discovery oauth" where
  "oauth_discover L N c endpoint =
     sbind (slift (config_bind L c endpoint)) (\<lambda>_.
     sbind (in_time (on_overdue N) (control_request L N c endpoint None True)) (\<lambda>probe.
     sbind (slift (if rs_status probe = 401
                   then challenge_bearer (case rs_challenge probe of None \<Rightarrow> ''Bearer'' | Some t \<Rightarrow> t) else Inr [])) (\<lambda>challenge.
     sbind (slift (case map_of challenge ''resource_metadata'' of Some l \<Rightarrow> Inr [l] | None \<Rightarrow> well_known L endpoint True)) (\<lambda>locations.
     sbind (oauth_document L N c (ol_resource L) locations) (\<lambda>resource.
     sbind (slift (resource_checked L c endpoint resource)) (\<lambda>_.
     sbind (slift (well_known L (oc_issuer c) False)) (\<lambda>places.
     sbind (oauth_document L N c (ol_server L) places) (\<lambda>server.
     sbind (slift (server_checked L c server)) (\<lambda>_.
     sbind (slift (discovered_scopes c
              (case map_of challenge ''scope'' of
                 Some v \<Rightarrow> split_at_byte (CHR '' '') v
               | None \<Rightarrow> (case rd_scopes resource of None \<Rightarrow> [] | Some ss \<Rightarrow> ss)))) (\<lambda>scopes.
     sreturn \<lparr>di_issuer = sd_issuer server, di_authorization = sd_authorization server, di_token = sd_token server,
       di_scopes = scopes, di_require_issuer = sd_response_issuer server\<rparr>))))))))))"

section \<open>A binding and its files\<close>

lemma framed_field_inject:
  assumes "length a < 2 ^ 64" "length b < 2 ^ 64"
  shows "framed_field a @ s = framed_field b @ t \<longleftrightarrow> a = b \<and> s = t"
proof
  assume eq: "framed_field a @ s = framed_field b @ t"
  then have "to_be_bytes 8 (length a) = to_be_bytes 8 (length b) \<and> a @ s = b @ t"
    unfolding framed_field_def append_assoc by (subst (asm) append_eq_append_conv) (auto simp: length_to_be_bytes)
  moreover from this have "length a mod 256 ^ 8 = length b mod 256 ^ 8"
    using from_to_be_bytes by metis
  ultimately show "a = b \<and> s = t"
    using assms by simp
qed auto

lemma hex_text_inject: "concat (map hex2 a) = concat (map hex2 b) \<Longrightarrow> a = b"
  by (metis Id_text_def id_pairs_text)

definition binding_sized :: "oauth_binding \<Rightarrow> bool" where
  "binding_sized b \<longleftrightarrow> length (ob_endpoint b) < 2 ^ 64 \<and> length (ob_resource b) < 2 ^ 64 \<and> length (ob_issuer b) < 2 ^ 64
     \<and> length (ob_client_id b) < 2 ^ 64"

text \<open>
  C23: Two bindings keep their credentials under the same name only if they agree in endpoint, resource,
  issuer and client, unless SHA-256 collides on them: no field can run into its neighbour.
\<close>

theorem binding_key_separates:
  assumes "binding_sized a" "binding_sized b"
    and "ol_sha256 L (binding_bytes a) = ol_sha256 L (binding_bytes b) \<Longrightarrow> binding_bytes a = binding_bytes b"
  shows "binding_key L a = binding_key L b \<longleftrightarrow> a = b"
proof
  assume "binding_key L a = binding_key L b"
  then have "binding_bytes a = binding_bytes b"
    using assms(3) hex_text_inject by (auto simp: binding_key_def)
  then have "ob_endpoint a = ob_endpoint b \<and> ob_resource a = ob_resource b \<and> ob_issuer a = ob_issuer b \<and> ob_client_id a = ob_client_id b"
    using assms(1,2) framed_field_inject [of "ob_client_id a" "ob_client_id b" "[]" "[]"]
    by (simp add: binding_bytes_def binding_sized_def framed_field_inject)
  then show "a = b"
    by simp
qed simp

section \<open>The callback is bound to its login\<close>

lemma different_zero: "length a = length b \<Longrightarrow> different a b = 0 \<longleftrightarrow> a = b"
proof -
  have "fold (\<lambda>(x, y) d. d OR (code x XOR code y)) (zip a b) n = 0 \<longleftrightarrow> n = 0 \<and> a = b" if "length a = length b" for n
    using that by (induction a b arbitrary: n rule: list_induct2) (auto simp: xor_zero or_zero)
  then show "length a = length b \<Longrightarrow> different a b = 0 \<longleftrightarrow> a = b"
    by (simp add: different_def)
qed

lemma oauth_equal_iff: "oauth_equal a b \<longleftrightarrow> a = b"
  by (auto simp: oauth_equal_def different_zero)

lemma callback_parameters_ok:
  assumes "callback_parameters got qs = Inr ps"
  shows "distinct (map fst qs) \<and> (\<forall>q \<in> set qs. map_of got (fst q) = None)
    \<and> (\<forall>k. map_of ps k = (case map_of qs k of Some v \<Rightarrow> Some v | None \<Rightarrow> map_of got k))"
  using assms
proof (induction got qs rule: callback_parameters.induct)
  case (2 got name v rest)
  then have new: "map_of got name = None" and run: "callback_parameters (btree_insert name v got) rest = Inr ps"
    by (auto split: if_splits)
  have IH: "distinct (map fst rest)" "\<forall>q \<in> set rest. map_of (btree_insert name v got) (fst q) = None"
    "\<And>k. map_of ps k = (case map_of rest k of Some v \<Rightarrow> Some v | None \<Rightarrow> map_of (btree_insert name v got) k)"
    using "2.IH" [OF _ run] "2.prems" by (auto split: if_splits)
  have other: "fst q \<noteq> name \<and> map_of got (fst q) = None" if "q \<in> set rest" for q
    using IH(2) that by (auto simp: map_of_btree_insert split: if_splits)
  have "map_of rest name = None"
    using other by (auto simp: map_of_eq_None_iff)
  then have "map_of ps k = (case map_of ((name, v) # rest) k of Some v \<Rightarrow> Some v | None \<Rightarrow> map_of got k)" for k
    unfolding IH(3) map_of_btree_insert by (simp split: option.split)
  then show ?case
    using IH(1) other new by auto
qed simp

fun hosts_named :: "string list \<Rightarrow> string list" where
  "hosts_named [] = []"
| "hosts_named (line # rest) =
     (if line = [] then []
      else case split_once (CHR '':'') line of
        Some (name, v) \<Rightarrow> (if eq_ignore_ascii_case name ''host'' then [str_trim v] else []) @ hosts_named rest
      | None \<Rightarrow> hosts_named rest)"

lemma callback_headers_ok:
  "callback_headers host ls = Inr h \<Longrightarrow>
     (case host of None \<Rightarrow> (case h of None \<Rightarrow> hosts_named ls = [] | Some x \<Rightarrow> hosts_named ls = [x])
      | Some x \<Rightarrow> h = Some x \<and> hosts_named ls = [])"
proof (induction host ls rule: callback_headers.induct)
  case (2 host line rest)
  show ?case
  proof (cases "line = []")
    case False
    then obtain name v where nv: "split_once (CHR '':'') line = Some (name, v)"
      using "2.prems" by (cases "split_once (CHR '':'') line") auto
    then show ?thesis
      using "2.IH" [OF False refl refl, of name v] "2.prems" False
      by (auto simp: Let_def split: if_splits option.splits)
  qed (use "2.prems" in \<open>auto split: option.splits\<close>)
qed (auto split: option.splits)

lemma callback_parse_ok:
  assumes "callback_parse L host body expected d = Inr c"
  shows "\<exists>target u. request_path (hd (split_crlf body)) = Inr target \<and> hosts_named (tl (split_crlf body)) = [host]
    \<and> ol_parse L (''http://'' @ host @ target) = Some u \<and> u_path u = ''/oauth/callback''
    \<and> distinct (map fst (ol_pairs L u)) \<and> map_of (ol_pairs L u) ''state'' = Some expected
    \<and> (map_of (ol_pairs L u) ''iss'' = Some (di_issuer d) \<or> (map_of (ol_pairs L u) ''iss'' = None \<and> \<not> di_require_issuer d))
    \<and> map_of (ol_pairs L u) ''error'' = None \<and> map_of (ol_pairs L u) ''code'' = Some c \<and> code_ok c"
proof -
  obtain target u ps where line: "request_path (hd (split_crlf body)) = Inr target"
    and named: "callback_headers None (tl (split_crlf body)) = Inr (Some host)"
    and u: "ol_parse L (''http://'' @ host @ target) = Some u" "u_path u = ''/oauth/callback''"
    and ps: "callback_parameters [] (ol_pairs L u) = Inr ps" and ans: "callback_answer ps expected d = Inr c"
    using assms unfolding callback_parse_def Let_def rbind_eq_Inr by auto
  note pairs = callback_parameters_ok [OF ps]
  have same: "map_of ps k = map_of (ol_pairs L u) k" for k
    using pairs by (simp split: option.splits)
  have "map_of ps ''state'' = Some expected \<and> (map_of ps ''iss'' = Some (di_issuer d) \<or> (map_of ps ''iss'' = None \<and> \<not> di_require_issuer d))
      \<and> map_of ps ''error'' = None \<and> map_of ps ''code'' = Some c \<and> code_ok c"
    using ans unfolding callback_answer_def rbind_eq_Inr by (auto simp: oauth_equal_iff split: option.splits)
  then show ?thesis
    using line callback_headers_ok [OF named] u pairs unfolding same by auto
qed

lemma request_read_ok:
  "request_read got incoming = Inr body \<Longrightarrow> length got \<le> 8192 \<Longrightarrow>
     prefix body (got @ incoming) \<and> length body \<le> 8192 \<and> suffix (CRLF @ CRLF) body"
proof (induction got incoming rule: request_read.induct)
  case (1 got incoming)
  show ?case
  proof (cases "suffix (CRLF @ CRLF) got")
    case False
    then obtain b bs where more: "incoming = b # bs" "length got < 8192" "request_read (got @ [b]) bs = Inr body"
      using "1.prems" by (auto split: if_splits list.splits)
    then show ?thesis
      using "1.IH" [OF False _ more(1)] by auto
  qed (use "1.prems" in auto)
qed

text \<open>
  C8: A callback yields a code only if a loopback peer sent, in at most 8192 bytes, a request for the
  callback path on this listener's own host, named exactly once, with each parameter once, carrying the
  very state of this login, and the issuer this login discovered where an issuer is named or required.
  Then the code is the parameter's, and the peer was told so.
\<close>

theorem callback_bound:
  assumes "callback_receive L host peer expected d = (Inr c, reply)"
  shows "\<exists>ip body target u. cp_address peer = Some ip \<and> is_loopback ip \<and> prefix body (cp_bytes peer) \<and> length body \<le> 8192
    \<and> reply = Some (callback_reply True)
    \<and> request_path (hd (split_crlf body)) = Inr target \<and> hosts_named (tl (split_crlf body)) = [host]
    \<and> ol_parse L (''http://'' @ host @ target) = Some u \<and> u_path u = ''/oauth/callback''
    \<and> distinct (map fst (ol_pairs L u)) \<and> map_of (ol_pairs L u) ''state'' = Some expected
    \<and> (map_of (ol_pairs L u) ''iss'' = Some (di_issuer d) \<or> (map_of (ol_pairs L u) ''iss'' = None \<and> \<not> di_require_issuer d))
    \<and> map_of (ol_pairs L u) ''error'' = None \<and> map_of (ol_pairs L u) ''code'' = Some c \<and> code_ok c"
proof -
  obtain ip body where ip: "cp_address peer = Some ip" "is_loopback ip" and body: "request_read [] (cp_bytes peer) = Inr body"
    and ran: "callback_parse L host body expected d = Inr c" and reply: "reply = Some (callback_reply True)"
    using assms unfolding callback_receive_def Let_def
    by (auto simp: rbind_eq_Inr split: sum.splits if_splits)
  show ?thesis
    using ip request_read_ok [OF body] reply callback_parse_ok [OF ran] by auto
qed

section \<open>What a login asks for\<close>

definition login_pairs :: "oauth_lib \<Rightarrow> oauth_proof \<Rightarrow> oauth_config \<Rightarrow> oauth_discovery \<Rightarrow> string \<Rightarrow> string \<Rightarrow> (string \<times> string) list" where
  "login_pairs L p c d redirect resource =
     [(''client_id'', oc_client_id c), (''response_type'', ''code''), (''redirect_uri'', redirect), (''state'', pf_state p),
      (''resource'', resource), (''code_challenge'', ol_base64 L (ol_sha256 L (pf_verifier p))), (''code_challenge_method'', ''S256'')]
     @ (if di_scopes d = [] then [] else [(''scope'', spaced (di_scopes d))])"

text \<open>
  C18: The address a person is sent to is the discovered endpoint, one the configuration permits, and says
  each thing a login says exactly once and as this login means it: nothing the server's metadata put
  into the endpoint's query can stand in for the client, the state, the redirect or the challenge.
\<close>

theorem authorization_exact:
  assumes "\<And>u ps. ol_pairs L (ol_append L u ps) = ol_pairs L u @ ps"
    and "proof_authorization L p c d redirect = Inr u"
  shows "\<exists>base r. config_permits L c (di_authorization d) = Inr base \<and> config_permits L c (oc_resource c) = Inr r
    \<and> ol_pairs L u = ol_pairs L base @ login_pairs L p c d redirect (u_text r)
    \<and> filter (\<lambda>q. fst q \<in> set RESERVED) (ol_pairs L u) = login_pairs L p c d redirect (u_text r)"
proof -
  obtain base r where base: "config_permits L c (di_authorization d) = Inr base" "config_permits L c (oc_resource c) = Inr r"
    and free: "\<not> list_ex (\<lambda>(name, _). name \<in> set RESERVED) (ol_pairs L base)"
    and u: "u = (let u1 = ol_append L base
           [(''client_id'', oc_client_id c), (''response_type'', ''code''), (''redirect_uri'', redirect), (''state'', pf_state p),
            (''resource'', u_text r), (''code_challenge'', proof_challenge L p), (''code_challenge_method'', ''S256'')]
         in if di_scopes d = [] then u1 else ol_append L u1 [(''scope'', spaced (di_scopes d))])"
    using assms(2) unfolding proof_authorization_def Let_def rbind_eq_Inr by auto
  have pairs: "ol_pairs L u = ol_pairs L base @ login_pairs L p c d redirect (u_text r)"
    unfolding u login_pairs_def proof_challenge_def Let_def by (simp add: assms(1))
  have "filter (\<lambda>q. fst q \<in> set RESERVED) (ol_pairs L base) = []"
    using free by (auto simp: filter_empty_conv list_ex_iff split: prod.splits)
  moreover have "filter (\<lambda>q. fst q \<in> set RESERVED) (login_pairs L p c d redirect (u_text r)) = login_pairs L p c d redirect (u_text r)"
    by (simp add: login_pairs_def RESERVED_def)
  ultimately have "filter (\<lambda>q. fst q \<in> set RESERVED) (ol_pairs L u) = login_pairs L p c d redirect (u_text r)"
    unfolding pairs by simp
  then show ?thesis
    using base pairs by blast
qed

section \<open>Where requests go\<close>

text \<open>The destinations a configuration allows, read off its fields.\<close>

definition destination_ok :: "oauth_lib \<Rightarrow> oauth_config \<Rightarrow> url \<Rightarrow> bool" where
  "destination_ok L c u \<longleftrightarrow>
     u_user u = [] \<and> u_password u = None \<and> u_fragment u = None
     \<and> (u_scheme u = ''https'' \<or> ((\<exists>h ip. u_host u = Some h \<and> ol_ip L (trim_brackets h) = Some ip \<and> is_loopback ip) \<and> config_private L c u))
     \<and> ((\<exists>i. oauth_uri L (oc_issuer c) = Inr i \<and> u_origin i = u_origin u)
        \<or> (\<exists>r. oauth_uri L (oc_resource c) = Inr r \<and> u_origin r = u_origin u)
        \<or> (\<exists>item \<in> set (oc_origins c). oauth_origin L item = Inr (ol_ascii L (u_origin u))))"

definition request_ok :: "oauth_lib \<Rightarrow> oauth_config \<Rightarrow> oauth_request \<Rightarrow> bool" where
  "request_ok L c q \<longleftrightarrow> destination_ok L c (rq_url q)
     \<and> (config_private L c (rq_url q) \<or> (\<forall>ip \<in> set (rq_addresses q). public_address ip))"

lemma config_permits_ok:
  assumes "config_permits L c v = Inr u"
  shows "destination_ok L c u"
proof -
  obtain i allowed where u: "oauth_uri L v = Inr u" and sec: "config_secure L c u = Inr ()" and i: "oauth_uri L (oc_issuer c) = Inr i"
    and allowed: "(if u_origin i = u_origin u then Inr True
            else rbind (oauth_uri L (oc_resource c)) (\<lambda>r.
                 Inr (u_origin r = u_origin u
                    \<or> list_ex (\<lambda>item. oauth_origin L item = Inr (ol_ascii L (u_origin u))) (oc_origins c)))) = Inr allowed" "allowed"
    using assms unfolding config_permits_def rbind_eq_Inr by auto
  have "u_user u = [] \<and> u_password u = None \<and> u_fragment u = None"
    using u unfolding oauth_uri_def rbind_eq_Inr by auto
  moreover have "u_scheme u = ''https'' \<or> ((\<exists>h ip. u_host u = Some h \<and> ol_ip L (trim_brackets h) = Some ip \<and> is_loopback ip) \<and> config_private L c u)"
    using sec by (auto simp: config_secure_def Let_def Option.bind_eq_Some_conv split: option.splits)
  moreover have "(\<exists>i. oauth_uri L (oc_issuer c) = Inr i \<and> u_origin i = u_origin u)
      \<or> (\<exists>r. oauth_uri L (oc_resource c) = Inr r \<and> u_origin r = u_origin u)
      \<or> (\<exists>item \<in> set (oc_origins c). oauth_origin L item = Inr (ol_ascii L (u_origin u)))"
    using allowed i by (auto simp: rbind_eq_Inr list_ex_iff split: if_splits)
  ultimately show ?thesis
    by (simp add: destination_ok_def)
qed

text \<open>Programs that send only requests of a kind.\<close>

definition sends :: "(oauth_request \<Rightarrow> bool) \<Rightarrow> 'a oauth \<Rightarrow> bool" where
  "sends P m \<longleftrightarrow> (\<forall>log. \<exists>new. snd (m log) = log @ new \<and> list_all P new)"

named_theorems sends_intros \<open>what a composed program sends\<close>

lemma sendsD: "sends P m \<Longrightarrow> m log = (r, log') \<Longrightarrow> \<exists>new. log' = log @ new \<and> list_all P new"
  unfolding sends_def by (metis snd_conv)

lemma sends_silent [sends_intros]: "sends P (slift r)" "sends P (sreturn a)" "sends P (sfail e)" "sends P (scheck b e)"
  "sends P (\<lambda>log. (g log, log))"
  by (simp_all add: sends_def slift_def sreturn_def sfail_def scheck_def)

lemma sends_bind:
  assumes "sends P m" "\<And>a log log'. m log = (Inr a, log') \<Longrightarrow> sends P (f a)"
  shows "sends P (sbind m f)"
  unfolding sends_def
proof
  fix log
  obtain r log1 where run: "m log = (r, log1)"
    by fastforce
  obtain new where new: "log1 = log @ new" "list_all P new"
    using sendsD [OF assms(1) run] by blast
  show "\<exists>new. snd (sbind m f log) = log @ new \<and> list_all P new"
  proof (cases r)
    case (Inr a)
    obtain more where "snd (f a log1) = log1 @ more" "list_all P more"
      using assms(2) [OF run [unfolded Inr]] unfolding sends_def by blast
    then show ?thesis
      using run Inr new by (auto simp: sbind_def)
  qed (use run new in \<open>auto simp: sbind_def\<close>)
qed

lemma sends_in_time [sends_intros]: "sends P m \<Longrightarrow> sends P (in_time overdue m)"
  unfolding sends_def in_time_def by (auto simp: case_prod_beta)

lemma in_time_ok: "in_time overdue m log = (Inr a, log') \<Longrightarrow> m log = (Inr a, log')"
  by (auto simp: in_time_def split: if_splits prod.splits)

lemma control_client_ok:
  assumes "control_client L N c target log = (Inr (u, addresses), log')"
  shows "config_permits L c target = Inr u \<and> (config_private L c u \<or> (\<forall>ip \<in> set addresses. public_address ip))"
  using in_time_ok [OF assms [unfolded control_client_def]] unfolding sbind_ok Let_def slift_ok scheck_ok sreturn_ok
  by (auto simp: list_all_iff)

lemma sends_client: "sends P (control_client L N c target)"
  unfolding control_client_def Let_def by (intro sends_bind sends_in_time sends_intros)

lemma sends_exchange:
  assumes "\<And>u addresses. config_permits L c target = Inr u \<Longrightarrow> (config_private L c u \<or> (\<forall>ip \<in> set addresses. public_address ip))
    \<Longrightarrow> P \<lparr>rq_url = u, rq_addresses = addresses, rq_form = form\<rparr>"
  shows "sends P (control_exchange L N c target form probe)"
  unfolding control_exchange_def
proof (rule sends_bind [OF sends_client])
  fix x log log'
  assume run: "control_client L N c target log = (Inr x, log')"
  obtain u addresses where x: "x = (u, addresses)"
    by fastforce
  have "P \<lparr>rq_url = u, rq_addresses = addresses, rq_form = form\<rparr>"
    using assms control_client_ok [OF run [unfolded x]] by blast
  then have "sends P (control_send N u addresses form)"
    by (simp add: sends_def control_send_def Let_def)
  then show "sends P (case x of (u, addresses) \<Rightarrow>
      sbind (scheck (case form of None \<Rightarrow> True | Some f \<Rightarrow> length (ol_form L f) \<le> CONTROL_LIMIT) E_Credential) (\<lambda>_.
      sbind (control_send N u addresses form) (\<lambda>r. slift (control_reply probe r))))"
    unfolding x by (auto intro!: sends_bind sends_intros)
qed

lemma sends_request:
  assumes "\<And>u addresses. config_permits L c target = Inr u \<Longrightarrow> (config_private L c u \<or> (\<forall>ip \<in> set addresses. public_address ip))
    \<Longrightarrow> P \<lparr>rq_url = u, rq_addresses = addresses, rq_form = form\<rparr>"
  shows "sends P (control_request L N c target form probe)"
proof -
  have "sends P (control_exchange L N c target form probe)"
    by (rule sends_exchange) (rule assms)
  then show ?thesis
    unfolding sends_def control_request_def stry_def by (simp add: case_prod_beta)
qed

definition probing :: "oauth_lib \<Rightarrow> oauth_config \<Rightarrow> oauth_request \<Rightarrow> bool" where
  "probing L c q \<longleftrightarrow> request_ok L c q \<and> rq_form q = None"

lemma sends_probe [sends_intros]: "sends (probing L c) (control_request L N c target None probe)"
  by (rule sends_request) (auto simp: probing_def request_ok_def config_permits_ok)

lemma sends_document [sends_intros]: "sends (probing L c) (oauth_document L N c read places)"
  by (induction places) (auto intro!: sends_bind sends_intros)

lemma sends_discover: "sends (probing L c) (oauth_discover L N c endpoint)"
  unfolding oauth_discover_def by (intro sends_bind sends_intros)

lemma resource_checked_ok: "resource_checked L c endpoint d = Inr u \<Longrightarrow> oc_issuer c \<in> set (rd_servers d)"
  unfolding resource_checked_def rbind_eq_Inr by auto

lemma server_checked_ok:
  assumes "server_checked L c d = Inr u"
  shows "sd_issuer d = oc_issuer c \<and> ''S256'' \<in> set (sd_challenge_methods d)
    \<and> (\<exists>a t. config_permits L c (sd_authorization d) = Inr a \<and> config_permits L c (sd_token d) = Inr t)"
  using assms unfolding server_checked_def rbind_eq_Inr by auto

lemma discovered_scopes_ok:
  assumes "discovered_scopes c requested = Inr scopes"
  shows "length scopes \<le> 32 \<and> list_all oauth_scope scopes \<and> (oc_scopes c \<noteq> [] \<longrightarrow> scopes = oc_scopes c)"
  using assms unfolding discovered_scopes_def rbind_eq_Inr by (auto simp: rbind_eq_Inr split: if_splits)

text \<open>
  C9: Discovery sends no form and asks only destinations the configuration names, over HTTPS or a named
  loopback origin, at public addresses unless the origin is named private.  What it comes back with is
  bound to the configuration: its issuer, endpoints it permits, and its scopes where it names any.
\<close>

theorem discovery_bound:
  assumes "oauth_discover L N c endpoint log = (r, log')"
  shows "(\<exists>new. log' = log @ new \<and> (\<forall>q \<in> set new. request_ok L c q \<and> rq_form q = None))
    \<and> (\<forall>d. r = Inr d \<longrightarrow> di_issuer d = oc_issuer c
        \<and> (\<exists>a t. config_permits L c (di_authorization d) = Inr a \<and> config_permits L c (di_token d) = Inr t
             \<and> destination_ok L c a \<and> destination_ok L c t)
        \<and> list_all oauth_scope (di_scopes d) \<and> (oc_scopes c \<noteq> [] \<longrightarrow> di_scopes d = oc_scopes c))"
proof -
  have "\<exists>new. log' = log @ new \<and> (\<forall>q \<in> set new. request_ok L c q \<and> rq_form q = None)"
    using sendsD [OF sends_discover assms] by (auto simp: probing_def list_all_iff)
  moreover have "di_issuer d = oc_issuer c
        \<and> (\<exists>a t. config_permits L c (di_authorization d) = Inr a \<and> config_permits L c (di_token d) = Inr t
             \<and> destination_ok L c a \<and> destination_ok L c t)
        \<and> list_all oauth_scope (di_scopes d) \<and> (oc_scopes c \<noteq> [] \<longrightarrow> di_scopes d = oc_scopes c)" if ok: "r = Inr d" for d
  proof -
    obtain server w scopes requested where "server_checked L c server = Inr w" "discovered_scopes c requested = Inr scopes"
      "d = \<lparr>di_issuer = sd_issuer server, di_authorization = sd_authorization server, di_token = sd_token server,
         di_scopes = scopes, di_require_issuer = sd_response_issuer server\<rparr>"
      using assms [unfolded ok oauth_discover_def] by (simp only: sbind_ok slift_ok sreturn_ok) blast
    then show ?thesis
      using server_checked_ok discovered_scopes_ok config_permits_ok by fastforce
  qed
  ultimately show ?thesis
    by blast
qed

section \<open>Each theorem at a concrete login\<close>

definition site_url :: "string \<Rightarrow> url" where
  "site_url s = \<lparr>u_text = s, u_scheme = ''https'', u_host = Some ''a'', u_user = [], u_password = None, u_fragment = None,
     u_path = (if prefix ''http:'' s then ''/oauth/callback'' else ''/''), u_query = None, u_origin = (''https'', ''a'', 443), u_port = Some 443\<rparr>"

definition site_resource :: resource_document where
  "site_resource = \<lparr>rd_resource = ''https://a/'', rd_servers = [''https://a/''], rd_scopes = Some [''x''], rd_methods = None\<rparr>"

definition site_server :: server_document where
  "site_server = \<lparr>sd_issuer = ''https://a/'', sd_authorization = ''https://a/auth'', sd_token = ''https://a/token'',
     sd_challenge_methods = [''S256''], sd_response_types = [''code''], sd_grants = None, sd_auth_methods = None,
     sd_response_issuer = False, sd_client_documents = False\<rparr>"

definition site_lib :: "(url \<Rightarrow> (string \<times> string) list) \<Rightarrow> (url \<Rightarrow> (string \<times> string) list \<Rightarrow> url) \<Rightarrow> oauth_lib" where
  "site_lib pairs_of append_to = \<lparr>ol_parse = (\<lambda>s. Some (site_url s)), ol_ascii = (\<lambda>_. ''https://a''), ol_ip = (\<lambda>_. None),
     ol_pairs = pairs_of, ol_append = append_to, ol_sha256 = (\<lambda>b. b), ol_base64 = (\<lambda>b. b), ol_form = (\<lambda>_. []),
     ol_reply = (\<lambda>_. None), ol_resource = (\<lambda>_. Some site_resource), ol_server = (\<lambda>_. Some site_server)\<rparr>"

definition site_config :: oauth_config where
  "site_config = \<lparr>oc_issuer = ''https://a/'', oc_resource = ''https://a/'', oc_client_id = ''me'', oc_scopes = [], oc_origins = [],
     oc_private_origins = [], oc_callback_port = 0, oc_timeout_secs = 30\<rparr>"

definition site_net :: oauth_net where
  "site_net = \<lparr>on_allowed = True, on_lookup = (\<lambda>_ _ _. Some [V4 8 8 8 8]), on_client = (\<lambda>_. True),
     on_send = (\<lambda>log. Some \<lparr>hr_status = 200, hr_challenges = [], hr_encoded = False, hr_length = None, hr_chunks = []\<rparr>),
     on_stalled = (\<lambda>_. False), on_late = (\<lambda>_. False), on_overdue = (\<lambda>_. False)\<rparr>"

definition site_discovery :: oauth_discovery where
  "site_discovery = \<lparr>di_issuer = ''https://a/'', di_authorization = ''https://a/auth'', di_token = ''https://a/token'',
     di_scopes = [''x''], di_require_issuer = False\<rparr>"

lemma site_uri: "length s \<le> 4096 \<and> list_all bare s \<Longrightarrow> oauth_uri (site_lib f g) s = Inr (site_url s)"
  by (simp add: oauth_uri_def site_lib_def site_url_def)

lemma site_permits: "length s \<le> 4096 \<and> list_all bare s \<Longrightarrow> config_permits (site_lib f g) site_config s = Inr (site_url s)"
  by (simp add: config_permits_def site_uri config_secure_def Let_def site_config_def bare_def code_def site_url_def)

lemma site_bind: "\<exists>b. config_bind (site_lib f g) site_config ''https://a/'' = Inr b \<and> ob_resource b = ''https://a/''"
  by (simp add: config_bind_def site_uri site_config_def bare_def code_def client_ok_def site_url_def config_secure_def)

lemma site_request:
  "length s \<le> 4096 \<and> list_all bare s \<Longrightarrow> control_request (site_lib f g) site_net site_config s None probe log =
     (Inr \<lparr>rs_status = 200, rs_challenge = None, rs_body = []\<rparr>, log @ [\<lparr>rq_url = site_url s, rq_addresses = [V4 8 8 8 8], rq_form = None\<rparr>])"
  by (simp add: control_request_def control_exchange_def control_client_def site_permits sbind_def stry_def slift_def scheck_def
      sreturn_def control_send_def control_reply_def Let_def in_time_def site_net_def site_url_def public_address_def public4_def)

lemma site_places:
  "well_known (site_lib f g) ''https://a/'' True = Inr [''https://a/.well-known/oauth-protected-resource'']"
  "well_known (site_lib f g) ''https://a/'' False =
     Inr [''https://a/.well-known/oauth-authorization-server'', ''https://a/.well-known/openid-configuration'']"
  by (simp_all add: well_known_def site_lib_def site_url_def)

lemma site_checked:
  "resource_checked (site_lib f g) site_config ''https://a/'' site_resource = Inr ()"
  "server_checked (site_lib f g) site_config site_server = Inr ()"
  "discovered_scopes site_config [''x''] = Inr [''x'']"
proof -
  obtain b where "config_bind (site_lib f g) site_config ''https://a/'' = Inr b" "ob_resource b = ''https://a/''"
    using site_bind by blast
  then show "resource_checked (site_lib f g) site_config ''https://a/'' site_resource = Inr ()"
    by (simp add: resource_checked_def site_permits bare_def code_def site_url_def names_any_def site_resource_def)
       (simp add: site_config_def)
  show "server_checked (site_lib f g) site_config site_server = Inr ()"
    by (simp add: server_checked_def site_permits bare_def code_def names_any_def site_server_def) (simp add: site_config_def)
  show "discovered_scopes site_config [''x''] = Inr [''x'']"
    by (simp add: discovered_scopes_def site_config_def oauth_scope_def code_def)
qed

lemma site_patient: "on_overdue site_net log = False"
  by (simp add: site_net_def)

lemma site_discover:
  "\<exists>new. oauth_discover (site_lib f g) site_net site_config ''https://a/'' [] = (Inr site_discovery, new) \<and> length new = 3"
proof -
  have lib: "ol_resource (site_lib f g) b = Some site_resource" "ol_server (site_lib f g) b = Some site_server" for b
    by (simp_all add: site_lib_def)
  have given: "oc_issuer site_config = ''https://a/''" "rd_scopes site_resource = Some [''x'']"
    by (simp_all add: site_config_def site_resource_def)
  obtain b where "config_bind (site_lib f g) site_config ''https://a/'' = Inr b"
    using site_bind by blast
  then show ?thesis
    by (simp add: oauth_discover_def sbind_def slift_def scheck_def sreturn_def site_request site_places site_checked lib given bare_def code_def in_time_def site_patient)
       (simp add: site_server_def site_discovery_def)
qed

theorem discovery_bound_witness:
  "list_all (request_ok (site_lib (\<lambda>_. []) (\<lambda>u _. u)) site_config)
      (snd (oauth_discover (site_lib (\<lambda>_. []) (\<lambda>u _. u)) site_net site_config ''https://a/'' []))
   \<and> length (snd (oauth_discover (site_lib (\<lambda>_. []) (\<lambda>u _. u)) site_net site_config ''https://a/'' [])) = 3
   \<and> fst (oauth_discover (site_lib (\<lambda>_. []) (\<lambda>u _. u)) site_net site_config ''https://a/'' []) = Inr site_discovery
   \<and> di_issuer site_discovery = oc_issuer site_config"
proof -
  obtain new where run: "oauth_discover (site_lib (\<lambda>_. []) (\<lambda>u _. u)) site_net site_config ''https://a/'' [] = (Inr site_discovery, new)"
    and n: "length new = 3"
    using site_discover by blast
  show ?thesis
    using discovery_bound [OF run] n by (simp add: run list_all_iff)
qed

text \<open>A URL's query that keeps its pairs as the number of its characters.\<close>

definition site_pairs :: "url \<Rightarrow> (string \<times> string) list" where
  "site_pairs u = (case u_query u of None \<Rightarrow> [] | Some q \<Rightarrow> from_nat (length q))"

definition site_append :: "url \<Rightarrow> (string \<times> string) list \<Rightarrow> url" where
  "site_append u ps = u\<lparr>u_query := Some (replicate (to_nat (site_pairs u @ ps)) (CHR ''x''))\<rparr>"

lemma site_query: "ol_pairs (site_lib site_pairs site_append) (ol_append (site_lib site_pairs site_append) u ps)
    = ol_pairs (site_lib site_pairs site_append) u @ ps"
  by (simp add: site_lib_def site_append_def site_pairs_def)

lemma site_authorization:
  "\<exists>u. proof_authorization (site_lib site_pairs site_append) \<lparr>pf_state = ''s'', pf_verifier = ''v''\<rparr> site_config site_discovery ''r'' = Inr u"
proof -
  have "oc_resource site_config = ''https://a/''"
    by (simp add: site_config_def)
  then show ?thesis
    by (simp add: proof_authorization_def site_permits bare_def code_def site_discovery_def Let_def)
       (simp add: site_lib_def site_append_def site_pairs_def site_url_def)
qed

theorem authorization_exact_witness:
  "\<exists>u. proof_authorization (site_lib site_pairs site_append) \<lparr>pf_state = ''s'', pf_verifier = ''v''\<rparr> site_config site_discovery ''r'' = Inr u
     \<and> map_of (ol_pairs (site_lib site_pairs site_append) u) ''state'' = Some ''s''
     \<and> map_of (ol_pairs (site_lib site_pairs site_append) u) ''redirect_uri'' = Some ''r''"
  (is "\<exists>u. ?run = Inr u \<and> _ u")
proof -
  obtain u where run: "?run = Inr u"
    using site_authorization by blast
  show ?thesis
    using authorization_exact [OF site_query run] run
    by (auto simp: login_pairs_def site_permits bare_def code_def site_discovery_def)
       (simp_all add: site_lib_def site_pairs_def site_url_def)
qed

theorem binding_key_separates_witness:
  "binding_key (site_lib (\<lambda>_. []) (\<lambda>u _. u)) \<lparr>ob_endpoint = ''ab'', ob_resource = ''c'', ob_issuer = ''d'', ob_client_id = ''e''\<rparr>
   \<noteq> binding_key (site_lib (\<lambda>_. []) (\<lambda>u _. u)) \<lparr>ob_endpoint = ''a'', ob_resource = ''bc'', ob_issuer = ''d'', ob_client_id = ''e''\<rparr>"
proof -
  let ?a = "\<lparr>ob_endpoint = ''ab'', ob_resource = ''c'', ob_issuer = ''d'', ob_client_id = ''e''\<rparr>"
  let ?b = "\<lparr>ob_endpoint = ''a'', ob_resource = ''bc'', ob_issuer = ''d'', ob_client_id = ''e''\<rparr>"
  show ?thesis
    using binding_key_separates [of ?a ?b "site_lib (\<lambda>_. []) (\<lambda>u _. u)"] by (simp add: binding_sized_def site_lib_def)
qed

definition site_callback :: bytes where
  "site_callback = ''GET /oauth/callback?q HTTP/1.1'' @ CRLF @ ''Host: a:1'' @ CRLF @ CRLF"

definition site_peer :: callback_peer where
  "site_peer = \<lparr>cp_address = Some (V4 127 0 0 1), cp_bytes = site_callback, cp_late = False, cp_wrote = Some True\<rparr>"

lemma site_callback_parse:
  "callback_parse (site_lib (\<lambda>_. [(''state'', ''s''), (''code'', ''c'')]) (\<lambda>u _. u)) ''a:1'' site_callback ''s'' site_discovery = Inr ''c''"
  by code_simp

lemma site_callback_read: "request_read [] site_callback = Inr site_callback"
  by (simp add: site_callback_def CRLF_def suffix_def)

lemma site_receive:
  "callback_receive (site_lib (\<lambda>_. [(''state'', ''s''), (''code'', ''c'')]) (\<lambda>u _. u)) ''a:1'' site_peer ''s'' site_discovery
     = (Inr ''c'', Some (callback_reply True))"
  by (simp add: callback_receive_def site_peer_def is_loopback_def site_callback_read site_callback_parse del: request_read.simps)

theorem callback_bound_witness:
  "\<exists>body. prefix body site_callback \<and> hosts_named (tl (split_crlf body)) = [''a:1'']
   \<and> callback_receive (site_lib (\<lambda>_. [(''state'', ''s''), (''code'', ''c'')]) (\<lambda>u _. u)) ''a:1'' site_peer ''s'' site_discovery
     = (Inr ''c'', Some (callback_reply True))"
  using callback_bound [OF site_receive] site_receive by (auto simp: site_peer_def)

end
