(* ===== verification/File_Locking.thy ===== *)
theory File_Locking
  imports File_Control
begin

text \<open>
  \<open>src/files/locking.rs\<close> and \<open>src/files/registry.rs\<close>: the registry of lock files and the lease a
  coordinator takes on one.  Waiting is a loop over the clock, run with fuel; under the law that
  time passes while the process sleeps the fuel is proved to be enough.
\<close>

section \<open>Waiting for a lock\<close>

definition MAX_ENTRIES :: nat where "MAX_ENTRIES = 4096"
definition MAX_WAIT :: duration where "MAX_WAIT = 5 * 10 ^ 9"
definition POLL :: duration where "POLL = 10 ^ 7"

text \<open>
  A round sleeps \<open>POLL\<close> or until the deadline, so a wait of at most \<open>MAX_WAIT\<close> takes at most 500
  sleeps and one last attempt.
\<close>

definition LOCK_ROUNDS :: nat where "LOCK_ROUNDS = 501"

definition check_cancelled :: "kernel \<Rightarrow> unit sys" where
  "check_cancelled K w =
     scheck (\<not> k_cancelled K (history w)) (Interrupted, ''file lease cancelled'') w"

definition sleep_for :: "duration \<Rightarrow> unit sys" where
  "sleep_for d w = (Inr (), w\<lparr>history := history w @ [(Sleep d, True)]\<rparr>)"

definition close :: "fd \<Rightarrow> unit sys" where
  "close f w = (Inr (), w\<lparr>history := history w @ [(Close f, True)]\<rparr>)"

definition now_at :: "kernel \<Rightarrow> instant sys" where
  "now_at K w = (Inr (k_now K (history w)), w)"

text \<open>\<open>lock_using\<close>; the answer \<open>False\<close> stands for exhausted fuel.\<close>

primrec lock_rounds :: "kernel \<Rightarrow> fd \<Rightarrow> instant \<Rightarrow> nat \<Rightarrow> bool sys" where
  "lock_rounds K f deadline 0 = sreturn False"
| "lock_rounds K f deadline (Suc n) =
     sbind (check_cancelled K) (\<lambda>_.
     sbind (ask (Flock f) (\<lambda>h. k_flock K h f)) (\<lambda>answer.
     case answer of
       Inr _ \<Rightarrow> sbind (check_cancelled K) (\<lambda>_. sreturn True)
     | Inl e \<Rightarrow>
         if e = WOULDBLOCK \<or> e = INTR then
           sbind (check_cancelled K) (\<lambda>_.
           sbind (now_at K) (\<lambda>t.
           sbind (scheck (t < deadline) (TimedOut, ''file lease wait expired'')) (\<lambda>_.
           sbind (sleep_for (min POLL (deadline - t))) (\<lambda>_.
           lock_rounds K f deadline n))))
         else sfail (errno_error K e)))"

definition out_of_fuel :: error where
  "out_of_fuel = (OtherKind, ''lock rounds exhausted'')"

definition lock :: "kernel \<Rightarrow> fd \<Rightarrow> instant \<Rightarrow> unit sys" where
  "lock K f deadline =
     sbind (lock_rounds K f deadline LOCK_ROUNDS) (\<lambda>taken. scheck taken out_of_fuel)"

section \<open>The registry\<close>

definition hexdigit :: "byte \<Rightarrow> bool" where
  "hexdigit b \<longleftrightarrow> is_ascii_digit b \<or> (97 \<le> code b \<and> code b \<le> 102) \<or> (65 \<le> code b \<and> code b \<le> 70)"

fun count_entries :: "kernel \<Rightarrow> (errno + string) list \<Rightarrow> nat \<Rightarrow> error + unit" where
  "count_entries K [] n = Inr ()"
| "count_entries K (Inl e # es) n = Inl (errno_error K e)"
| "count_entries K (Inr name # es) n =
     (if name = ''.'' \<or> name = ''..'' then count_entries K es n
      else if length name \<noteq> 64 \<or> \<not> list_all hexdigit name
      then Inl (bad_data ''unexpected entry in file lease registry'')
      else if n + 1 \<ge> MAX_ENTRIES then Inl (other_error ''file lease registry capacity reached'')
      else count_entries K es (n + 1))"

definition capacity :: "kernel \<Rightarrow> fd \<Rightarrow> unit sys" where
  "capacity K dir =
     sbind (call K (Read_dir dir) (\<lambda>h. k_read_dir K h dir)) (\<lambda>es. slift (count_entries K es 0))"

definition Registry_from_private :: "kernel \<Rightarrow> fd \<Rightarrow> fd sys" where
  "Registry_from_private K dir =
     sbind (private_object K (private_directory K) dir) (\<lambda>_.
     call K (Open_self dir) (\<lambda>h. k_open_self K h dir))"

definition reserved :: "kernel \<Rightarrow> fd \<Rightarrow> string \<Rightarrow> fd sys" where
  "reserved K dir k =
     sbind (ask (Open_path dir k) (\<lambda>h. k_open_path K h dir k)) (\<lambda>answer.
     case answer of
       Inr pinned \<Rightarrow>
         sbind (private_object K (private_file K) pinned) (\<lambda>_.
         sbind (call K (Open_proc_fd pinned) (\<lambda>h. k_open_proc_fd K h pinned)) (\<lambda>f.
         sbind (sys_fstat K pinned) (\<lambda>expected.
         sbind (sys_fstat K f) (\<lambda>actual.
         sbind (scheck (same_object expected actual)
                  (bad_data ''file lease descriptor binding changed'')) (\<lambda>_.
         sreturn f)))))
     | Inl e \<Rightarrow>
         if e = NOENT then
           sbind (capacity K dir) (\<lambda>_.
           sbind (call K (Open_new dir k) (\<lambda>h. k_open_new K h dir k)) (\<lambda>f.
           sbind (call K (Fchmod f 0x180) (\<lambda>h. k_fchmod K h f 0x180)) (\<lambda>_.
           sbind (private_object K (private_file K) f) (\<lambda>_.
           sreturn f))))
         else sfail (errno_error K e))"

definition checked_lease :: "kernel \<Rightarrow> fd \<Rightarrow> string \<Rightarrow> fd \<Rightarrow> unit sys" where
  "checked_lease K dir k f =
     sbind (private_object K (private_directory K) dir) (\<lambda>_.
     sbind (private_object K (private_file K) f) (\<lambda>_.
     sbind (call K (Statat dir k True) (\<lambda>h. k_statat K h dir k True)) (\<lambda>named.
     sbind (sys_fstat K f) (\<lambda>opened.
     scheck (same_object named opened) (bad_data ''file lease registry binding changed'')))))"

text \<open>\<open>stage\<close>: an error keeps its kind and is told where it happened.\<close>

definition staged_error :: "string \<Rightarrow> error \<Rightarrow> error" where
  "staged_error name e = (fst e, ''file lease '' @ name @ '': '' @ snd e)"

definition in_stage :: "string \<Rightarrow> 'a sys \<Rightarrow> 'a sys" where
  "in_stage name m = stry m (\<lambda>r. slift (map_err (staged_error name) r))"

definition lease_key :: "kernel \<Rightarrow> fd \<Rightarrow> string \<Rightarrow> duration \<Rightarrow> fd sys" where
  "lease_key K dir k wait =
     sbind (scheck (wait \<le> MAX_WAIT) (bad_data ''file lease wait exceeds five seconds'')) (\<lambda>_.
     sbind (now_at K) (\<lambda>t.
     sbind (check_cancelled K) (\<lambda>_.
     sbind (private_object K (private_directory K) dir) (\<lambda>_.
     sbind (call K (Open_self dir) (\<lambda>h. k_open_self K h dir)) (\<lambda>admission.
     sbind (in_stage ''registry admission'' (lock K admission (t + wait))) (\<lambda>_.
     sbind (private_object K (private_directory K) dir) (\<lambda>_.
     sbind (reserved K dir k) (\<lambda>f.
     sbind (close admission) (\<lambda>_.
     sbind (in_stage ''target acquisition'' (lock K f (t + wait))) (\<lambda>_.
     sbind (checked_lease K dir k f) (\<lambda>_.
     sbind (check_cancelled K) (\<lambda>_.
     sreturn f))))))))))))"

definition lease :: "kernel \<Rightarrow> fd \<Rightarrow> binding \<Rightarrow> duration \<Rightarrow> fd sys" where
  "lease K dir b wait =
     sbind (lease_key K dir (key b) wait) (\<lambda>f.
     sbind (binding_validate K b) (\<lambda>_. sreturn f))"

definition handoff :: "kernel \<Rightarrow> fd \<Rightarrow> string \<Rightarrow> fd \<Rightarrow> binding option \<Rightarrow> (bytes \<times> fd list) sys" where
  "handoff K dir k f b =
     sbind (checked_lease K dir k f) (\<lambda>_.
     sbind (case b of None \<Rightarrow> sreturn () | Some b \<Rightarrow> binding_validate K b) (\<lambda>_.
     send_lease K k f))"

section \<open>The wait ends\<close>

definition clock_law :: "kernel \<Rightarrow> bool" where
  "clock_law K \<longleftrightarrow>
     (\<forall>h es. k_now K h \<le> k_now K (h @ es))
     \<and> (\<forall>h d. k_now K h + d \<le> k_now K (h @ [(Sleep d, True)]))"

lemma lock_rounds_enough:
  assumes "clock_law K" "deadline \<le> k_now K (history w) + n * POLL"
  shows "fst (lock_rounds K f deadline (Suc n) w) \<noteq> Inr False"
  using assms(2)
proof (induction n arbitrary: w)
  case 0
  have "k_now K (history w) \<le> k_now K (history w @ [(Flock f, False)])"
    using assms(1) by (simp add: clock_law_def)
  then have "\<not> k_now K (history w @ [(Flock f, False)]) < deadline"
    using 0 by simp
  then show ?case
    by (auto simp: sbind_def check_cancelled_def scheck_def slift_def ask_def now_at_def sreturn_def
        sfail_def Let_def ensure_def not_less split: sum.splits)
next
  case (Suc n)
  let ?w = "w\<lparr>history := history w @ [(Flock f, False)]\<rparr>"
  let ?t = "k_now K (history ?w)"
  let ?d = "min POLL (deadline - ?t)"
  let ?v = "?w\<lparr>history := history ?w @ [(Sleep ?d, True)]\<rparr>"
  have "k_now K h + d \<le> k_now K (h @ [(Sleep d, True)])" for h d
    using assms(1) by (simp add: clock_law_def)
  from this [of "history ?w" ?d] have mono: "k_now K (history w) \<le> ?t" "?t + ?d \<le> k_now K (history ?v)"
    using assms(1) by (simp_all add: clock_law_def)
  then have "deadline \<le> k_now K (history ?v) + n * POLL"
    using Suc.prems by (auto simp: min_def split: if_splits)
  then have rest: "fst (lock_rounds K f deadline (Suc n) ?v) \<noteq> Inr False"
    by (rule Suc.IH)
  show ?case
    using rest
    by (subst lock_rounds.simps)
       (auto simp: sbind_def check_cancelled_def scheck_def slift_def ask_def now_at_def
        sreturn_def sfail_def sleep_for_def Let_def ensure_def simp del: lock_rounds.simps split: sum.splits)
qed

text \<open>
  the wait for a lock ends: as long as time passes while the process sleeps, every wait of at
  most five seconds comes to the lock, a cancellation, an error or the deadline within 501 rounds.
\<close>

theorem lock_never_exhausted:
  assumes "clock_law K" "deadline \<le> k_now K (history w) + MAX_WAIT"
  shows "fst (lock_rounds K f deadline LOCK_ROUNDS w) \<noteq> Inr False"
  using lock_rounds_enough [OF assms(1), of deadline w 500 f] assms(2)
  by (simp add: LOCK_ROUNDS_def MAX_WAIT_def POLL_def eval_nat_numeral(3) [symmetric] del: lock_rounds.simps)


section \<open>What a lease has checked\<close>

lemma lock_rounds_ok:
  "lock_rounds K f deadline n w = (Inr True, w') \<Longrightarrow>
     \<exists>es. history w' = history w @ es @ [(Flock f, True)]"
proof (induction n arbitrary: w)
  case (Suc n)
  show ?case
  proof (cases "k_flock K (history w) f")
    case (Inr u)
    then show ?thesis
      using Suc.prems
      by (auto simp: sys_ok check_cancelled_def sbind_def scheck_def slift_def ask_def sreturn_def
          Let_def ensure_def split: if_splits)
  next
    case (Inl e)
    then obtain v where "lock_rounds K f deadline n v = (Inr True, w')"
        "\<exists>es. history v = history w @ es"
      using Suc.prems
      by (auto simp: sbind_def check_cancelled_def scheck_def slift_def ask_def now_at_def sfail_def
          sleep_for_def Let_def ensure_def split: if_splits)
    then show ?thesis
      using Suc.IH [of v] by fastforce
  qed
qed (simp add: sreturn_def)

lemma in_stage_ok [sys_ok]: "in_stage name m w = (Inr a, w') \<longleftrightarrow> m w = (Inr a, w')"
  by (cases "m w"; cases "fst (m w)") (auto simp: in_stage_def stry_def slift_def)

lemma lock_ok:
  assumes "lock K f deadline w = (Inr u, w')"
  shows "\<exists>es. history w' = history w @ es @ [(Flock f, True)]"
  using assms lock_rounds_ok [of K f deadline LOCK_ROUNDS w w'] by (auto simp: lock_def sys_ok)

text \<open>Registry programs only add events to the history.\<close>

abbreviation extends :: "'a sys \<Rightarrow> bool" where
  "extends m \<equiv> issues (\<lambda>_. True) m"

lemma extendsD: "extends m \<Longrightarrow> m w = (r, w') \<Longrightarrow> \<exists>es. history w' = history w @ es"
  by (meson issuesD)

lemma check_cancelled_extends [issues_intros]: "issues P (check_cancelled K)"
  by (simp add: issues_def check_cancelled_def scheck_def slift_def)

lemma private_object_extends [issues_intros]: "extends (private_object K ok f)"
  unfolding private_object_def cloexec_def sys_fstat_def by (intro issues_intros; simp)

lemma capacity_extends [issues_intros]: "extends (capacity K dir)"
  unfolding capacity_def by (intro issues_intros; simp)

lemma reserved_extends [issues_intros]: "extends (reserved K dir k)"
  unfolding reserved_def sys_fstat_def by (intro issues_intros; simp)

lemma checked_lease_ok:
  assumes "checked_lease K dir k f w = (Inr u, w')"
  obtains h named opened where
    "k_statat K h dir k True = Inr named" "k_fstat K (h @ [(Statat dir k True, True)]) f = Inr opened"
    "same_object named opened" "history w' = h @ [(Statat dir k True, True), (Fstat f, True)]"
    "\<exists>es. h = history w @ es"
proof -
  from assms obtain v1 v2 named opened where
    v: "private_object K (private_directory K) dir w = (Inr (), v1)"
      "private_object K (private_file K) f v1 = (Inr (), v2)" and
    look: "k_statat K (history v2) dir k True = Inr named"
      "k_fstat K (history v2 @ [(Statat dir k True, True)]) f = Inr opened" "same_object named opened"
      "history w' = history v2 @ [(Statat dir k True, True), (Fstat f, True)]"
    unfolding checked_lease_def sys_fstat_def sys_ok by auto
  moreover have "\<exists>es. history v2 = history w @ es"
    using extendsD [OF private_object_extends v(1)] extendsD [OF private_object_extends v(2)] by auto
  ultimately show thesis
    using that by blast
qed

text \<open>
  C29: a lease is held on the file the registry names: the process took the exclusive lock on the
  descriptor it returns, and after that the key in the registry directory still named that very
  file; a wait of more than five seconds is never entered.
\<close>

theorem lease_names_locked_file:
  assumes "lease_key K dir k wait w = (Inr f, w')"
  shows "wait \<le> MAX_WAIT \<and> (\<exists>pre mid h named opened.
    h = history w @ pre @ [(Flock f, True)] @ mid
    \<and> k_statat K h dir k True = Inr named
    \<and> k_fstat K (h @ [(Statat dir k True, True)]) f = Inr opened \<and> same_object named opened
    \<and> history w' = h @ [(Statat dir k True, True), (Fstat f, True)])"
proof -
  from assms obtain adm v1 v2 v3 v4 v5 v6 t where
    wait: "wait \<le> MAX_WAIT" and
    v1: "private_object K (private_directory K) dir w = (Inr (), v1)" and
    v2: "lock K adm (t + wait) (v1\<lparr>history := history v1 @ [(Open_self dir, True)]\<rparr>) = (Inr (), v2)" and
    v3: "private_object K (private_directory K) dir v2 = (Inr (), v3)" and
    v4: "reserved K dir k v3 = (Inr f, v4)" and
    v5: "lock K f (t + wait) (v4\<lparr>history := history v4 @ [(Close adm, True)]\<rparr>) = (Inr (), v5)" and
    v6: "checked_lease K dir k f v5 = (Inr (), v6)" and
    last: "w' = v6"
    unfolding lease_key_def sys_ok by (auto simp: now_at_def close_def check_cancelled_def sys_ok)
  obtain h named opened mid where h: "k_statat K h dir k True = Inr named"
      "k_fstat K (h @ [(Statat dir k True, True)]) f = Inr opened"
      "same_object named opened" "history v6 = h @ [(Statat dir k True, True), (Fstat f, True)]"
      "h = history v5 @ mid"
    using v6 by (blast elim: checked_lease_ok)
  obtain e1 e2 e3 e4 e5 where
    "history v1 = history w @ e1" "history v2 = (history v1 @ [(Open_self dir, True)]) @ e2 @ [(Flock adm, True)]"
    "history v3 = history v2 @ e3" "history v4 = history v3 @ e4"
    "history v5 = (history v4 @ [(Close adm, True)]) @ e5 @ [(Flock f, True)]"
    using extendsD [OF private_object_extends v1] lock_ok [OF v2] extendsD [OF private_object_extends v3]
      extendsD [OF reserved_extends v4] lock_ok [OF v5] by auto
  then show ?thesis
    using wait h last
    by (intro conjI exI [of _ "e1 @ [(Open_self dir, True)] @ e2 @ [(Flock adm, True)] @ e3 @ e4 @ [(Close adm, True)] @ e5"]
        exI [of _ mid] exI [of _ h] exI [of _ named] exI [of _ opened]) simp_all
qed


section \<open>A bounded registry\<close>

definition entry_name :: "errno + string \<Rightarrow> bool" where
  "entry_name e = (case e of Inl _ \<Rightarrow> False | Inr name \<Rightarrow> name \<noteq> ''.'' \<and> name \<noteq> ''..'')"

lemma count_entries_ok:
  "count_entries K es n = Inr u \<Longrightarrow> n < MAX_ENTRIES \<Longrightarrow>
     n + length (filter entry_name es) < MAX_ENTRIES
     \<and> list_all (\<lambda>e. \<exists>name. e = Inr name \<and> (entry_name e \<longrightarrow> length name = 64 \<and> list_all hexdigit name)) es"
  by (induction K es n rule: count_entries.induct) (auto simp: entry_name_def split: if_splits)

text \<open>
  a new lock file is created only in a registry that then holds fewer than 4096 entries, every
  one of them named by 64 hexadecimal digits; so the registry never grows beyond 4096 entries.
\<close>

theorem registry_stays_bounded:
  assumes "reserved K dir k w = (Inr f, w')" "k_open_path K (history w) dir k = Inl NOENT"
  shows "\<exists>h es. k_read_dir K h dir = Inr es \<and> length (filter entry_name es) + 1 \<le> MAX_ENTRIES
    \<and> list_all (\<lambda>e. \<exists>name. e = Inr name \<and> (entry_name e \<longrightarrow> length name = 64 \<and> list_all hexdigit name)) es"
proof -
  from assms obtain v u where "capacity K dir v = (Inr (), u)"
    unfolding reserved_def by (auto simp: sys_ok)
  then obtain es where es: "k_read_dir K (history v) dir = Inr es" "count_entries K es 0 = Inr ()"
    by (auto simp: capacity_def sys_ok)
  have "(0::nat) < MAX_ENTRIES"
    by (simp add: MAX_ENTRIES_def)
  from count_entries_ok [OF es(2) this] show ?thesis
    using es(1) by (auto simp: Suc_le_eq)
qed

section \<open>The fixed domain\<close>

record domain =
  anchor :: fd
  domain_directory :: fd
  registry :: fd
  domain_leaf :: string

definition local_filesystems :: "nat list" where
  "local_filesystems = [0x01021994, 0xEF53, 0x9123683E, 0x58465342]"

definition validate_anchor :: "kernel \<Rightarrow> fd \<Rightarrow> unit sys" where
  "validate_anchor K f =
     sbind (sys_fstat K f) (\<lambda>meta.
     sbind (call K (Fstatfs f) (\<lambda>h. k_fstatfs K h f)) (\<lambda>magic.
     sbind (scheck (magic \<in> set local_filesystems)
              (other_error ''native file registry requires a supported local filesystem'')) (\<lambda>_.
     scheck (directory_mode (st_mode meta) \<and> st_uid meta = 0 \<and> all_mode_bits (st_mode meta) = 0x3FF
             \<and> st_nlink meta \<noteq> 0)
       (PermissionDenied, ''native file registry needs root-owned sticky /var/tmp''))))"

definition domain_validate :: "kernel \<Rightarrow> domain \<Rightarrow> unit sys" where
  "domain_validate K d =
     sbind (validate_anchor K (anchor d)) (\<lambda>_.
     sbind (sys_fstat K (domain_directory d)) (\<lambda>opened.
     sbind (call K (Statat (anchor d) (domain_leaf d) True)
              (\<lambda>h. k_statat K h (anchor d) (domain_leaf d) True)) (\<lambda>named.
     scheck (same_object opened named \<and> directory_mode (st_mode opened) \<and> st_uid opened = k_euid K
             \<and> all_mode_bits (st_mode opened) = 0x1C0 \<and> st_nlink opened \<noteq> 0)
       (PermissionDenied, ''fixed file registry binding is unsafe''))))"

definition Domain_system :: "kernel \<Rightarrow> string \<Rightarrow> domain sys" where
  "Domain_system K name =
     sbind (sys_open_dir K ''/var/tmp'') (\<lambda>a.
     sbind (validate_anchor K a) (\<lambda>_.
     sbind (ask (Mkdirat a name) (\<lambda>h. k_mkdirat K h a name)) (\<lambda>made.
     sbind (slift (case made of
              Inr _ \<Rightarrow> Inr ()
            | Inl e \<Rightarrow> if e = EXIST then Inr () else Inl (errno_error K e))) (\<lambda>_.
     sbind (call K (Openat a name False True) (\<lambda>h. k_openat K h a name False True)) (\<lambda>dir.
     sbind (call K (Dup dir) (\<lambda>h. k_dup K h dir)) (\<lambda>clone.
     sbind (Registry_from_private K clone) (\<lambda>reg.
     let d = \<lparr>anchor = a, domain_directory = dir, registry = reg, domain_leaf = name\<rparr> in
     sbind (domain_validate K d) (\<lambda>_. sreturn d))))))))"

definition domain_delegate :: "kernel \<Rightarrow> domain \<Rightarrow> string \<Rightarrow> duration \<Rightarrow> fd sys" where
  "domain_delegate K d k wait =
     sbind (domain_validate K d) (\<lambda>_. lease_key K (registry d) k wait)"

section \<open>Many processes, one lease per key\<close>

text \<open>
  The registry as its processes share it: which lock file each key names, which process holds the
  exclusive lock of each file, and how far each process is in \<open>lease_key\<close>.  The steps are the calls
  of \<open>reserved\<close>, \<open>lock\<close> and \<open>checked_lease\<close>; closing the descriptor or dying releases the lock.
  Nothing in the program removes or renames an entry, and the directory is private to the user.
\<close>

datatype phase = Idle | Opened string nat | Locked string nat | Leased string nat

record leases =
  entry :: "string \<Rightarrow> nat option"
  owner :: "nat \<Rightarrow> nat option"
  at :: "nat \<Rightarrow> phase"

definition no_leases :: "leases \<Rightarrow> bool" where
  "no_leases s \<longleftrightarrow> (\<forall>p. at s p = Idle) \<and> (\<forall>i. owner s i = None)"

inductive lease_step :: "leases \<Rightarrow> leases \<Rightarrow> bool" where
  open_existing: "at s p = Idle \<Longrightarrow> entry s k = Some i \<Longrightarrow>
    lease_step s (s\<lparr>at := (at s)(p := Opened k i)\<rparr>)"
| create_entry: "at s p = Idle \<Longrightarrow> entry s k = None \<Longrightarrow> i \<notin> ran (entry s) \<Longrightarrow>
    lease_step s (s\<lparr>entry := (entry s)(k \<mapsto> i), at := (at s)(p := Opened k i)\<rparr>)"
| take_lock: "at s p = Opened k i \<Longrightarrow> owner s i = None \<Longrightarrow>
    lease_step s (s\<lparr>owner := (owner s)(i \<mapsto> p), at := (at s)(p := Locked k i)\<rparr>)"
| confirm: "at s p = Locked k i \<Longrightarrow> entry s k = Some i \<Longrightarrow>
    lease_step s (s\<lparr>at := (at s)(p := Leased k i)\<rparr>)"
| give_up: "at s p = Opened k i \<Longrightarrow>
    lease_step s (s\<lparr>at := (at s)(p := Idle)\<rparr>)"
| release: "at s p = Locked k i \<or> at s p = Leased k i \<Longrightarrow>
    lease_step s (s\<lparr>owner := (owner s)(i := None), at := (at s)(p := Idle)\<rparr>)"

inductive_cases lease_stepE: "lease_step s t"

definition leases_wf :: "leases \<Rightarrow> bool" where
  "leases_wf s \<longleftrightarrow>
     (\<forall>p k i. at s p = Locked k i \<or> at s p = Leased k i \<longrightarrow> owner s i = Some p)
     \<and> (\<forall>p k i. at s p = Leased k i \<longrightarrow> entry s k = Some i)"

interpretation lease_system: inductive_invariant no_leases lease_step leases_wf
proof
  show "leases_wf s" if "no_leases s" for s
    using that by (simp add: no_leases_def leases_wf_def)
  show "leases_wf t" if wf: "leases_wf s" and step: "lease_step s t" for s t
    using step
  proof cases
    case (release p k i)
    then have "owner s i = Some p"
      using wf by (auto simp: leases_wf_def)
    then have "\<not> (at s q = Locked k' i \<or> at s q = Leased k' i)" if "q \<noteq> p" for q k'
      using wf that unfolding leases_wf_def by (metis option.inject)
    with wf show ?thesis
      unfolding release(1) leases_wf_def by (auto split: if_splits)
  qed (use wf in \<open>auto simp: leases_wf_def ran_def split: if_splits\<close>)
qed


end
