(* ===== verification/File_Demo.thy ===== *)
theory File_Demo
  imports File_Transaction File_Reading File_Locking
begin

text \<open>
  A concrete kernel, directory and file on which the transaction theorems are applied: the target
  holds \<open>abcde\<close> until a rename has been made and \<open>abXYe\<close> afterwards, and every call succeeds.
\<close>

definition file_stat :: "64 word \<Rightarrow> stat" where
  "file_stat n = \<lparr>st_dev = 1, st_ino = 7, st_size = n, st_mode = 0x81A4, st_uid = 1000,
     st_gid = 1000, st_nlink = 1, st_mtime = 5, st_mtime_nsec = 0, st_ctime = 5, st_ctime_nsec = 0\<rparr>"

definition dir_stat :: stat where
  "dir_stat = (file_stat 0)\<lparr>st_ino := 2, st_mode := 0x41ED, st_nlink := 2\<rparr>"

text \<open>Time passes only while the process sleeps.\<close>

definition slept :: "history \<Rightarrow> nat" where
  "slept h = sum_list (map (\<lambda>e. case fst e of Sleep d \<Rightarrow> d | _ \<Rightarrow> 0) h)"

definition demo_kernel :: kernel where
  "demo_kernel = \<lparr>
     k_open_dir = \<lambda>h p. Inr 0, k_open_proc_fd = \<lambda>h f. Inr f,
     k_fstat = \<lambda>h f. Inr (if f = 0 then dir_stat else file_stat 5),
     k_statat = \<lambda>h f p n. Inr (file_stat 5),
     k_openat = \<lambda>h f p rw n. Inr 3, k_open_path = \<lambda>h f p. Inr 3,
     k_open_root = \<lambda>h p. Inr 0, k_open_subdir = \<lambda>h f p. Inr 0, k_open_new = \<lambda>h f p. Inr 3,
     k_open_self = \<lambda>h f. Inr f, k_dup = \<lambda>h f. Inr f, k_cloexec = \<lambda>h f. Inr True,
     k_read_to_end = \<lambda>h f n. Inr (if list_ex (\<lambda>e. case fst e of Renameat _ _ _ \<Rightarrow> True | _ \<Rightarrow> False) h
                                 then ''abXYe'' else ''abcde''),
     k_reads = \<lambda>h f. [Inr ''ab'', Inl INTR, Inr ''cde''],
     k_fstatfs = \<lambda>h f. Inr 0xEF53, k_default_acl = \<lambda>h f. Inl NODATA, k_list_xattr = \<lambda>h f. Inr 0,
     k_tmpfile = \<lambda>h f m. Inr 4, k_write_all = \<lambda>h f t. Inr (), k_fchown = \<lambda>h f g. Inr (),
     k_fchmod = \<lambda>h f m. Inr (), k_sync_all = \<lambda>h f. Inr (), k_linkat = \<lambda>h f d p. Inr (),
     k_renameat = \<lambda>h d p q. Inr (), k_unlinkat = \<lambda>h d p. Inr (), k_fsync = \<lambda>h f. Inr (),
     k_read_dir = \<lambda>h f. Inr [], k_flock = \<lambda>h f. Inr (), k_mkdirat = \<lambda>h f p. Inr (),
     k_now = slept, k_cancelled = \<lambda>h. False,
     k_euid = 1000, k_pid = 9, k_strerror = \<lambda>e. ''error'',
     k_sha256 = \<lambda>b. replicate 64 (CHR ''0'')\<rparr>"

definition demo_resolved :: resolved where
  "demo_resolved = \<lparr>binding = \<lparr>bound_parent = 0, key = replicate 64 (CHR ''0'')\<rparr>,
     parent = 0, named_parent = ''a'', leaf = ''b''\<rparr>"

definition demo_swap :: request where
  "demo_swap = demo_edit\<lparr>operation := Edit ''cd'' ''XY''\<rparr>"

definition start :: world where "start = \<lparr>history = [], names = 0\<rparr>"


lemma demo_modes:
  "single_regular (file_stat 5)" "editable_size (file_stat 5)" "directory_mode (st_mode dir_stat)"
  "st_nlink dir_stat \<noteq> 0" "same_object dir_stat dir_stat" "same_object (file_stat 5) (file_stat 5)"
  "regular_mode (st_mode (file_stat 5))" "st_nlink (file_stat 5) = 1"
  "unat (st_size (file_stat 5)) = 5" "sint (st_size (file_stat 5)) = 5"
  "privileged_bits (st_mode (file_stat 5)) = 0" "owner_writable (st_mode (file_stat 5))"
  "st_uid (file_stat 5) = 1000" "st_gid (file_stat 5) \<noteq> - 1"
  by (simp_all add: single_regular_def regular_mode_def directory_mode_def editable_size_def EDIT_BYTES_def
     file_stat_def dir_stat_def same_object_def privileged_bits_def owner_writable_def)

lemma demo_text: "from_utf8 ''abcde''" "from_utf8 ''abXYe''" 
  by code_simp+

definition renamed :: "history \<Rightarrow> bool" where
  "renamed h = list_ex (\<lambda>e. case fst e of Renameat _ _ _ \<Rightarrow> True | _ \<Rightarrow> False) h"

definition demo_source :: "bytes \<Rightarrow> acquired" where
  "demo_source t = \<lparr>snap = \<lparr>snap_contract = 1, snap_path_key = replicate 64 (CHR ''0''),
         revision = ''cfr1:'' @ replicate 64 (CHR ''0''),
         coverage = ''snapshot'', source_text = t, source_bytes = length t\<rparr>,
       source_file = 3, metadata = file_stat 5\<rparr>"


lemma demo_answers:
  "k_open_dir demo_kernel h p = Inr 0"
  "k_fstat demo_kernel h f = Inr (if f = 0 then dir_stat else file_stat 5)"
  "k_statat demo_kernel h f p n = Inr (file_stat 5)"
  "k_openat demo_kernel h f p rw n = Inr 3"
  "k_cloexec demo_kernel h f = Inr True"
  "k_read_to_end demo_kernel h f m = Inr (if renamed h then ''abXYe'' else ''abcde'')"
  "k_fstatfs demo_kernel h f = Inr 0xEF53" "k_default_acl demo_kernel h f = Inl NODATA"
  "k_list_xattr demo_kernel h f = Inr 0" "k_tmpfile demo_kernel h f md = Inr 4"
  "k_write_all demo_kernel h f t = Inr ()" "k_fchmod demo_kernel h f md = Inr ()"
  "k_sync_all demo_kernel h f = Inr ()" "k_linkat demo_kernel h f d p = Inr ()"
  "k_renameat demo_kernel h d p q = Inr ()" "k_fsync demo_kernel h f = Inr ()"
  "k_euid demo_kernel = 1000" "k_sha256 demo_kernel bs = replicate 64 (CHR ''0'')"
  by (simp_all add: demo_kernel_def renamed_def)

lemma demo_fields:
  "key (binding demo_resolved) = replicate 64 (CHR ''0'')" "bound_parent (binding demo_resolved) = 0"
  "parent demo_resolved = 0" "named_parent demo_resolved = ''a''" "leaf demo_resolved = ''b''"
  by (simp_all add: demo_resolved_def)

lemma renamed_append: "renamed (h @ es) = (renamed h \<or> renamed es)"
  by (simp add: renamed_def)

lemmas demo_run = sbind_def stry_def call_def ask_def scheck_def slift_def sreturn_def Let_def
  demo_answers demo_fields demo_modes renamed_append

lemma demo_validate: "\<exists>es. validate_parent demo_kernel demo_resolved w = (Inr (), w\<lparr>history := history w @ es\<rparr>)
  \<and> \<not> renamed es"
  by (rule exI [of _ "[(Fstat 0, True), (Get_fd_flags 0, True), (Open_dir ''a'', True), (Fstat 0, True), (Fstat 0, True)]"])
     (simp add: look_defs demo_run renamed_def)

lemma demo_req: "request_validate demo_swap = Inr ()"
  by (simp add: request_validate_iff demo_swap_def demo_edit_def mutation_admitted_def path_ok_def guard_ok_def text_ok_def
    EDIT_BYTES_def NUL_def identity_ok_def identity_char_def is_ascii_alphanumeric_def is_ascii_digit_def is_ascii_lowercase_def code_def
    wire_key_def lower_hex_def list_all_iff)

lemma demo_content: "request_content demo_swap (Some ''abcde'') = Inr ''abXYe''"
    by (simp add: demo_swap_def demo_edit_def request_content_def replace_first_def mutation_text_def text_ok_def
        EDIT_BYTES_def NUL_def)

lemma demo_acquire:
  "\<exists>es. acquire demo_kernel demo_resolved rw w =
     (Inr (demo_source (if renamed (history w) then ''abXYe'' else ''abcde'')), w\<lparr>history := history w @ es\<rparr>)
    \<and> \<not> renamed es"
proof -
  obtain e1 where e1: "validate_parent demo_kernel demo_resolved w = (Inr (), w\<lparr>history := history w @ e1\<rparr>)" "\<not> renamed e1"
    using demo_validate by blast
  let ?es = "e1 @ [(Openat 0 ''b'' rw True, True), (Fstat 3, True), (Read_to_end 3 EDIT_BYTES, True), (Fstat 3, True), (Statat 0 ''b'' True, True)]"
  obtain e2 where e2: "validate_parent demo_kernel demo_resolved (w\<lparr>history := history w @ ?es\<rparr>) = (Inr (), w\<lparr>history := history w @ ?es @ e2\<rparr>)" "\<not> renamed e2"
    using demo_validate [of "w\<lparr>history := history w @ ?es\<rparr>"] by auto
  have "\<not> renamed (?es @ e2)" using e1 e2 by (simp add: renamed_append) (simp add: renamed_def)
  moreover have "acquire demo_kernel demo_resolved rw w =
     (Inr (demo_source (if renamed (history w) then ''abXYe'' else ''abcde'')), w\<lparr>history := history w @ ?es @ e2\<rparr>)"
    using e1 e2
    by (simp add: acquire_def sys_fstat_def demo_run demo_text EDIT_BYTES_def NUL_def snapshot_revision_def demo_source_def)
     (simp add: renamed_def)
  ultimately show ?thesis by blast
qed

lemma demo_prepare:
  "\<exists>es. prepare demo_kernel 0 (Some (demo_source t)) ''abXYe'' w =
     (Inr \<lparr>stage_parent = 0, stage_file = 4, linked = None\<rparr>, w\<lparr>history := history w @ es\<rparr>) \<and> \<not> renamed es"
  by (simp add: prepare_def prepare_checks_def open_stage_def fill_stage_def source_metadata_def
      preserve_ownership_def no_xattrs_def sys_fstat_def demo_run demo_source_def supported_filesystems_def, rule exI, rule conjI, rule refl, simp add: renamed_def)

lemma demo_link:
  "\<exists>es name. link_for_replace demo_kernel \<lparr>stage_parent = 0, stage_file = 4, linked = None\<rparr> w =
     (Inr \<lparr>stage_parent = 0, stage_file = 4, linked = Some name\<rparr>,
      w\<lparr>names := (names w + 1) mod 2 ^ 64, history := history w @ es\<rparr>) \<and> \<not> renamed es"
proof -
  have "\<exists>es name. link_attempts demo_kernel \<lparr>stage_parent = 0, stage_file = 4, linked = None\<rparr> ino (Suc n) w =
     (Inr \<lparr>stage_parent = 0, stage_file = 4, linked = Some name\<rparr>,
      w\<lparr>names := (names w + 1) mod 2 ^ 64, history := history w @ es\<rparr>) \<and> \<not> renamed es" for ino n w
    by (intro exI [of _ "[(Linkat 4 0 (stage_name demo_kernel ino (names w)), True)]"]
        exI [of _ "stage_name demo_kernel ino (names w)"])
       (simp add: fetch_name_def stage_link_def demo_run renamed_def)
  from this [of _ 31 "w\<lparr>history := history w @ [(Fstat 4, True)]\<rparr>"] obtain es name where
    "link_attempts demo_kernel \<lparr>stage_parent = 0, stage_file = 4, linked = None\<rparr> (st_ino (file_stat 5)) 32
       (w\<lparr>history := history w @ [(Fstat 4, True)]\<rparr>) =
     (Inr \<lparr>stage_parent = 0, stage_file = 4, linked = Some name\<rparr>,
      w\<lparr>names := (names w + 1) mod 2 ^ 64, history := history w @ (Fstat 4, True) # es\<rparr>)" "\<not> renamed es"
    by fastforce
  then show ?thesis
    by (intro exI [of _ "(Fstat 4, True) # es"] exI [of _ name])
       (simp add: link_for_replace_def sys_fstat_def demo_run renamed_def)
qed

lemma demo_committed:
  "\<exists>c w'. transaction_run demo_kernel demo_resolved demo_swap start = (Inr c, w')"
proof -
  let ?K = demo_kernel and ?R = demo_resolved
  define g where "g = the (request_guard demo_swap)"
  have req: "creating (operation demo_swap) = False" "request_guard demo_swap = Some g"
    "expected_revision g = ''cfr1:'' @ replicate 64 (CHR ''0'')"
    by (simp_all add: g_def demo_swap_def demo_edit_def)
  obtain w1 where w1: "validate_parent ?K ?R start = (Inr (), w1)" "\<not> renamed (history w1)"
    using demo_validate [of start] by (auto simp: start_def)
  obtain w2 where w2: "acquire ?K ?R True w1 = (Inr (demo_source ''abcde''), w2)" "\<not> renamed (history w2)"
    using demo_acquire [of True w1] w1(2) by (auto simp: renamed_append)
  obtain w3 where w3: "prepare ?K 0 (Some (demo_source ''abcde'')) ''abXYe'' w2 =
      (Inr \<lparr>stage_parent = 0, stage_file = 4, linked = None\<rparr>, w3)" "\<not> renamed (history w3)"
    using demo_prepare [of "''abcde''" w2] w2(2) by (auto simp: renamed_append)
  obtain w4 name where w4: "link_for_replace ?K \<lparr>stage_parent = 0, stage_file = 4, linked = None\<rparr> w3 =
      (Inr \<lparr>stage_parent = 0, stage_file = 4, linked = Some name\<rparr>, w4)" "\<not> renamed (history w4)"
    using demo_link [of w3] w3(2) by (auto simp: renamed_append)
  obtain w5 where w5: "validate_parent ?K ?R w4 = (Inr (), w5)" "\<not> renamed (history w5)"
    using demo_validate [of w4] w4(2) by (auto simp: renamed_append)
  obtain w6 where w6: "acquire ?K ?R False w5 = (Inr (demo_source ''abcde''), w6)"
    using demo_acquire [of False w5] w5(2) by auto
  obtain w7 where w7: "stage_commit ?K \<lparr>stage_parent = 0, stage_file = 4, linked = Some name\<rparr> ''b'' False w6 =
      (Inr \<lparr>stage_parent = 0, stage_file = 4, linked = None\<rparr>, w7)"
    by (simp add: stage_commit_def owns_def sys_fstat_def demo_run)
  obtain c w8 where w8: "report ?K (\<lambda>_. sreturn ()) ?R \<lparr>stage_parent = 0, stage_file = 4, linked = None\<rparr>
      (mutation_id g) ''abXYe'' w7 = (Inr c, w8)"
    using report_never_fails by (metis is_ok_iff never_fails_def prod.collapse)
  have "transaction_run ?K ?R demo_swap start = (Inr c, w8)"
    unfolding transaction_run_def run_with_def
    using w1(1) w2(1) w3(1) w4(1) w5(1) w6 w7 w8
    by (simp add: sbind_def slift_def demo_req req or_drop_def stry_def sreturn_def verified_source_def
        verified_again_def capture_def scheck_def demo_fields demo_content demo_source_def stage_drop_def)
  then show ?thesis by blast
qed

lemma demo_laws: "sha_law demo_kernel" "strerror_law demo_kernel"
  by (simp_all add: sha_law_def strerror_law_def wire_key_def demo_kernel_def list_all_iff lower_hex_def
      is_ascii_digit_def code_def)

section \<open>Witnesses\<close>


theorem transaction_replaces_witness:
  "\<exists>c w' f content name. transaction_run demo_kernel demo_resolved demo_swap start = (Inr c, w')
     \<and> (Write_all f content, True) \<in> set (history w')
     \<and> (Linkat f (parent demo_resolved) name, True) \<in> set (history w')
     \<and> (Renameat (parent demo_resolved) name (leaf demo_resolved), True) \<in> set (history w')"
proof -
  obtain c w' where run: "transaction_run demo_kernel demo_resolved demo_swap start = (Inr c, w')"
    using demo_committed by blast
  have req: "\<not> creating (operation demo_swap)" "request_guard demo_swap = Some (the (request_guard demo_swap))"
    by (simp_all add: demo_swap_def demo_edit_def)
  show ?thesis
    using run transaction_replaces [OF run req] by fastforce
qed

definition vacant_kernel :: kernel where
  "vacant_kernel = demo_kernel\<lparr>k_statat := \<lambda>h f p n. Inl NOENT\<rparr>"

definition demo_create :: request where
  "demo_create = \<lparr>path = ''a/b'', operation = Create ''hello'',
     request_guard = Some \<lparr>revision_contract = 1, expected_revision = ''absent'', mutation_id = ''m''\<rparr>\<rparr>"

lemma vacant_answers:
  "k_statat vacant_kernel h f p n = Inl NOENT"
  "k_open_dir vacant_kernel h p = Inr 0"
  "k_fstat vacant_kernel h f = Inr (if f = 0 then dir_stat else file_stat 5)"
  "k_cloexec vacant_kernel h f = Inr True"
  "k_fstatfs vacant_kernel h f = Inr 0xEF53" "k_default_acl vacant_kernel h f = Inl NODATA"
  "k_list_xattr vacant_kernel h f = Inr 0" "k_tmpfile vacant_kernel h f md = Inr 4"
  "k_write_all vacant_kernel h f t = Inr ()" "k_sync_all vacant_kernel h f = Inr ()"
  "k_linkat vacant_kernel h f d p = Inr ()"
  by (simp_all add: vacant_kernel_def demo_kernel_def)

lemmas vacant_run = sbind_def stry_def call_def ask_def scheck_def slift_def sreturn_def Let_def
  vacant_answers demo_fields demo_modes

lemma vacant_created:
  "\<exists>c w'. transaction_run vacant_kernel demo_resolved demo_create start = (Inr c, w')"
proof -
  let ?K = vacant_kernel and ?R = demo_resolved
    and ?st = "\<lparr>stage_parent = 0, stage_file = 4, linked = None\<rparr>"
  define g where "g = the (request_guard demo_create)"
  have req: "creating (operation demo_create) = True" "request_guard demo_create = Some g"
    by (simp_all add: g_def demo_create_def)
  have valid: "request_validate demo_create = Inr ()"
    by (simp add: request_validate_iff demo_create_def mutation_admitted_def path_ok_def guard_ok_def
        text_ok_def EDIT_BYTES_def NUL_def identity_ok_def identity_char_def is_ascii_alphanumeric_def
        is_ascii_digit_def is_ascii_lowercase_def code_def)
  have content: "request_content demo_create None = Inr ''hello''"
    by (simp add: demo_create_def request_content_def mutation_text_def text_ok_def EDIT_BYTES_def NUL_def)
  have parents: "\<exists>v. validate_parent ?K ?R w = (Inr (), v)" for w
    by (simp add: look_defs vacant_run)
  have gone: "\<exists>v. absent ?K ?R w = (Inr (), v)" for w
    by (simp add: absent_ok vacant_answers)
  obtain w1 w2 where w1: "validate_parent ?K ?R start = (Inr (), w1)" and w2: "absent ?K ?R w1 = (Inr (), w2)"
    using parents gone by meson
  obtain w3 where w3: "prepare ?K 0 None ''hello'' w2 = (Inr ?st, w3)"
    by (simp add: prepare_def prepare_checks_def open_stage_def fill_stage_def no_xattrs_def
        sys_fstat_def vacant_run supported_filesystems_def)
  obtain w4 w5 where w4: "validate_parent ?K ?R w3 = (Inr (), w4)" and w5: "absent ?K ?R w4 = (Inr (), w5)"
    using parents gone by meson
  obtain w6 where w6: "stage_commit ?K ?st ''b'' True w5 = (Inr ?st, w6)"
    by (simp add: stage_commit_def stage_link_def vacant_run)
  obtain c w7 where w7: "report ?K (\<lambda>_. sreturn ()) ?R ?st (mutation_id g) ''hello'' w6 = (Inr c, w7)"
    using report_never_fails by (metis is_ok_iff never_fails_def prod.collapse)
  have "transaction_run ?K ?R demo_create start = (Inr c, w7)"
    unfolding transaction_run_def run_with_def
    using w1 w2 w3 w4 w5 w6 w7
    by (simp add: sbind_def slift_def valid req or_drop_def stry_def sreturn_def verified_source_def
        verified_again_def demo_fields content stage_drop_def)
  then show ?thesis by blast
qed

theorem transaction_creates_witness:
  "\<exists>c w' f. transaction_run vacant_kernel demo_resolved demo_create start = (Inr c, w')
     \<and> (Write_all f ''hello'', True) \<in> set (history w')
     \<and> (Linkat f (parent demo_resolved) (leaf demo_resolved), True) \<in> set (history w')"
proof -
  obtain c w' where run: "transaction_run vacant_kernel demo_resolved demo_create start = (Inr c, w')"
    using vacant_created by blast
  have "operation demo_create = Create ''hello''"
    by (simp add: demo_create_def)
  from transaction_creates [OF run this] show ?thesis
    using run by fastforce
qed

theorem transaction_report_accepted_witness:
  "\<exists>c w'. transaction_run demo_kernel demo_resolved demo_swap start = (Inr c, w')
     \<and> commit_validate (key (binding demo_resolved)) demo_swap c = Inr ()"
proof -
  obtain c w' where run: "transaction_run demo_kernel demo_resolved demo_swap start = (Inr c, w')"
    using demo_committed by blast
  show ?thesis
    using run transaction_report_accepted [OF run demo_laws] by blast
qed

section \<open>A reading of the same file\<close>

lemma demo_scan:
  "\<exists>s. scan err [Inr ''ab'', Inl INTR, Inr ''cde''] 1 10 editable = Inr s"
  using scan_reference [of "[Inr ''ab'', Inl INTR, Inr ''cde'']" 1 err 10 editable]
  by (auto simp: usize_max_def)

lemma demo_reading: "\<exists>r w'. read_lines demo_kernel demo_resolved 1 10 start = (Inr r, w')"
proof -
  have reads: "k_reads demo_kernel h f = [Inr ''ab'', Inl INTR, Inr ''cde'']" for h f
    by (simp add: demo_kernel_def)
  have parents: "\<exists>v. validate_parent demo_kernel demo_resolved w = (Inr (), v)" for w
    using demo_validate [of w] by blast
  obtain w1 where w1: "validate_parent demo_kernel demo_resolved start = (Inr (), w1)"
    using parents by blast
  obtain s where s: "scan (errno_error demo_kernel) [Inr ''ab'', Inl INTR, Inr ''cde''] 1 10
      (regular_mode (st_mode (file_stat 5)) \<and> st_nlink (file_stat 5) = 1 \<and> editable_size (file_stat 5)) = Inr s"
    using demo_scan by blast
  obtain v where v: "validate_parent demo_kernel demo_resolved (w1\<lparr>history := history w1 @
      [(Statat 0 ''b'' True, True), (Statat 0 ''b'' False, True), (Openat 0 ''b'' False False, True),
       (Fstat 3, True), (Read_chunks 3, True), (Fstat 3, True), (Statat 0 ''b'' False, True),
       (Statat 0 ''b'' True, True)]\<rparr>) = (Inr (), v)"
    using parents by blast
  have "read_lines demo_kernel demo_resolved 1 10 start =
      (Inr (reading_of demo_kernel demo_resolved 1 10 s (file_stat 5)), v)"
    using s v
    by (simp add: read_lines_def w1 read_target_def reads_of_def sys_fstat_def demo_run reads)
  then show ?thesis by blast
qed

theorem scan_refines_reference_witness:
  "\<exists>s. scan (errno_error demo_kernel) [Inr ''ab'', Inl INTR, Inr ''cde''] 1 10 True = Inr s
     \<and> held s = shown (selection 1 10 ''abcde'') \<and> total_bytes s = 5"
proof -
  obtain s where s: "scan (errno_error demo_kernel) [Inr ''ab'', Inl INTR, Inr ''cde''] 1 10 True = Inr s"
    using demo_scan by blast
  have "delivered (until_eof [Inr ''ab'', Inl INTR, Inr ''cde'']) = ''abcde''"
    by (simp add: until_eof_def)
  then show ?thesis
    using s scan_refines_reference [OF s] by simp
qed


theorem reading_accepted_witness:
  "\<exists>r w'. read_lines demo_kernel demo_resolved 1 10 start = (Inr r, w')
     \<and> reading_validate (key (binding demo_resolved)) 1 10 r = Inr ()"
proof -
  obtain r w' where run: "read_lines demo_kernel demo_resolved 1 10 start = (Inr r, w')"
    using demo_reading by blast
  have "(1::nat) \<le> 1" by simp
  from reading_accepted [OF run this demo_laws(1)] show ?thesis
    using run by blast
qed

section \<open>A lease on a lock file\<close>

definition lock_stat :: stat where
  "lock_stat = (file_stat 0)\<lparr>st_mode := 0x8180\<rparr>"

definition registry_stat :: stat where
  "registry_stat = dir_stat\<lparr>st_mode := 0x41C0\<rparr>"

definition lock_kernel :: kernel where
  "lock_kernel = demo_kernel\<lparr>
     k_fstat := \<lambda>h f. Inr (if f = 0 then registry_stat else lock_stat),
     k_statat := \<lambda>h f p n. Inr lock_stat,
     k_open_path := \<lambda>h f p. Inl NOENT\<rparr>"

lemma lock_answers:
  "k_fstat lock_kernel h f = Inr (if f = 0 then registry_stat else lock_stat)"
  "k_statat lock_kernel h f p n = Inr lock_stat" "k_open_path lock_kernel h f p = Inl NOENT"
  "k_open_self lock_kernel h f = Inr f" "k_open_new lock_kernel h f p = Inr 3"
  "k_cloexec lock_kernel h f = Inr True" "k_read_dir lock_kernel h f = Inr []"
  "k_fchmod lock_kernel h f m = Inr ()" "k_flock lock_kernel h f = Inr ()"
  "k_cancelled lock_kernel h = False" "k_euid lock_kernel = 1000" "k_now lock_kernel h = slept h"
  by (simp_all add: lock_kernel_def demo_kernel_def)

lemma lock_modes:
  "private_directory lock_kernel registry_stat" "private_file lock_kernel lock_stat"
  "same_object lock_stat lock_stat"
  by (simp_all add: private_directory_def private_file_def registry_stat_def lock_stat_def dir_stat_def
      file_stat_def directory_mode_def regular_mode_def all_mode_bits_def same_object_def lock_answers)

lemma lock_at_once:
  "lock lock_kernel f deadline w = (Inr (), w\<lparr>history := history w @ [(Flock f, True)]\<rparr>)"
proof -
  have rounds: "LOCK_ROUNDS = Suc 500"
    by (simp add: LOCK_ROUNDS_def)
  show ?thesis
    unfolding lock_def rounds lock_rounds.simps
    by (simp add: sbind_def check_cancelled_def scheck_def slift_def ask_def sreturn_def lock_answers)
qed

lemma lock_leased: "\<exists>w'. lease_key lock_kernel 0 ''k'' 1 start = (Inr 3, w')"
  by (simp add: lease_key_def in_stage_def lock_at_once private_object_def cloexec_def reserved_def
      capacity_def checked_lease_def check_cancelled_def now_at_def close_def sys_fstat_def sbind_def
      stry_def call_def ask_def scheck_def slift_def sreturn_def lock_answers lock_modes MAX_WAIT_def)

theorem lease_names_locked_file_witness:
  "\<exists>w'. lease_key lock_kernel 0 ''k'' 1 start = (Inr 3, w') \<and> (Flock 3, True) \<in> set (history w')"
proof -
  obtain w' where run: "lease_key lock_kernel 0 ''k'' 1 start = (Inr 3, w')"
    using lock_leased by blast
  show ?thesis
    using run lease_names_locked_file [OF run] by auto
qed

lemma lock_clock: "clock_law lock_kernel"
  by (simp add: clock_law_def lock_answers slept_def)

theorem lock_never_exhausted_witness:
  "fst (lock_rounds lock_kernel 3 7 LOCK_ROUNDS start) \<noteq> Inr False"
  by (rule lock_never_exhausted [OF lock_clock]) (simp add: lock_answers MAX_WAIT_def)

theorem registry_stays_bounded_witness:
  "\<exists>w' h es. reserved lock_kernel 0 ''k'' start = (Inr 3, w') \<and> k_read_dir lock_kernel h 0 = Inr es
     \<and> length (filter entry_name es) + 1 \<le> MAX_ENTRIES"
proof -
  obtain w' where run: "reserved lock_kernel 0 ''k'' start = (Inr 3, w')"
    by (simp add: reserved_def capacity_def private_object_def cloexec_def sys_fstat_def sbind_def
        call_def ask_def scheck_def slift_def sreturn_def lock_answers lock_modes)
  show ?thesis
    using run registry_stays_bounded [OF run lock_answers(3)] by blast
qed

definition one_lease :: leases where
  "one_lease = \<lparr>entry = [''k'' \<mapsto> 7], owner = [7 \<mapsto> 1], at = (\<lambda>_. Idle)(1 := Leased ''k'' 7)\<rparr>"

lemma one_lease_reachable: "reachable no_leases lease_step one_lease"
proof -
  let ?s0 = "\<lparr>entry = Map.empty, owner = Map.empty, at = \<lambda>_. Idle\<rparr>"
  let ?s1 = "?s0\<lparr>entry := [''k'' \<mapsto> 7], at := (at ?s0)(1 := Opened ''k'' 7)\<rparr>"
  let ?s2 = "?s1\<lparr>owner := (owner ?s1)(7 \<mapsto> 1), at := (at ?s1)(1 := Locked ''k'' 7)\<rparr>"
  have "reachable no_leases lease_step ?s0"
    by (rule reach_start) (simp add: no_leases_def)
  moreover have "lease_step ?s0 ?s1"
    using create_entry [of ?s0 1 "''k''" 7] by simp
  moreover have "lease_step ?s1 ?s2"
    by (rule take_lock) simp_all
  moreover have "lease_step ?s2 (?s2\<lparr>at := (at ?s2)(1 := Leased ''k'' 7)\<rparr>)"
    by (rule confirm) simp_all
  ultimately have "reachable no_leases lease_step (?s2\<lparr>at := (at ?s2)(1 := Leased ''k'' 7)\<rparr>)"
    by (meson reach_step)
  then show ?thesis
    by (simp add: one_lease_def)
qed


end
