(* ===== verification/Workflow_Source.thy ===== *)
theory Workflow_Source
  imports File_Reading Paths "HOL-Library.List_Lexorder"
begin

text \<open>
  Workflow sources (\<open>workflows.rs\<close>, \<open>workflows/reading.rs\<close>, \<open>workflows/protocol.rs\<close>): a worker
  opens one directory without following links, reads \<open>SKILL.md\<close> files of fixed depth below it, and
  answers with a catalogue or one source; the coordinator validates the answer.  The programs run
  over the kernel of \<open>Kernel\<close> and fail with a \<open>Failure\<close>.
\<close>

section \<open>Data\<close>

definition FILE_MOST :: nat where "FILE_MOST = 64 * 1024"
definition METADATA_MOST :: nat where "METADATA_MOST = 4 * 1024"
definition ENTRIES_MOST :: nat where "ENTRIES_MOST = 256"
definition ACQUISITION_TIME :: duration where "ACQUISITION_TIME = 2 * 10 ^ 9"

datatype failure =
    InvalidPath | NotFound | Unreadable | UnsafePath | Changed | TooManyEntries | Oversized
  | Metadata | Encoding | Timeout | Protocol | Worker | Cancelled

type_synonym 'a wf = "(world, failure, 'a) prog"

record candidate =
  cand_name :: string
  cand_metadata :: "failure + string"

record catalog =
  entries :: "candidate list"
  invalid_names :: nat

record wf_source =
  wf_text :: string
  wf_sha256 :: string

record root =
  root_path :: string
  root_fd :: fd

text \<open>\<open>io\<close>: \<open>ELOOP\<close> is 40 and \<open>ENOTDIR\<close> 20.\<close>

fun wf_io :: "errno \<Rightarrow> failure" where
  "wf_io NOENT = NotFound"
| "wf_io (Errno n) = (if n = 40 \<or> n = 20 then UnsafePath else Unreadable)"
| "wf_io _ = Unreadable"

definition name_char :: "byte \<Rightarrow> bool" where
  "name_char b \<longleftrightarrow> is_ascii_lowercase b \<or> is_ascii_digit b"

definition valid_name :: "string \<Rightarrow> bool" where
  "valid_name name \<longleftrightarrow>
     name \<noteq> [] \<and> length name \<le> 64
     \<and> list_all (\<lambda>b. name_char b \<or> b = CHR ''-'') name
     \<and> name_char (hd name) \<and> name_char (last name)"

section \<open>The deadline and the root\<close>

definition budget_new :: "kernel \<Rightarrow> instant wf" where
  "budget_new K w = (Inr (k_now K (history w) + ACQUISITION_TIME), w)"

definition budget_check :: "kernel \<Rightarrow> instant \<Rightarrow> unit wf" where
  "budget_check K budget w = scheck (k_now K (history w) < budget) Timeout w"

definition root_ok :: "string \<Rightarrow> bool" where
  "root_ok p \<longleftrightarrow>
     is_absolute p \<and> length p \<le> 4096 \<and> NUL \<notin> set p
     \<and> ParentDir \<notin> set (components p) \<and> length (components p) \<le> 256"

definition Root_open :: "kernel \<Rightarrow> string \<Rightarrow> instant \<Rightarrow> root wf" where
  "Root_open K p budget =
     sbind (budget_check K budget) (\<lambda>_.
     sbind (scheck (root_ok p) InvalidPath) (\<lambda>_.
     sbind (call_as wf_io (Open_root p) (\<lambda>h. k_open_root K h p)) (\<lambda>f.
     sbind (budget_check K budget) (\<lambda>_.
     sreturn \<lparr>root_path = p, root_fd = f\<rparr>))))"

definition wf_fstat :: "kernel \<Rightarrow> fd \<Rightarrow> stat wf" where
  "wf_fstat K f = call_as wf_io (Fstat f) (\<lambda>h. k_fstat K h f)"

definition same_directory :: "kernel \<Rightarrow> fd \<Rightarrow> fd \<Rightarrow> unit wf" where
  "same_directory K a b =
     sbind (wf_fstat K a) (\<lambda>x.
     sbind (wf_fstat K b) (\<lambda>y.
     scheck (same_object x y) Changed))"

definition root_validate :: "kernel \<Rightarrow> root \<Rightarrow> instant \<Rightarrow> unit wf" where
  "root_validate K R budget =
     sbind (Root_open K (root_path R) budget) (\<lambda>current.
     same_directory K (root_fd R) (root_fd current))"

section \<open>Reading one source\<close>

definition stamp :: "stat \<Rightarrow> bytes" where
  "stamp m = le64 (st_dev m) @ le64 (st_ino m) @ le64 (st_nlink m) @ le64 (st_size m)
     @ le32 (st_mode m) @ le32 (st_uid m) @ le32 (st_gid m) @ le64 (st_mtime m)
     @ le64 (st_mtime_nsec m) @ le64 (st_ctime m) @ le64 (st_ctime_nsec m)"

definition regular :: "stat \<Rightarrow> failure + unit" where
  "regular m =
     rbind (ensure (regular_mode (st_mode m) \<and> st_nlink m = 1) UnsafePath) (\<lambda>_.
     ensure (0 \<le> sint (st_size m) \<and> unat (st_size m) \<le> FILE_MOST) Oversized)"

text \<open>\<open>slice::strip_suffix\<close> of one byte, or the slice itself.\<close>

definition strip_byte :: "byte \<Rightarrow> bytes \<Rightarrow> bytes" where
  "strip_byte b raw = (if raw \<noteq> [] \<and> last raw = b then butlast raw else raw)"

definition delimiter :: "bytes \<Rightarrow> bool" where
  "delimiter raw \<longleftrightarrow> strip_byte (CHR 0x0D) (strip_byte newline raw) = ''---''"

fun metadata_lines :: "bytes list \<Rightarrow> nat \<Rightarrow> failure + nat" where
  "metadata_lines [] end = Inl Metadata"
| "metadata_lines (line # parts) end =
     (let end = end + length line in
      if end > METADATA_MOST then Inl Metadata
      else if delimiter line then Inr end
      else metadata_lines parts end)"

definition metadata_end :: "bytes \<Rightarrow> failure + nat" where
  "metadata_end bs =
     (case split_inclusive bs of
        [] \<Rightarrow> Inl Metadata
      | first # parts \<Rightarrow>
          if delimiter first then metadata_lines parts (length first) else Inl Metadata)"

definition cap_of :: "bool \<Rightarrow> nat" where
  "cap_of meta = (if meta then METADATA_MOST else FILE_MOST)"

definition source_content :: "bool \<Rightarrow> bytes \<Rightarrow> failure + string" where
  "source_content meta bs =
     rbind (if meta then rbind (metadata_end bs) (\<lambda>n. Inr (take n bs)) else Inr bs) (\<lambda>bs.
     rbind (ensure (length bs \<le> cap_of meta) Oversized) (\<lambda>_.
     rbind (ensure (NUL \<notin> set bs) Encoding) (\<lambda>_.
     rbind (ensure (from_utf8 bs) Encoding) (\<lambda>_. Inr bs))))"

definition SKILL :: string where "SKILL = ''SKILL.md''"

definition wf_capture :: "kernel \<Rightarrow> root \<Rightarrow> string \<Rightarrow> bool \<Rightarrow> instant \<Rightarrow> string wf" where
  "wf_capture K R name meta budget =
     sbind (budget_check K budget) (\<lambda>_.
     sbind (scheck (valid_name name) InvalidPath) (\<lambda>_.
     sbind (call_as wf_io (Open_subdir (root_fd R) name)
              (\<lambda>h. k_open_subdir K h (root_fd R) name)) (\<lambda>dir.
     sbind (call_as wf_io (Statat dir SKILL True) (\<lambda>h. k_statat K h dir SKILL True)) (\<lambda>before.
     sbind (slift (regular before)) (\<lambda>_.
     sbind (call_as wf_io (Openat dir SKILL False True)
              (\<lambda>h. k_openat K h dir SKILL False True)) (\<lambda>f.
     sbind (wf_fstat K f) (\<lambda>opened.
     sbind (slift (regular opened)) (\<lambda>_.
     sbind (scheck (stamp before = stamp opened) Changed) (\<lambda>_.
     sbind (budget_check K budget) (\<lambda>_.
     sbind (call_as (\<lambda>_. Unreadable) (Read_to_end f (cap_of meta + 1))
              (\<lambda>h. map_sum id (take (cap_of meta + 1))
                     (k_read_to_end K h f (cap_of meta + 1)))) (\<lambda>bs.
     sbind (wf_fstat K f) (\<lambda>after.
     sbind (call_as wf_io (Statat dir SKILL True) (\<lambda>h. k_statat K h dir SKILL True)) (\<lambda>named.
     sbind (scheck (stamp before = stamp after \<and> stamp after = stamp named
                    \<and> length bs = min (unat (st_size after)) (cap_of meta + 1)) Changed) (\<lambda>_.
     sbind (root_validate K R budget) (\<lambda>_.
     sbind (call_as wf_io (Open_subdir (root_fd R) name)
              (\<lambda>h. k_open_subdir K h (root_fd R) name)) (\<lambda>named_dir.
     sbind (same_directory K dir named_dir) (\<lambda>_.
     sbind (slift (source_content meta bs)) (\<lambda>content.
     sbind (budget_check K budget) (\<lambda>_.
     sreturn content)))))))))))))))))))"

section \<open>The catalogue and one source\<close>

text \<open>The directory loop: the valid names, how many others, and how many entries so far.\<close>

fun list_names ::
  "kernel \<Rightarrow> fd \<Rightarrow> instant \<Rightarrow> (errno + string) list \<Rightarrow> string list \<Rightarrow> nat \<Rightarrow> nat \<Rightarrow> (string list \<times> nat) wf" where
  "list_names K f budget [] found invalid count = sreturn (found, invalid)"
| "list_names K f budget (entry # rest) found invalid count =
     sbind (budget_check K budget) (\<lambda>_.
     sbind (call_as wf_io (Read_entry f) (\<lambda>h. entry)) (\<lambda>bs.
     if bs = ''.'' \<or> bs = ''..'' then list_names K f budget rest found invalid count
     else if count + 1 > ENTRIES_MOST then sfail TooManyEntries
     else if from_utf8 bs \<and> valid_name bs
       then list_names K f budget rest (found @ [bs]) invalid (count + 1)
     else list_names K f budget rest found (invalid + 1) (count + 1)))"

fun read_all :: "kernel \<Rightarrow> root \<Rightarrow> instant \<Rightarrow> string list \<Rightarrow> candidate list \<Rightarrow> candidate list wf" where
  "read_all K R budget [] acc = sreturn acc"
| "read_all K R budget (name # rest) acc =
     sbind (budget_check K budget) (\<lambda>_.
     stry (wf_capture K R name True budget) (\<lambda>meta.
     if meta = Inl Timeout \<or> meta = Inl Changed then slift (map_sum id (\<lambda>_. acc) meta)
     else read_all K R budget rest (acc @ [\<lparr>cand_name = name, cand_metadata = meta\<rparr>])))"

definition catalog_root :: "kernel \<Rightarrow> root \<Rightarrow> instant \<Rightarrow> catalog wf" where
  "catalog_root K R budget =
     sbind (wf_fstat K (root_fd R)) (\<lambda>before.
     sbind (call_as wf_io (Read_dir (root_fd R)) (\<lambda>h. k_read_dir K h (root_fd R))) (\<lambda>listing.
     sbind (list_names K (root_fd R) budget listing [] 0 0) (\<lambda>(found, invalid).
     sbind (read_all K R budget (sort found) []) (\<lambda>cs.
     sbind (root_validate K R budget) (\<lambda>_.
     sbind (wf_fstat K (root_fd R)) (\<lambda>after.
     sbind (scheck (stamp before = stamp after) Changed) (\<lambda>_.
     sreturn \<lparr>entries = cs, invalid_names = invalid\<rparr>)))))))"

definition load_root :: "kernel \<Rightarrow> root \<Rightarrow> string \<Rightarrow> instant \<Rightarrow> wf_source wf" where
  "load_root K R name budget =
     sbind (wf_capture K R name False budget) (\<lambda>content.
     sbind (budget_check K budget) (\<lambda>_.
     sreturn \<lparr>wf_text = content, wf_sha256 = k_sha256 K content\<rparr>))"

definition wf_catalog :: "kernel \<Rightarrow> string \<Rightarrow> catalog wf" where
  "wf_catalog K p =
     sbind (budget_new K) (\<lambda>budget.
     stry (Root_open K p budget) (\<lambda>opened.
     case opened of
       Inl e \<Rightarrow> if e = NotFound then sreturn \<lparr>entries = [], invalid_names = 0\<rparr> else sfail e
     | Inr R \<Rightarrow> catalog_root K R budget))"

definition wf_load :: "kernel \<Rightarrow> string \<Rightarrow> string \<Rightarrow> wf_source wf" where
  "wf_load K p name =
     sbind (budget_new K) (\<lambda>budget.
     sbind (Root_open K p budget) (\<lambda>R.
     load_root K R name budget))"

section \<open>The protocol\<close>

definition INPUT_MOST :: nat where "INPUT_MOST = 32 * 1024"
definition REPLY_MOST :: nat where "REPLY_MOST = 7 * 1024 * 1024"

datatype wf_operation = Catalog | Load string

record wf_request =
  wf_version :: "16 word"
  wf_root :: string
  wf_operation :: wf_operation

datatype payload = Catalog_Payload catalog | Source_Payload wf_source

record response =
  res_version :: "16 word"
  res_root :: string
  res_operation :: wf_operation
  res_result :: "failure + payload"

definition wf_validate :: "wf_request \<Rightarrow> failure + unit" where
  "wf_validate req =
     rbind (ensure (from_utf8 (wf_root req)) InvalidPath) (\<lambda>_.
     rbind (ensure (wf_version req = 1) Protocol) (\<lambda>_.
     rbind (ensure (root_ok (wf_root req)) InvalidPath) (\<lambda>_.
     case wf_operation req of
       Load name \<Rightarrow> ensure (valid_name name) InvalidPath
     | Catalog \<Rightarrow> Inr ())))"

text \<open>\<open>Request::read\<close>; what the reader delivers and \<open>serde_json\<close> are parameters.\<close>

definition wf_request_read ::
  "(bytes \<Rightarrow> wf_request option) \<Rightarrow> errno + bytes \<Rightarrow> failure + wf_request" where
  "wf_request_read from_json input =
     rbind (map_err (\<lambda>_. Protocol) input) (\<lambda>sent.
     rbind (Inr (take (INPUT_MOST + 1) sent)) (\<lambda>bs.
     rbind (ensure (length bs \<le> INPUT_MOST) Protocol) (\<lambda>_.
     rbind (ok_or (from_json bs) Protocol) (\<lambda>req.
     rbind (wf_validate req) (\<lambda>_. Inr req)))))"

definition wf_response :: "wf_request \<Rightarrow> failure + payload \<Rightarrow> response" where
  "wf_response req result =
     \<lparr>res_version = 1, res_root = wf_root req, res_operation = wf_operation req, res_result = result\<rparr>"

text \<open>\<open>jail::WorkflowBinding\<close>.\<close>

record wf_binding =
  wfb_root :: string
  wfb_device :: "64 word"
  wfb_inode :: "64 word"

definition binding_matches :: "kernel \<Rightarrow> wf_binding \<Rightarrow> string \<Rightarrow> fd \<Rightarrow> bool wf" where
  "binding_matches K b p f =
     sbind (ask (Fstat f) (\<lambda>h. k_fstat K h f)) (\<lambda>answer.
     sreturn (case answer of
       Inl _ \<Rightarrow> False
     | Inr m \<Rightarrow> path_eq (wfb_root b) p \<and> wfb_device b = st_dev m \<and> wfb_inode b = st_ino m))"

definition wf_acquire :: "kernel \<Rightarrow> wf_request \<Rightarrow> wf_binding \<Rightarrow> payload wf" where
  "wf_acquire K req b =
     sbind (scheck (path_eq (wfb_root b) (wf_root req)) Changed) (\<lambda>_.
     sbind (budget_new K) (\<lambda>budget.
     sbind (Root_open K (wf_root req) budget) (\<lambda>R.
     sbind (binding_matches K b (root_path R) (root_fd R)) (\<lambda>same.
     sbind (scheck same Changed) (\<lambda>_.
     case wf_operation req of
       Catalog \<Rightarrow> sbind (catalog_root K R budget) (\<lambda>c. sreturn (Catalog_Payload c))
     | Load name \<Rightarrow> sbind (load_root K R name budget) (\<lambda>s. sreturn (Source_Payload s)))))))"

text \<open>The worker's environment variables, and \<open>serde_json\<close> on the binding, are parameters.\<close>

definition wf_worker ::
  "kernel \<Rightarrow> (bytes \<Rightarrow> wf_binding option) \<Rightarrow> string option \<Rightarrow> string option \<Rightarrow> wf_request \<Rightarrow> payload wf" where
  "wf_worker K from_json worker_var binding_var req =
     sbind (slift (wf_validate req)) (\<lambda>_.
     sbind (scheck (worker_var = Some ''1'') Worker) (\<lambda>_.
     sbind (slift (ok_or binding_var Worker)) (\<lambda>sent.
     sbind (scheck (length sent \<le> INPUT_MOST) Protocol) (\<lambda>_.
     sbind (slift (ok_or (from_json sent) Protocol)) (\<lambda>b.
     wf_acquire K req b)))))"

fun candidates_ok :: "string option \<Rightarrow> candidate list \<Rightarrow> bool" where
  "candidates_ok previous [] = True"
| "candidates_ok previous (c # cs) =
     (valid_name (cand_name c)
      \<and> (case previous of None \<Rightarrow> True | Some p \<Rightarrow> \<not> p \<ge> cand_name c)
      \<and> (case cand_metadata c of
           Inl _ \<Rightarrow> True
         | Inr t \<Rightarrow> \<not> (length t > METADATA_MOST \<or> NUL \<in> set t))
      \<and> candidates_ok (Some (cand_name c)) cs)"

definition response_validate :: "(bytes \<Rightarrow> string) \<Rightarrow> wf_request \<Rightarrow> response \<Rightarrow> failure + unit" where
  "response_validate sha256 req res =
     rbind (ensure (res_version res = 1 \<and> path_eq (res_root res) (wf_root req)
                    \<and> res_operation res = wf_operation req) Protocol) (\<lambda>_.
     case (wf_operation req, res_result res) of
       (_, Inl _) \<Rightarrow> Inr ()
     | (Catalog, Inr (Catalog_Payload c)) \<Rightarrow>
         rbind (ensure (saturating_add (length (entries c)) (invalid_names c) \<le> ENTRIES_MOST) Protocol) (\<lambda>_.
         ensure (candidates_ok None (entries c)) Protocol)
     | (Load _, Inr (Source_Payload s)) \<Rightarrow>
         ensure (length (wf_text s) \<le> FILE_MOST \<and> NUL \<notin> set (wf_text s)
                 \<and> wf_sha256 s = sha256 (wf_text s)) Protocol
     | _ \<Rightarrow> Inl Protocol)"


section \<open>The worker only looks\<close>

lemmas wf_look_defs = budget_new_def budget_check_def Root_open_def wf_fstat_def same_directory_def
  root_validate_def wf_capture_def binding_matches_def

lemma budget_harmless [issues_intros]: "issues P (budget_check K budget)" "issues P (budget_new K)"
  by (simp_all add: issues_def budget_check_def budget_new_def scheck_def slift_def)

lemma wf_fstat_harmless [issues_intros]: "issues harmless (wf_fstat K f)"
  unfolding wf_fstat_def by (intro issues_intros) (simp_all add: harmless_def)

lemma Root_open_harmless [issues_intros]: "issues harmless (Root_open K p budget)"
  unfolding Root_open_def by (intro issues_intros) (simp_all add: harmless_def)

lemma same_directory_harmless [issues_intros]: "issues harmless (same_directory K a b)"
  unfolding same_directory_def by (intro issues_intros)

lemma root_validate_harmless [issues_intros]: "issues harmless (root_validate K R budget)"
  unfolding root_validate_def by (intro issues_intros)

lemma wf_capture_harmless [issues_intros]: "issues harmless (wf_capture K R name meta budget)"
  unfolding wf_capture_def by (intro issues_intros) (simp_all add: harmless_def)

lemma list_names_harmless [issues_intros]: "issues harmless (list_names K f budget es found invalid count)"
proof (induction es arbitrary: found invalid count)
  case (Cons e es)
  then show ?case
    unfolding list_names.simps by (intro issues_intros) (simp_all add: harmless_def)
qed simp

lemma read_all_harmless [issues_intros]: "issues harmless (read_all K R budget rest acc)"
proof (induction rest arbitrary: acc)
  case (Cons name rest)
  then show ?case
    unfolding read_all.simps by (intro issues_intros)
qed simp

lemma catalog_root_harmless [issues_intros]: "issues harmless (catalog_root K R budget)"
  unfolding catalog_root_def case_prod_beta
  by (intro issues_intros) (simp_all add: harmless_def)

lemma load_root_harmless [issues_intros]: "issues harmless (load_root K R name budget)"
  unfolding load_root_def by (intro issues_intros)

lemma issues_operation [issues_intros]:
  "issues P m \<Longrightarrow> (\<And>name. issues P (f name)) \<Longrightarrow>
     issues P (case x of Catalog \<Rightarrow> m | Load name \<Rightarrow> f name)"
  by (cases x) auto

lemma wf_acquire_harmless [issues_intros]: "issues harmless (wf_acquire K req b)"
  unfolding wf_acquire_def binding_matches_def
  by (intro issues_intros) (simp_all add: harmless_def)

text \<open>
  whatever a workflow request asks for and whatever the kernel answers, every call the worker
  issues leaves the file system alone.
\<close>

theorem workflow_worker_reads_only:
  "\<exists>es. history (snd (wf_worker K from_json worker_var binding_var req w)) = history w @ es
     \<and> list_all harmless es"
proof -
  have "issues harmless (wf_worker K from_json worker_var binding_var req)"
    unfolding wf_worker_def by (intro issues_intros)
  then show ?thesis
    by (simp add: issues_def)
qed

section \<open>What a source holds\<close>

lemma stamp_inject [simp]: "stamp a = stamp b \<longleftrightarrow> a = b"
  by (auto simp: stamp_def)

lemma source_content_ok:
  "source_content meta bs = Inr t \<longleftrightarrow>
     (if meta then \<exists>n. metadata_end bs = Inr n \<and> t = take n bs else t = bs)
     \<and> length t \<le> cap_of meta \<and> NUL \<notin> set t \<and> from_utf8 t"
  by (auto simp: source_content_def result_simps)

lemma budget_check_ok [sys_ok]:
  "budget_check K budget w = (Inr u, w') \<longleftrightarrow> k_now K (history w) < budget \<and> w' = w"
  by (simp add: budget_check_def sys_ok)

lemma wf_capture_ok:
  assumes "wf_capture K R name meta budget w = (Inr t, w')"
  obtains dir f m bs h1 h2 h3 h4 where
    "valid_name name" "regular m = Inr ()"
    "k_statat K h1 dir SKILL True = Inr m" "k_read_to_end K h2 f (cap_of meta + 1) = Inr bs"
    "k_fstat K h3 f = Inr m" "k_statat K h4 dir SKILL True = Inr m"
    "length (take (cap_of meta + 1) bs) = min (unat (st_size m)) (cap_of meta + 1)"
    "source_content meta (take (cap_of meta + 1) bs) = Inr t"
  using assms unfolding wf_capture_def wf_fstat_def sys_ok map_sum_eq_Inr stamp_inject
  by (elim exE conjE) (rule that, simp_all)

lemma regular_ok:
  "regular m = Inr () \<longleftrightarrow> regular_mode (st_mode m) \<and> st_nlink m = 1
     \<and> 0 \<le> sint (st_size m) \<and> unat (st_size m) \<le> FILE_MOST"
  by (auto simp: regular_def result_simps)


section \<open>Where the metadata ends\<close>

definition closed_at :: "bytes list \<Rightarrow> nat \<Rightarrow> nat \<Rightarrow> bool" where
  "closed_at parts k n \<longleftrightarrow>
     (\<exists>mid fence rest. parts = mid @ fence # rest \<and> delimiter fence
        \<and> list_all (\<lambda>l. \<not> delimiter l) mid
        \<and> n = k + length (concat mid) + length fence \<and> n \<le> METADATA_MOST)"

lemma closed_at_simps:
  "closed_at [] k n \<longleftrightarrow> False"
  "closed_at (p # ps) k n \<longleftrightarrow>
     k + length p \<le> METADATA_MOST
     \<and> (if delimiter p then n = k + length p else closed_at ps (k + length p) n)"
proof -
  have split: "(p # ps = mid @ fence # rest) \<longleftrightarrow>
      (mid = [] \<and> fence = p \<and> rest = ps) \<or> (\<exists>mid'. mid = p # mid' \<and> ps = mid' @ fence # rest)" for mid fence rest
    by (cases mid) auto
  show "closed_at (p # ps) k n \<longleftrightarrow> k + length p \<le> METADATA_MOST
     \<and> (if delimiter p then n = k + length p else closed_at ps (k + length p) n)"
  proof (cases "delimiter p")
    case True
    then show ?thesis
      by (auto simp: closed_at_def split intro: exI [of _ "[]"])
  next
    case False
    show ?thesis
    proof
      assume "closed_at (p # ps) k n"
      then obtain mid fence rest where "p # ps = mid @ fence # rest" "delimiter fence"
        "list_all (\<lambda>l. \<not> delimiter l) mid" "n = k + length (concat mid) + length fence"
        "n \<le> METADATA_MOST"
        unfolding closed_at_def by blast
      then obtain mid' where "mid = p # mid'" "ps = mid' @ fence # rest"
        using False split [of mid fence rest] by auto
      then show "k + length p \<le> METADATA_MOST
        \<and> (if delimiter p then n = k + length p else closed_at ps (k + length p) n)"
        using False \<open>delimiter fence\<close> \<open>list_all _ mid\<close> \<open>n = _\<close> \<open>n \<le> _\<close>
        by (auto simp: closed_at_def)
    next
      assume "k + length p \<le> METADATA_MOST
        \<and> (if delimiter p then n = k + length p else closed_at ps (k + length p) n)"
      then obtain mid fence rest where "ps = mid @ fence # rest" "delimiter fence"
        "list_all (\<lambda>l. \<not> delimiter l) mid" "n = k + length p + length (concat mid) + length fence"
        "n \<le> METADATA_MOST"
        using False unfolding closed_at_def by auto
      then show "closed_at (p # ps) k n"
        unfolding closed_at_def using False
        by (intro exI [of _ "p # mid"] exI [of _ fence] exI [of _ rest]) simp
    qed
  qed
qed (simp add: closed_at_def)

lemma metadata_lines_exact: "metadata_lines parts k = Inr n \<longleftrightarrow> closed_at parts k n"
  by (induction parts arbitrary: k) (auto simp: closed_at_simps Let_def)

text \<open>
  the metadata of a source runs from its first line, which must be a fence, through the next
  fence line, and only when all of that fits in 4 KiB.
\<close>

theorem metadata_end_exact:
  "metadata_end bs = Inr n \<longleftrightarrow>
     (\<exists>first mid fence rest. split_inclusive bs = first # mid @ fence # rest
        \<and> delimiter first \<and> delimiter fence \<and> list_all (\<lambda>l. \<not> delimiter l) mid
        \<and> n = length first + length (concat mid) + length fence \<and> n \<le> METADATA_MOST)"
  by (cases "split_inclusive bs")
     (auto simp: metadata_end_def metadata_lines_exact closed_at_def)

section \<open>The catalogue\<close>

definition listed :: "(errno + string) list \<Rightarrow> string list" where
  "listed es = filter (\<lambda>n. n \<noteq> ''.'' \<and> n \<noteq> ''..'') (map projr es)"

definition nameable :: "string \<Rightarrow> bool" where
  "nameable n \<longleftrightarrow> from_utf8 n \<and> valid_name n"

lemma list_names_ok:
  assumes "list_names K f budget es found invalid count w = (Inr (ns, i), w')"
    and "count \<le> ENTRIES_MOST"
  shows "list_all is_ok es \<and> ns = found @ filter nameable (listed es)
    \<and> i = invalid + length (filter (\<lambda>n. \<not> nameable n) (listed es))
    \<and> count + length (listed es) \<le> ENTRIES_MOST"
  using assms
proof (induction K f budget es found invalid count arbitrary: w rule: list_names.induct)
  case (2 K f budget e rest found invalid count)
  then obtain bs u where e: "e = Inr bs"
    and run: "(if bs = ''.'' \<or> bs = ''..'' then list_names K f budget rest found invalid count
     else if count + 1 > ENTRIES_MOST then sfail TooManyEntries
     else if from_utf8 bs \<and> valid_name bs
       then list_names K f budget rest (found @ [bs]) invalid (count + 1)
     else list_names K f budget rest found (invalid + 1) (count + 1)) u = (Inr (ns, i), w')"
    by (auto simp: sys_ok)
  consider "bs = ''.'' \<or> bs = ''..''" | "bs \<noteq> ''.''" "bs \<noteq> ''..''" "nameable bs"
    | "bs \<noteq> ''.''" "bs \<noteq> ''..''" "\<not> nameable bs"
    by blast
  then show ?case
  proof cases
    case 1
    then show ?thesis
      using "2.IH"(1) [of bs] run "2.prems"(2) e by (auto simp: listed_def)
  next
    case 2
    then show ?thesis
      using "2.IH"(2) [of bs] run e by (auto simp: listed_def nameable_def sys_ok split: if_splits)
  next
    case 3
    then show ?thesis
      using "2.IH"(3) [of bs] run e by (auto simp: listed_def nameable_def sys_ok split: if_splits)
  qed
qed (auto simp: listed_def sys_ok)


lemma read_all_ok:
  assumes "read_all K R budget rest acc w = (Inr cs, w')"
  shows "\<exists>ds. cs = acc @ ds \<and> map cand_name ds = rest
    \<and> list_all (\<lambda>c. \<exists>u v. wf_capture K R (cand_name c) True budget u = (cand_metadata c, v)) ds"
  using assms
proof (induction K R budget rest acc arbitrary: w rule: read_all.induct)
  case (2 K R budget name rest acc)
  then obtain meta u v where capture: "wf_capture K R name True budget u = (meta, v)"
    and run: "(if meta = Inl Timeout \<or> meta = Inl Changed then slift (map_sum id (\<lambda>_. acc) meta)
      else read_all K R budget rest (acc @ [\<lparr>cand_name = name, cand_metadata = meta\<rparr>])) v = (Inr cs, w')"
    by (auto simp: sys_ok)
  then have go: "\<not> (meta = Inl Timeout \<or> meta = Inl Changed)"
    by (auto simp: sys_ok)
  with run have "read_all K R budget rest (acc @ [\<lparr>cand_name = name, cand_metadata = meta\<rparr>]) v = (Inr cs, w')"
    by (simp split: if_splits)
  then obtain ds where "cs = acc @ \<lparr>cand_name = name, cand_metadata = meta\<rparr> # ds" "map cand_name ds = rest"
    "list_all (\<lambda>c. \<exists>u v. wf_capture K R (cand_name c) True budget u = (cand_metadata c, v)) ds"
    using "2.IH" [OF go] by auto
  then show ?case
    using capture by (intro exI [of _ "\<lparr>cand_name = name, cand_metadata = meta\<rparr> # ds"]) auto
qed (simp add: sys_ok)

lemma wf_metadata_bounded:
  assumes "wf_capture K R name True budget u = (Inr t, v)"
  shows "length t \<le> METADATA_MOST \<and> NUL \<notin> set t"
  using assms by (rule wf_capture_ok) (auto simp: source_content_ok cap_of_def)

lemma catalog_root_ok:
  assumes "catalog_root K R budget w = (Inr c, w')"
  obtains h es where "k_read_dir K h (root_fd R) = Inr es" "list_all is_ok es"
    "map cand_name (entries c) = sort (filter nameable (listed es))"
    "invalid_names c = length (filter (\<lambda>n. \<not> nameable n) (listed es))"
    "length (listed es) \<le> ENTRIES_MOST"
    "list_all (\<lambda>c. \<exists>u v. wf_capture K R (cand_name c) True budget u = (cand_metadata c, v)) (entries c)"
proof -
  obtain h es ns i u v cs x y where dir: "k_read_dir K h (root_fd R) = Inr es"
    and names: "list_names K (root_fd R) budget es [] 0 0 u = (Inr (ns, i), v)"
    and cands: "read_all K R budget (sort ns) [] x = (Inr cs, y)"
    and c: "c = \<lparr>entries = cs, invalid_names = i\<rparr>"
    using assms unfolding catalog_root_def sys_ok by (auto simp: sys_ok)
  have "list_all is_ok es" "ns = filter nameable (listed es)"
    "i = length (filter (\<lambda>n. \<not> nameable n) (listed es))" "length (listed es) \<le> ENTRIES_MOST"
    using list_names_ok [OF names] by auto
  then show ?thesis
    using dir read_all_ok [OF cands] c that by auto
qed

text \<open>
  a catalogue lists exactly the well-formed names of the directory, in increasing order, each
  with what reading its source gave, and counts the other entries; together they are at most 256.
\<close>

theorem workflow_catalog_exact:
  assumes "catalog_root K R budget w = (Inr c, w')"
  shows "\<exists>h es. k_read_dir K h (root_fd R) = Inr es \<and> list_all is_ok es
    \<and> map cand_name (entries c) = sort (filter nameable (listed es))
    \<and> length (entries c) + invalid_names c = length (listed es)
    \<and> length (listed es) \<le> ENTRIES_MOST
    \<and> list_all (\<lambda>x. \<exists>u v. wf_capture K R (cand_name x) True budget u = (cand_metadata x, v)) (entries c)"
proof -
  obtain h es where *: "k_read_dir K h (root_fd R) = Inr es" "list_all is_ok es"
    "map cand_name (entries c) = sort (filter nameable (listed es))"
    "invalid_names c = length (filter (\<lambda>n. \<not> nameable n) (listed es))"
    "length (listed es) \<le> ENTRIES_MOST"
    "list_all (\<lambda>c. \<exists>u v. wf_capture K R (cand_name c) True budget u = (cand_metadata c, v)) (entries c)"
    using assms by (rule catalog_root_ok)
  have "length (entries c) = length (filter nameable (listed es))"
    using *(3) by (metis length_map length_sort)
  then have "length (entries c) + invalid_names c = length (listed es)"
    using *(4) sum_length_filter_compl [of nameable "listed es"] by simp
  then show ?thesis
    using * by blast
qed

section \<open>The coordinator accepts what the worker produces\<close>

text \<open>A directory stream names an entry once.\<close>

definition listing_law :: "kernel \<Rightarrow> bool" where
  "listing_law K \<longleftrightarrow> (\<forall>h f es. k_read_dir K h f = Inr es \<longrightarrow> distinct (map projr (filter is_ok es)))"

lemma candidates_ok_sorted:
  assumes "sorted_wrt (<) (map cand_name cs)"
    and "\<forall>c \<in> set cs. valid_name (cand_name c)"
    and "\<forall>c \<in> set cs. \<forall>t. cand_metadata c = Inr t \<longrightarrow> length t \<le> METADATA_MOST \<and> NUL \<notin> set t"
    and "\<forall>c \<in> set cs. \<forall>p. previous = Some p \<longrightarrow> p < cand_name c"
  shows "candidates_ok previous cs"
  using assms
proof (induction previous cs rule: candidates_ok.induct)
  case (2 previous c cs)
  then show ?case
    by (auto simp: not_le not_less split: option.splits sum.splits)
qed simp

lemma catalog_accepted:
  assumes "catalog_root K R budget w = (Inr c, w')" "listing_law K"
  shows "saturating_add (length (entries c)) (invalid_names c) \<le> ENTRIES_MOST"
    and "candidates_ok None (entries c)"
proof -
  obtain h es where *: "k_read_dir K h (root_fd R) = Inr es" "list_all is_ok es"
    "map cand_name (entries c) = sort (filter nameable (listed es))"
    "invalid_names c = length (filter (\<lambda>n. \<not> nameable n) (listed es))"
    "length (listed es) \<le> ENTRIES_MOST"
    "list_all (\<lambda>c. \<exists>u v. wf_capture K R (cand_name c) True budget u = (cand_metadata c, v)) (entries c)"
    using assms(1) by (rule catalog_root_ok)
  have "length (entries c) = length (filter nameable (listed es))"
    using *(3) by (metis length_map length_sort)
  then show "saturating_add (length (entries c)) (invalid_names c) \<le> ENTRIES_MOST"
    using *(4,5) sum_length_filter_compl [of nameable "listed es"] by (simp add: saturating_add_def)
  have "filter is_ok es = es"
    using *(2) by (simp add: list_all_iff)
  then have "distinct (listed es)"
    using assms(2) *(1) unfolding listing_law_def listed_def by (metis distinct_filter)
  then have sorted: "sorted_wrt (<) (map cand_name (entries c))"
    unfolding *(3) by (simp add: strict_sorted_iff)
  have "cand_name x \<in> set (sort (filter nameable (listed es)))" if "x \<in> set (entries c)" for x
    using that unfolding *(3) [symmetric] by simp
  then have valid: "\<forall>x \<in> set (entries c). valid_name (cand_name x)"
    by (auto simp: nameable_def)
  have "\<forall>x \<in> set (entries c). \<forall>t. cand_metadata x = Inr t \<longrightarrow> length t \<le> METADATA_MOST \<and> NUL \<notin> set t"
    using *(6) wf_metadata_bounded by (fastforce simp: list_all_iff)
  then show "candidates_ok None (entries c)"
    using candidates_ok_sorted [OF sorted valid] by simp
qed

lemma response_accepted:
  assumes "wf_worker K from_json worker_var binding_var req w = (result, w')" "listing_law K"
  shows "response_validate (k_sha256 K) req (wf_response req result) = Inr ()"
proof (cases result)
  case (Inl e)
  then show ?thesis
    by (simp add: response_validate_def wf_response_def path_eq_def split: wf_operation.splits)
next
  case (Inr p)
  then obtain R budget u v where *: "case wf_operation req of
       Catalog \<Rightarrow> \<exists>c. catalog_root K R budget u = (Inr c, v) \<and> p = Catalog_Payload c
     | Load name \<Rightarrow> \<exists>s. load_root K R name budget u = (Inr s, v) \<and> p = Source_Payload s"
    using assms(1) unfolding wf_worker_def wf_acquire_def sys_ok
    by (cases "wf_operation req") (auto simp: sys_ok)
  show ?thesis
  proof (cases "wf_operation req")
    case Catalog
    then obtain c where c: "catalog_root K R budget u = (Inr c, v)" "p = Catalog_Payload c"
      using * by auto
    show ?thesis
      using catalog_accepted [OF c(1) assms(2)]
      by (simp add: response_validate_def wf_response_def path_eq_def Catalog Inr c(2) result_simps)
  next
    case (Load name)
    then obtain s t x where s: "p = Source_Payload s" "wf_capture K R name False budget u = (Inr t, x)"
      "s = \<lparr>wf_text = t, wf_sha256 = k_sha256 K t\<rparr>"
      using * by (auto simp: load_root_def sys_ok)
    have "length t \<le> FILE_MOST" "NUL \<notin> set t"
      using s(2) by (auto elim!: wf_capture_ok simp: source_content_ok cap_of_def)
    then show ?thesis
      by (simp add: response_validate_def wf_response_def path_eq_def Load Inr s result_simps)
  qed
qed

text \<open>
  the response built from whatever the worker answered, catalogue, source or failure, passes
  the validation the coordinator applies before it trusts it.
\<close>

theorem workflow_response_accepted:
  assumes "wf_worker K from_json worker_var binding_var req w = (result, w')" "listing_law K"
  shows "response_validate (k_sha256 K) req (wf_response req result) = Inr ()"
  using assms by (rule response_accepted)

end
