(* ===== verification/Workflow_Process.thy ===== *)
theory Workflow_Process
  imports Workflow_Source
begin

text \<open>
  The coordinator's side of a workflow request (\<open>workflows/process.rs\<close>): the worker is a child whose
  three pipes are served in rounds until it has exited and both outputs are at their end.  What the
  operating system answers in each round is a parameter.
\<close>

section \<open>One round\<close>

record round =
  rd_cancel :: bool
  rd_now :: instant
  rd_write :: "io_kind + nat"
  rd_out :: "io_kind + bytes"
  rd_err :: "io_kind + bytes"
  rd_wait :: "errno + nat option option"

text \<open>
  \<open>waitid\<close> answers \<open>None\<close> while the child runs, and its exit status otherwise (\<open>None\<close> when a signal
  ended it).
\<close>

record exchange_state =
  stdin_open :: bool
  sent :: nat
  stdout_open :: bool
  reply_out :: bytes
  stderr_open :: bool
  errors :: bytes
  status :: "nat option option"

definition talk_start :: exchange_state where
  "talk_start = \<lparr>stdin_open = True, sent = 0, stdout_open = True, reply_out = [], stderr_open = True,
     errors = [], status = None\<rparr>"

definition patient :: "io_kind \<Rightarrow> bool" where
  "patient k \<longleftrightarrow> k = WouldBlock \<or> k = Interrupted"

text \<open>A write takes at most what it is offered.\<close>

definition feed :: "bytes \<Rightarrow> round \<Rightarrow> exchange_state \<Rightarrow> failure + exchange_state" where
  "feed input r s =
     (if \<not> stdin_open s then Inr s
      else rbind
        (case rd_write r of
           Inr n \<Rightarrow>
             let written = min n (length input - sent s) in
             if written = 0 \<and> sent s < length input then Inl Worker
             else Inr (s\<lparr>sent := sent s + written\<rparr>)
         | Inl k \<Rightarrow> if patient k then Inr s else Inl Worker)
        (\<lambda>s. Inr (if sent s = length input then s\<lparr>stdin_open := False\<rparr> else s)))"

definition PIPE_BUFFER :: nat where "PIPE_BUFFER = 8192"

text \<open>\<open>read_pipe\<close>: the pipe (open or not), what it has delivered, and the most it may deliver.\<close>

definition read_pipe :: "io_kind + bytes \<Rightarrow> nat \<Rightarrow> bool \<Rightarrow> bytes \<Rightarrow> failure + bool \<times> bytes" where
  "read_pipe answer limit is_open got =
     (if \<not> is_open then Inr (False, got)
      else case answer of
        Inr chunk \<Rightarrow>
          let buffer = take PIPE_BUFFER chunk in
          if buffer = [] then Inr (False, got)
          else if length buffer > limit - length got then Inl Protocol
          else Inr (True, got @ buffer)
      | Inl k \<Rightarrow> if patient k then Inr (True, got) else Inl Worker)"

definition observe_exit :: "round \<Rightarrow> exchange_state \<Rightarrow> failure + exchange_state" where
  "observe_exit r s =
     (if status s = None then rbind (map_err (\<lambda>_. Worker) (rd_wait r)) (\<lambda>got. Inr (s\<lparr>status := got\<rparr>))
      else Inr s)"

text \<open>A round ends the exchange with its output, or leaves the state of the next round.\<close>

definition exchange_round :: "bytes \<Rightarrow> instant \<Rightarrow> round \<Rightarrow> exchange_state \<Rightarrow> failure + (bytes + exchange_state)" where
  "exchange_round input deadline r s =
     rbind (ensure (\<not> rd_cancel r) Cancelled) (\<lambda>_.
     rbind (ensure (rd_now r < deadline) Timeout) (\<lambda>_.
     rbind (feed input r s) (\<lambda>s.
     rbind (read_pipe (rd_out r) REPLY_MOST (stdout_open s) (reply_out s)) (\<lambda>(o1, got).
     rbind (read_pipe (rd_err r) 4096 (stderr_open s) (errors s)) (\<lambda>(o2, complaint).
     rbind (observe_exit r (s\<lparr>stdout_open := o1, reply_out := got, stderr_open := o2, errors := complaint\<rparr>)) (\<lambda>s.
     case status s of
       Some ended \<Rightarrow>
         if \<not> stdout_open s \<and> \<not> stderr_open s then
           if ended \<noteq> Some 0 \<or> sent s \<noteq> length input then Inl Worker else Inr (Inl (reply_out s))
         else Inr (Inr s)
     | None \<Rightarrow> Inr (Inr s)))))))"

section \<open>The exchange\<close>

text \<open>The loop; \<open>None\<close> stands for exhausted fuel.\<close>

primrec exchange_rounds ::
  "bytes \<Rightarrow> instant \<Rightarrow> (nat \<Rightarrow> round) \<Rightarrow> nat \<Rightarrow> nat \<Rightarrow> exchange_state \<Rightarrow> (failure + bytes) option" where
  "exchange_rounds input deadline env 0 n s = None"
| "exchange_rounds input deadline env (Suc fuel) n s =
     (case exchange_round input deadline (env n) s of
        Inl e \<Rightarrow> Some (Inl e)
      | Inr (Inl out) \<Rightarrow> Some (Inr out)
      | Inr (Inr t) \<Rightarrow> exchange_rounds input deadline env fuel (Suc n) t)"

text \<open>A round ends with a sleep of one millisecond.\<close>

definition ROUND_SLEEP :: duration where "ROUND_SLEEP = 10 ^ 6"

definition exchange_fuel :: "duration \<Rightarrow> nat" where
  "exchange_fuel limit = limit div ROUND_SLEEP + 2"

text \<open>
  The parts that start the child can fail; \<open>spawned\<close> says whether they did.
\<close>

definition wf_exchange ::
  "bool \<Rightarrow> bool \<Rightarrow> instant \<Rightarrow> (nat \<Rightarrow> round) \<Rightarrow> bytes \<Rightarrow> duration \<Rightarrow> (failure + bytes) option" where
  "wf_exchange cancelled spawned started env input limit =
     (if length input > INPUT_MOST then Some (Inl Protocol)
      else if cancelled then Some (Inl Cancelled)
      else if limit = 0 then Some (Inl Timeout)
      else if \<not> spawned then Some (Inl Worker)
      else exchange_rounds input (started + limit) env (exchange_fuel limit) 0 talk_start)"

text \<open>
  \<open>invoke\<close>: whether a cancel was seen, what preparing the jail gave, the exchange it runs, and
  \<open>serde_json\<close> are parameters.
\<close>

definition empty_catalog :: catalog where
  "empty_catalog = \<lparr>entries = [], invalid_names = 0\<rparr>"

definition wf_invoke ::
  "kernel \<Rightarrow> (wf_request \<Rightarrow> bytes) \<Rightarrow> (bytes \<Rightarrow> response option) \<Rightarrow> bool \<Rightarrow> error + unit \<Rightarrow> bool
     \<Rightarrow> (bytes \<Rightarrow> failure + bytes) \<Rightarrow> wf_request \<Rightarrow> payload wf" where
  "wf_invoke K to_json from_json cancelled prepared cancelled_after exchange req =
     sbind (slift (wf_validate req)) (\<lambda>_.
     sbind (scheck (\<not> cancelled) Cancelled) (\<lambda>_.
     case prepared of
       Inl e \<Rightarrow>
         if fst e = io_kind.NotFound \<and> wf_operation req = Catalog then
           sbind (budget_new K) (\<lambda>budget.
           stry (Root_open K (wf_root req) budget) (\<lambda>opened.
           if opened = Inl NotFound then sreturn (Catalog_Payload empty_catalog) else sfail Worker))
         else sfail Worker
     | Inr _ \<Rightarrow>
         sbind (scheck (\<not> cancelled_after) Cancelled) (\<lambda>_.
         sbind (slift (exchange (to_json req))) (\<lambda>bs.
         sbind (slift (ok_or (from_json bs) Protocol)) (\<lambda>res.
         sbind (slift (response_validate (k_sha256 K) req res)) (\<lambda>_.
         slift (res_result res)))))))"


section \<open>What an exchange carries\<close>

definition accepted :: "bytes \<Rightarrow> (io_kind + nat) list \<Rightarrow> bytes" where
  "accepted input ws = take (sum_list (map (case_sum (\<lambda>_. 0) id) ws)) input"

definition piped :: "(io_kind + bytes) list \<Rightarrow> bytes" where
  "piped rs = concat (map (case_sum (\<lambda>_. []) (take PIPE_BUFFER)) (takeWhile (\<lambda>r. r \<noteq> Inr []) rs))"

definition writes :: "(nat \<Rightarrow> round) \<Rightarrow> nat \<Rightarrow> (io_kind + nat) list" where
  "writes env n = map (\<lambda>i. rd_write (env i)) [0..<n]"

definition outs :: "(nat \<Rightarrow> round) \<Rightarrow> nat \<Rightarrow> (io_kind + bytes) list" where
  "outs env n = map (\<lambda>i. rd_out (env i)) [0..<n]"

definition talk_at :: "bytes \<Rightarrow> (nat \<Rightarrow> round) \<Rightarrow> nat \<Rightarrow> exchange_state \<Rightarrow> bool" where
  "talk_at input env n s \<longleftrightarrow>
     sent s \<le> length input \<and> (\<not> stdin_open s \<longrightarrow> sent s = length input)
     \<and> accepted input (writes env n) = take (sent s) input
     \<and> reply_out s = piped (outs env n) \<and> (stdout_open s \<longleftrightarrow> Inr [] \<notin> set (outs env n))
     \<and> length (reply_out s) \<le> REPLY_MOST"

lemma talk_at_start: "talk_at input env 0 talk_start"
  by (simp add: talk_at_def talk_start_def accepted_def writes_def outs_def piped_def)

lemma PIPE_BUFFER_pos [simp]: "PIPE_BUFFER \<noteq> 0"
  by (simp add: PIPE_BUFFER_def)

lemma take_min_add: "take (min (length xs) (min t (length xs) + k)) xs = take (t + k) xs"
  by (cases "t \<le> length xs") (auto simp: min_def)

lemma feed_ok:
  assumes "feed input r s = Inr t" "sent s \<le> length input" "\<not> stdin_open s \<longrightarrow> sent s = length input"
    "accepted input ws = take (sent s) input"
  shows "sent t \<le> length input \<and> (\<not> stdin_open t \<longrightarrow> sent t = length input)
    \<and> accepted input (ws @ [rd_write r]) = take (sent t) input
    \<and> reply_out t = reply_out s \<and> stdout_open t = stdout_open s"
proof -
  let ?T = "sum_list (map (case_sum (\<lambda>_. 0) id) ws)"
  have "min ?T (length input) = sent s"
    using assms(2,4) unfolding accepted_def by (metis length_take min.absorb2 min.commute)
  then have "take (min (length input) (sent s + k)) input = take (?T + k) input" for k
    using take_min_add [of input ?T k] by simp
  then have grow: "accepted input (ws @ [rd_write r]) =
      take (min (length input) (sent s + (case rd_write r of Inl _ \<Rightarrow> 0 | Inr n \<Rightarrow> n))) input"
    by (simp add: accepted_def split: sum.splits)
  have sum: "sent s + min n (length input - sent s) = min (length input) (sent s + n)" for n
    using assms(2) by simp
  show ?thesis
  proof (cases "stdin_open s")
    case False
    then show ?thesis
      using assms(1-3) grow by (simp add: feed_def)
  next
    case True
    show ?thesis
    proof (cases "rd_write r")
      case (Inl k)
      then show ?thesis
        using assms(1,2) grow True by (auto simp: feed_def split: if_splits)
    next
      case (Inr n)
      let ?t = "s\<lparr>sent := min (length input) (sent s + n)\<rparr>"
      have "t = (if sent ?t = length input then ?t\<lparr>stdin_open := False\<rparr> else ?t)"
        using assms(1) True Inr by (auto simp: feed_def Let_def sum result_simps split: if_splits)
      then show ?thesis
        using grow Inr True by (simp, linarith)
    qed
  qed
qed

lemma piped_snoc:
  "piped (rs @ [r]) =
     (if Inr [] \<in> set rs then piped rs else piped rs @ case_sum (\<lambda>_. []) (take PIPE_BUFFER) r)"
proof (cases "Inr [] \<in> set rs")
  case True
  then have "takeWhile (\<lambda>r. r \<noteq> Inr []) (rs @ [r]) = takeWhile (\<lambda>r. r \<noteq> Inr []) rs"
    by (auto intro: takeWhile_append1)
  then show ?thesis
    using True by (simp add: piped_def)
next
  case False
  then have all: "\<forall>r \<in> set rs. r \<noteq> Inr []"
    by auto
  then have longer: "takeWhile (\<lambda>r. r \<noteq> Inr []) (rs @ [r]) = rs @ takeWhile (\<lambda>r. r \<noteq> Inr []) [r]"
    by (rule takeWhile_append2 [OF bspec])
  have whole: "takeWhile (\<lambda>r. r \<noteq> Inr []) rs = rs"
    unfolding takeWhile_eq_all_conv by (rule all)
  show ?thesis
    unfolding piped_def longer whole using False by (auto split: sum.splits)
qed

lemma read_pipe_ok:
  assumes "read_pipe answer limit is_open got = Inr (still, now)" "length got \<le> limit"
    "got = piped rs" "is_open \<longleftrightarrow> Inr [] \<notin> set rs"
  shows "now = piped (rs @ [answer]) \<and> (still \<longleftrightarrow> Inr [] \<notin> set (rs @ [answer])) \<and> length now \<le> limit"
  using assms unfolding piped_snoc
  by (auto simp: read_pipe_def Let_def split: if_splits sum.splits)

lemma round_ok:
  assumes "exchange_round input deadline (env n) s = Inr x" "talk_at input env n s"
  shows "case x of
      Inr t \<Rightarrow> talk_at input env (Suc n) t
    | Inl out \<Rightarrow> out = piped (outs env (Suc n)) \<and> Inr [] \<in> set (outs env (Suc n))
        \<and> length out \<le> REPLY_MOST \<and> accepted input (writes env (Suc n)) = input"
proof -
  obtain s1 o1 got o2 complaint s2 where
    fed: "feed input (env n) s = Inr s1"
    and out: "read_pipe (rd_out (env n)) REPLY_MOST (stdout_open s1) (reply_out s1) = Inr (o1, got)"
    and exit: "observe_exit (env n) (s1\<lparr>stdout_open := o1, reply_out := got, stderr_open := o2, errors := complaint\<rparr>) = Inr s2"
    and last: "(case status s2 of
       Some ended \<Rightarrow>
         if \<not> stdout_open s2 \<and> \<not> stderr_open s2 then
           if ended \<noteq> Some 0 \<or> sent s2 \<noteq> length input then Inl Worker else Inr (Inl (reply_out s2))
         else Inr (Inr s2)
     | None \<Rightarrow> Inr (Inr s2)) = Inr x"
    using assms(1) unfolding exchange_round_def rbind_eq_Inr by (auto simp: rbind_eq_Inr)
  have grow: "writes env (Suc n) = writes env n @ [rd_write (env n)]" "outs env (Suc n) = outs env n @ [rd_out (env n)]"
    by (simp_all add: writes_def outs_def)
  have s1: "sent s1 \<le> length input \<and> (\<not> stdin_open s1 \<longrightarrow> sent s1 = length input)
    \<and> accepted input (writes env (Suc n)) = take (sent s1) input
    \<and> reply_out s1 = reply_out s \<and> stdout_open s1 = stdout_open s"
    unfolding grow using assms(2) by (intro feed_ok [OF fed]) (auto simp: talk_at_def)
  have got: "got = piped (outs env (Suc n)) \<and> (o1 \<longleftrightarrow> Inr [] \<notin> set (outs env (Suc n))) \<and> length got \<le> REPLY_MOST"
    unfolding grow using assms(2) s1 by (intro read_pipe_ok [OF out]) (auto simp: talk_at_def)
  have s2: "sent s2 = sent s1" "stdin_open s2 = stdin_open s1" "reply_out s2 = got" "stdout_open s2 = o1"
    using exit by (auto simp: observe_exit_def result_simps split: if_splits)
  show ?thesis
    using last s1 got s2 by (auto simp: talk_at_def split: option.splits if_splits)
qed

lemma exchange_rounds_ok:
  assumes "exchange_rounds input deadline env fuel n s = Some (Inr out)" "talk_at input env n s"
  shows "\<exists>m. out = piped (outs env m) \<and> Inr [] \<in> set (outs env m)
    \<and> length out \<le> REPLY_MOST \<and> accepted input (writes env m) = input"
  using assms
proof (induction fuel arbitrary: n s)
  case (Suc fuel)
  then obtain x where x: "exchange_round input deadline (env n) s = Inr x"
    by (auto split: sum.splits)
  show ?case
    using round_ok [OF x Suc.prems(2)] Suc.IH Suc.prems(1) x by (cases x) auto
qed simp

text \<open>
  an exchange that succeeds has handed the child the whole request, and returns every byte the
  child wrote before it closed its output, at most 7 MiB of them.
\<close>

theorem workflow_exchange_exact:
  assumes "wf_exchange cancelled spawned started env input limit = Some (Inr out)"
  shows "\<exists>m. accepted input (writes env m) = input \<and> out = piped (outs env m)
    \<and> Inr [] \<in> set (outs env m) \<and> length out \<le> REPLY_MOST \<and> length input \<le> INPUT_MOST"
proof -
  have "exchange_rounds input (started + limit) env (exchange_fuel limit) 0 talk_start = Some (Inr out)"
    "length input \<le> INPUT_MOST"
    using assms by (auto simp: wf_exchange_def split: if_splits)
  then show ?thesis
    using exchange_rounds_ok [OF _ talk_at_start] by blast
qed

lemma rounds_end:
  assumes "\<And>i. rd_now (env i) + ROUND_SLEEP \<le> rd_now (env (Suc i))"
    and "deadline \<le> rd_now (env n) + fuel * ROUND_SLEEP"
  shows "exchange_rounds input deadline env (Suc fuel) n s \<noteq> None"
  using assms(2)
proof (induction fuel arbitrary: n s)
  case 0
  then show ?case
    by (simp add: exchange_round_def ensure_def)
next
  case (Suc fuel)
  have "deadline \<le> rd_now (env (Suc n)) + fuel * ROUND_SLEEP"
    using Suc.prems assms(1) [of n] by simp
  then have "exchange_rounds input deadline env (Suc fuel) (Suc n) t \<noteq> None" for t
    by (rule Suc.IH)
  then show ?case
    by (subst exchange_rounds.simps(2)) (auto split: sum.splits simp del: exchange_rounds.simps)
qed


section \<open>From request to answer\<close>

text \<open>
  when the child is the worker and its response crosses the pipe, \<open>invoke\<close> returns exactly what
  the worker computed, failure or payload.
\<close>

theorem workflow_invoke_answers:
  assumes "wf_worker K binding_of worker_var binding_var req u = (result, u')" "listing_law K"
    and "exchange (to_json req) = Inr (res_json (wf_response req result))"
    and "from_json (res_json (wf_response req result)) = Some (wf_response req result)"
    and "wf_validate req = Inr ()"
  shows "wf_invoke K to_json from_json False (Inr ()) False exchange req w = (result, w)"
proof -
  have "response_validate (k_sha256 K) req (wf_response req result) = Inr ()"
    using assms(1,2) by (rule response_accepted)
  then show ?thesis
    using assms(3-5)
    by (simp add: wf_invoke_def sbind_def slift_def scheck_def) (simp add: wf_response_def)
qed

end
