(* ===== verification/Workflow_Demo.thy ===== *)
theory Workflow_Demo
  imports Workflow_Process File_Demo
begin

text \<open>
  The workflow theorems at a concrete kernel: a directory with one well-formed name and one that is
  not, whose source is two fence lines.
\<close>

definition skill_text :: bytes where
  "skill_text = ''---'' @ [newline] @ ''---'' @ [newline]"

definition skill_kernel :: kernel where
  "skill_kernel = demo_kernel\<lparr>
     k_fstat := \<lambda>h f. Inr (if f = 0 then dir_stat else file_stat 8),
     k_statat := \<lambda>h f p n. Inr (file_stat 8),
     k_read_to_end := \<lambda>h f n. Inr skill_text,
     k_read_dir := \<lambda>h f. Inr [Inr ''.'', Inr ''a'', Inr ''B'']\<rparr>"

lemma skill_answers:
  "k_fstat skill_kernel h f = Inr (if f = 0 then dir_stat else file_stat 8)"
  "k_statat skill_kernel h f p n = Inr (file_stat 8)"
  "k_read_to_end skill_kernel h f m = Inr skill_text"
  "k_read_dir skill_kernel h f = Inr [Inr ''.'', Inr ''a'', Inr ''B'']"
  "k_open_root skill_kernel h p = Inr 0" "k_open_subdir skill_kernel h f p = Inr 0"
  "k_openat skill_kernel h f p rw n = Inr 3" "k_now skill_kernel h = slept h"
  by (simp_all add: skill_kernel_def demo_kernel_def)

lemma skill_slept [simp]:
  "slept [] = 0" "slept ((c, ok) # h) = (case c of Sleep d \<Rightarrow> d | _ \<Rightarrow> 0) + slept h"
  "slept (h @ g) = slept h + slept g"
  by (simp_all add: slept_def)

definition skill_root :: root where
  "skill_root = \<lparr>root_path = ''/w'', root_fd = 0\<rparr>"

lemma skill_root_fields: "root_path skill_root = ''/w''" "root_fd skill_root = 0"
  by (simp_all add: skill_root_def)

definition skill_start :: world where
  "skill_start = \<lparr>history = [], names = 0\<rparr>"

lemma skill_names: "valid_name ''a''" "\<not> valid_name ''B''" "from_utf8 ''a''"
  by code_simp+

lemma skill_root_ok: "root_ok ''/w''"
  by (simp add: root_ok_def components_def is_absolute_def slash_def component_of_def NUL_def)

lemma skill_regular: "regular (file_stat 8) = Inr ()"
  by (simp add: regular_ok regular_mode_def file_stat_def FILE_MOST_def)

lemma skill_bytes: "from_utf8 skill_text" "NUL \<notin> set skill_text" "length skill_text = 8"
  by code_simp+

lemma skill_content: "source_content True skill_text = Inr skill_text" "source_content False skill_text = Inr skill_text"
proof -
  have "metadata_end skill_text = Inr 8"
    by (simp add: metadata_end_def skill_text_def newline_def delimiter_def strip_byte_def METADATA_MOST_def)
  then show "source_content True skill_text = Inr skill_text" "source_content False skill_text = Inr skill_text"
    using skill_bytes by (simp_all add: source_content_ok cap_of_def METADATA_MOST_def FILE_MOST_def)
qed

lemma skill_size: "unat (st_size (file_stat 8)) = 8"
  by (simp add: file_stat_def)

lemmas skill_run = sbind_def stry_def call_as_def ask_def scheck_def slift_def sreturn_def Let_def
  budget_check_def wf_fstat_def same_directory_def root_validate_def Root_open_def skill_answers
  skill_names skill_root_ok skill_regular skill_bytes

lemma skill_capture:
  "\<exists>w'. wf_capture skill_kernel skill_root ''a'' meta b \<lparr>history = h, names = n\<rparr> = (Inr skill_text, w')
    \<and> slept (history w') = 0" if "slept h = 0" "0 < b"
proof -
  have take: "take (Suc (cap_of meta)) skill_text = skill_text" "min 8 (Suc (cap_of meta)) = 8"
    "source_content meta skill_text = Inr skill_text"
    using skill_content skill_bytes by (cases meta; simp add: cap_of_def METADATA_MOST_def FILE_MOST_def)+
  show ?thesis
    using that take
    by (simp add: wf_capture_def skill_root_def skill_run skill_size same_object_def)
qed


lemma skill_load: "\<exists>s w'. load_root skill_kernel skill_root ''a'' 1 skill_start = (Inr s, w')"
proof -
  obtain v where v: "wf_capture skill_kernel skill_root ''a'' False (Suc 0) skill_start = (Inr skill_text, v)"
    "slept (history v) = 0"
    using skill_capture [of "[]" "Suc 0" False 0] by (auto simp: skill_start_def)
  show ?thesis
    by (simp add: load_root_def sbind_def v budget_check_def scheck_def slift_def skill_answers sreturn_def)
qed


lemma skill_catalog: "\<exists>c w'. catalog_root skill_kernel skill_root b \<lparr>history = h, names = n\<rparr> = (Inr c, w')"
  if quiet: "slept h = 0" and pos: "0 < b"
proof -
  let ?h = "h @ [(Fstat 0, True), (Read_dir 0, True), (Read_entry 0, True), (Read_entry 0, True), (Read_entry 0, True)]"
  have "slept ?h = 0"
    using that by (simp add:)
  then obtain v where v: "wf_capture skill_kernel skill_root ''a'' True b \<lparr>history = ?h, names = n\<rparr> = (Inr skill_text, v)"
    "slept (history v) = 0"
    using skill_capture [of ?h b True n] pos by blast
  have names: "list_names skill_kernel 0 b [Inr ''.'', Inr ''a'', Inr ''B''] [] 0 0
      \<lparr>history = h @ [(Fstat 0, True), (Read_dir 0, True)], names = n\<rparr> = (Inr ([''a''], 1), \<lparr>history = ?h, names = n\<rparr>)"
    using that by (simp add: skill_run ENTRIES_MOST_def)
  have all: "read_all skill_kernel skill_root b [''a''] [] \<lparr>history = ?h, names = n\<rparr> =
      (Inr [\<lparr>cand_name = ''a'', cand_metadata = Inr skill_text\<rparr>], v)"
    using v that by (simp add: sbind_def stry_def budget_check_def scheck_def slift_def sreturn_def skill_answers)
  show ?thesis
    using quiet pos v(2)
    by (simp add: catalog_root_def skill_run skill_root_fields names all same_object_def
        del: list_names.simps read_all.simps)
qed

theorem workflow_catalog_exact_witness:
  "\<exists>c w'. catalog_root skill_kernel skill_root 1 skill_start = (Inr c, w')
     \<and> length (entries c) + invalid_names c \<le> ENTRIES_MOST"
proof -
  obtain c w' where run: "catalog_root skill_kernel skill_root 1 skill_start = (Inr c, w')"
    using skill_catalog [of "[]" 1 0] by (auto simp: skill_start_def)
  show ?thesis
    using run workflow_catalog_exact [OF run] by auto
qed

definition skill_request :: wf_request where
  "skill_request = \<lparr>wf_version = 1, wf_root = ''/w'', wf_operation = Catalog\<rparr>"

lemma skill_request_fields: "wf_root skill_request = ''/w''" "wf_operation skill_request = Catalog"
  by (simp_all add: skill_request_def)

definition skill_binding :: wf_binding where
  "skill_binding = \<lparr>wfb_root = ''/w'', wfb_device = 1, wfb_inode = 2\<rparr>"

lemma skill_valid: "wf_validate skill_request = Inr ()"
proof -
  have "from_utf8 ''/w''"
    by code_simp
  then show ?thesis
    by (simp add: wf_validate_def skill_request_def skill_root_ok)
qed

lemma skill_worker:
  "\<exists>c w'. wf_worker skill_kernel (\<lambda>_. Some skill_binding) (Some ''1'') (Some ''b'') skill_request skill_start
     = (Inr (Catalog_Payload c), w')"
proof -
  let ?h = "[(Open_root ''/w'', True), (Fstat 0, True)]"
  have dir: "st_dev dir_stat = 1" "st_ino dir_stat = 2"
    by (simp_all add: dir_stat_def file_stat_def)
  obtain c w' where run: "catalog_root skill_kernel skill_root ACQUISITION_TIME \<lparr>history = ?h, names = 0\<rparr> = (Inr c, w')"
    using skill_catalog [of ?h ACQUISITION_TIME 0] by (auto simp: ACQUISITION_TIME_def)
  then show ?thesis
    by (simp add: wf_worker_def wf_acquire_def budget_new_def binding_matches_def skill_run skill_valid
        INPUT_MOST_def dir path_eq_def skill_start_def skill_request_fields skill_binding_def
        ACQUISITION_TIME_def skill_root_def)
qed

lemma skill_listing: "listing_law skill_kernel"
  by (simp add: listing_law_def skill_answers)

theorem workflow_response_accepted_witness:
  "\<exists>result w'. wf_worker skill_kernel (\<lambda>_. Some skill_binding) (Some ''1'') (Some ''b'') skill_request skill_start
       = (result, w')
     \<and> response_validate (k_sha256 skill_kernel) skill_request (wf_response skill_request result) = Inr ()"
proof -
  obtain c w' where run: "wf_worker skill_kernel (\<lambda>_. Some skill_binding) (Some ''1'') (Some ''b'') skill_request skill_start
      = (Inr (Catalog_Payload c), w')"
    using skill_worker by blast
  show ?thesis
    using run workflow_response_accepted [OF run skill_listing] by blast
qed

theorem workflow_invoke_answers_witness:
  "\<exists>result w'. wf_worker skill_kernel (\<lambda>_. Some skill_binding) (Some ''1'') (Some ''b'') skill_request skill_start
       = (result, w')
     \<and> wf_invoke skill_kernel (\<lambda>_. ''q'') (\<lambda>_. Some (wf_response skill_request result)) False (Inr ()) False
         (\<lambda>_. Inr ''r'') skill_request skill_start = (result, skill_start)"
proof -
  obtain result w' where run: "wf_worker skill_kernel (\<lambda>_. Some skill_binding) (Some ''1'') (Some ''b'') skill_request skill_start
      = (result, w')"
    by fastforce
  show ?thesis
    using run workflow_invoke_answers [OF run skill_listing, where exchange = "\<lambda>_. Inr ''r''" and to_json = "\<lambda>_. ''q''"
        and res_json = "\<lambda>_. ''r''" and from_json = "\<lambda>_. Some (wf_response skill_request result)"] skill_valid
    by blast
qed

text \<open>A child that takes the request in one write, answers in the second round and exits in the third.\<close>

definition short_talk :: "nat \<Rightarrow> round" where
  "short_talk n = \<lparr>rd_cancel = False, rd_now = n * ROUND_SLEEP,
     rd_write = (if n = 0 then Inr 1 else Inl WouldBlock),
     rd_out = (if n = 0 then Inl WouldBlock else if n = 1 then Inr ''ok'' else Inr []),
     rd_err = Inr [], rd_wait = Inr (if n = 2 then Some (Some 0) else None)\<rparr>"

lemma short_talk_runs: "wf_exchange False True 0 short_talk ''q'' (4 * ROUND_SLEEP) = Some (Inr ''ok'')"
proof -
  have fuel: "exchange_fuel (4 * ROUND_SLEEP) = Suc (Suc (Suc 3))"
    by (simp add: exchange_fuel_def ROUND_SLEEP_def)
  show ?thesis
    unfolding wf_exchange_def fuel exchange_rounds.simps(2)
    by (simp add: exchange_round_def feed_def read_pipe_def observe_exit_def talk_start_def short_talk_def
        patient_def ROUND_SLEEP_def INPUT_MOST_def REPLY_MOST_def PIPE_BUFFER_def Let_def)
qed

theorem workflow_exchange_exact_witness:
  "\<exists>m. accepted ''q'' (writes short_talk m) = ''q'' \<and> ''ok'' = piped (outs short_talk m)"
  using workflow_exchange_exact [OF short_talk_runs] by blast


end
