(* ===== verification/Worker_Demo.thy ===== *)
theory Worker_Demo
  imports File_Worker File_Demo
begin

text \<open>The worker theorems at a concrete kernel, request and coordinator.\<close>

definition demo_input :: worker_input where
  "demo_input = \<lparr>in_marker = Some ''1'', in_request = Inr ''q'', in_sent = Inr (), in_lease = Inr (''CFL1'', [3])\<rparr>"

definition demo_look :: request where
  "demo_look = \<lparr>path = ''a/b'', operation = Observe, request_guard = None\<rparr>"

theorem worker_observation_reads_only_witness:
  "\<exists>r w' es. serve demo_kernel (\<lambda>_. Inr demo_look) demo_input start = (r, w')
     \<and> history w' = history start @ es \<and> list_all harmless es"
proof -
  obtain r w' where run: "serve demo_kernel (\<lambda>_. Inr demo_look) demo_input start = (r, w')"
    by fastforce
  show ?thesis
    using run worker_observation_reads_only [OF run, of "''q''" demo_look]
    by (simp add: demo_input_def demo_look_def)
qed

definition demo_outcome :: outcome where
  "demo_outcome = \<lparr>o_json = Inr ''q'', o_prepared = Inr (), o_pair = Inr (), o_spawned = Inr (), o_readers = Inr (),
     o_request = Inr (), o_binding = Inr (replicate 64 (CHR ''0'')), o_domain = Inr (), o_lease = Inr (),
     o_valid = Inr (), o_handoff = Inr (), o_output = Inr ''{}'', o_waited = Inr (), o_exit = Inr (True, ''0''),
     o_joined = Inr [], o_restored = []\<rparr>"

definition demo_readers :: "reply \<Rightarrow> commit_report \<Rightarrow> readers" where
  "demo_readers rep c = \<lparr>rd_parse = \<lambda>_. Inr JNull, rd_reply = \<lambda>_. Inr rep, rd_snapshot = \<lambda>_. Inl (OtherKind, []),
     rd_presence = \<lambda>_. Inl (OtherKind, []), rd_reading = \<lambda>_. Inl (OtherKind, []), rd_commit = \<lambda>_. Inr c,
     rd_request = \<lambda>_. Inr demo_swap\<rparr>"



end
