(* ===== verification/Event_Queue.thy ===== *)
theory Event_Queue
  imports Event_Schema
begin

text \<open>
  The process-wide event queue (\<open>events/mod.rs\<close>).  Any number of threads emit; each emission is the
  sequence of atomic accesses the code makes, so that emissions interleave with each other, with the
  receiver and with its end.  The 64-bit counters are natural numbers with the source's own checked,
  saturating and wrapping additions written out.
\<close>

section \<open>Counters and the bounded encoder\<close>

definition QUEUED_EVENTS :: nat where "QUEUED_EVENTS = 256"

datatype emitted = Disabled | Queued | Full | Closed | Encoding | Exhausted

record event_loss =
  loss_abandoned :: nat
  loss_full :: nat
  loss_closed :: nat
  loss_encoding :: nat
  loss_exhausted :: nat

definition Loss_default :: event_loss where
  "Loss_default = \<lparr>loss_abandoned = 0, loss_full = 0, loss_closed = 0, loss_encoding = 0, loss_exhausted = 0\<rparr>"

record counters =
  ct_active :: nat
  ct_enqueued :: nat
  ct_dequeued :: nat
  ct_receiver_closed :: bool
  ct_full :: nat
  ct_closed :: nat
  ct_encoding :: nat
  ct_exhausted :: nat

definition Counters_default :: counters where
  "Counters_default =
     \<lparr>ct_active = 0, ct_enqueued = 0, ct_dequeued = 0, ct_receiver_closed = False,
      ct_full = 0, ct_closed = 0, ct_encoding = 0, ct_exhausted = 0\<rparr>"

definition counters_snapshot :: "counters \<Rightarrow> event_loss" where
  "counters_snapshot c =
     \<lparr>loss_abandoned = (if ct_receiver_closed c then ct_enqueued c - ct_dequeued c else 0),
      loss_full = ct_full c, loss_closed = ct_closed c, loss_encoding = ct_encoding c,
      loss_exhausted = ct_exhausted c\<rparr>"

definition checked_inc :: "nat \<Rightarrow> nat option" where
  "checked_inc n = (if n \<ge> U64_MAX then None else Some (n + 1))"

definition saturating_inc :: "nat \<Rightarrow> nat" where
  "saturating_inc n = min (n + 1) U64_MAX"

definition wrapping_inc :: "nat \<Rightarrow> nat" where
  "wrapping_inc n = (n + 1) mod 2 ^ 64"

definition wrapping_dec :: "nat \<Rightarrow> nat" where
  "wrapping_dec n = (if n = 0 then U64_MAX else n - 1)"

text \<open>\<open>Encoded::write\<close>: a piece that does not fit into what is left of the buffer is refused.\<close>

definition encoded_write :: "bytes \<Rightarrow> bytes \<Rightarrow> io_kind + bytes" where
  "encoded_write held piece =
     (if length held + length piece > MAX_EVENT_BYTES then Inl FileTooLarge else Inr (held @ piece))"

fun encoded_all :: "bytes \<Rightarrow> bytes list \<Rightarrow> io_kind + bytes" where
  "encoded_all held [] = Inr held"
| "encoded_all held (p # ps) = rbind (encoded_write held p) (\<lambda>h. encoded_all h ps)"

lemma encoded_all_iff:
  "length held \<le> MAX_EVENT_BYTES \<Longrightarrow>
     encoded_all held ps = Inr bs \<longleftrightarrow> bs = held @ concat ps \<and> length bs \<le> MAX_EVENT_BYTES"
proof (induction ps arbitrary: held)
  case (Cons p ps)
  show ?case
  proof (cases "length held + length p \<le> MAX_EVENT_BYTES")
    case True
    with Cons.IH [of "held @ p"] show ?thesis
      by (simp add: encoded_write_def)
  qed (auto simp: encoded_write_def)
qed auto

section \<open>The emitter and its shared state\<close>

record emitter =
  em_producer :: event_id
  em_lineage :: lineage
  em_version :: "nat list"

text \<open>
  An emission between two atomic accesses: what it was asked to report (nothing when preparing it
  panics), the number it took, the bytes it is about to queue, and its answer (none after a panic).
\<close>

type_synonym event_job = "(correlation \<times> fact) option"

datatype phase =
    Entered event_job
  | Numbered event_job nat
  | Open event_job nat
  | Encoded_as nat bytes
  | Sent_as nat
  | Leaving "emitted option"

datatype receiver_phase = Receiving | Took bytes | Closing | Dropped

text \<open>
  The channel holds at most \<^const>\<open>QUEUED_EVENTS\<close> messages; \<open>got\<close> is what the receiver has returned,
  \<open>discarded\<close> what the channel still held when it was dropped, and \<open>numbered\<close> the numbers of what was
  queued, in order.
\<close>

record event_world =
  ew_sequence :: nat
  ew_identities :: nat
  ew_counters :: counters
  ew_queue :: "bytes list"
  ew_receiver :: receiver_phase
  ew_phases :: "phase list"
  ew_got :: "bytes list"
  ew_discarded :: "bytes list"
  ew_numbered :: "nat list"

definition event_world_start :: event_world where
  "event_world_start =
     \<lparr>ew_sequence = 1, ew_identities = 1, ew_counters = Counters_default, ew_queue = [],
      ew_receiver = Receiving, ew_phases = [], ew_got = [], ew_discarded = [], ew_numbered = []\<rparr>"

definition count_full :: "event_world \<Rightarrow> event_world" where
  "count_full w = w\<lparr>ew_counters := (ew_counters w)\<lparr>ct_full := saturating_inc (ct_full (ew_counters w))\<rparr>\<rparr>"

definition count_closed :: "event_world \<Rightarrow> event_world" where
  "count_closed w = w\<lparr>ew_counters := (ew_counters w)\<lparr>ct_closed := saturating_inc (ct_closed (ew_counters w))\<rparr>\<rparr>"

definition count_encoding :: "event_world \<Rightarrow> event_world" where
  "count_encoding w = w\<lparr>ew_counters := (ew_counters w)\<lparr>ct_encoding := saturating_inc (ct_encoding (ew_counters w))\<rparr>\<rparr>"

definition count_exhausted :: "event_world \<Rightarrow> event_world" where
  "count_exhausted w = w\<lparr>ew_counters := (ew_counters w)\<lparr>ct_exhausted := saturating_inc (ct_exhausted (ew_counters w))\<rparr>\<rparr>"

definition identity_next :: "(bytes \<Rightarrow> bytes) \<Rightarrow> emitter \<Rightarrow> event_world \<Rightarrow> event_id option \<times> event_world" where
  "identity_next sha256 E w =
     (case checked_inc (ew_identities w) of
        Some n \<Rightarrow> (Some (Id_local sha256 (em_producer E) (ew_identities w)), w\<lparr>ew_identities := n\<rparr>)
      | None \<Rightarrow> (None, count_exhausted w))"

definition event_of :: "emitter \<Rightarrow> nat \<Rightarrow> correlation \<Rightarrow> fact \<Rightarrow> event" where
  "event_of E n c f =
     \<lparr>ev_version = em_version E, ev_producer = em_producer E, ev_sequence = n,
      ev_correlation = lineage_apply (em_lineage E) c, ev_fact = f\<rparr>"

text \<open>Entering: the count of active emissions goes up, or the emission is refused.\<close>

definition emit_enter :: "event_job \<Rightarrow> event_world \<Rightarrow> event_world" where
  "emit_enter j w =
     (case checked_inc (ct_active (ew_counters w)) of
        None \<Rightarrow> count_exhausted w
      | Some n \<Rightarrow> w\<lparr>ew_counters := (ew_counters w)\<lparr>ct_active := n\<rparr>, ew_phases := ew_phases w @ [Entered j]\<rparr>)"

text \<open>One access of an emission that has entered; \<open>pieces\<close> prints an event.\<close>

fun emit_next :: "(event \<Rightarrow> bytes list) \<Rightarrow> emitter \<Rightarrow> event_world \<Rightarrow> phase \<Rightarrow> event_world \<times> phase" where
  "emit_next pieces E w (Entered j) =
     (case checked_inc (ew_sequence w) of
        None \<Rightarrow> (count_exhausted w, Leaving (Some Exhausted))
      | Some n \<Rightarrow>
          if ew_sequence w = 0 then (count_exhausted (w\<lparr>ew_sequence := n\<rparr>), Leaving (Some Exhausted))
          else (w\<lparr>ew_sequence := n\<rparr>, Numbered j (ew_sequence w)))"
| "emit_next pieces E w (Numbered j n) =
     (if ct_receiver_closed (ew_counters w) then (count_closed w, Leaving (Some Closed))
      else (w, Open j n))"
| "emit_next pieces E w (Open None n) = (count_encoding w, Leaving None)"
| "emit_next pieces E w (Open (Some (c, f)) n) =
     (case encoded_all [] (pieces (event_of E n c f)) of
        Inl _ \<Rightarrow> (count_encoding w, Leaving (Some Encoding))
      | Inr bs \<Rightarrow> (w, Encoded_as n bs))"
| "emit_next pieces E w (Encoded_as n bs) =
     (if ew_receiver w = Dropped then (count_closed w, Leaving (Some Closed))
      else if length (ew_queue w) \<ge> QUEUED_EVENTS then (count_full w, Leaving (Some Full))
      else (w\<lparr>ew_queue := ew_queue w @ [bs], ew_numbered := ew_numbered w @ [n]\<rparr>, Sent_as n))"
| "emit_next pieces E w (Sent_as n) =
     (w\<lparr>ew_counters := (ew_counters w)\<lparr>ct_enqueued := wrapping_inc (ct_enqueued (ew_counters w))\<rparr>\<rparr>,
      Leaving (Some Queued))"
| "emit_next pieces E w (Leaving r) = (w, Leaving r)"

definition emit_leave :: "nat \<Rightarrow> event_world \<Rightarrow> event_world" where
  "emit_leave i w =
     w\<lparr>ew_counters := (ew_counters w)\<lparr>ct_active := wrapping_dec (ct_active (ew_counters w))\<rparr>,
       ew_phases := take i (ew_phases w) @ drop (Suc i) (ew_phases w)\<rparr>"

text \<open>The receiver: \<open>try_recv\<close> in two accesses, \<open>drop\<close> in two.\<close>

definition receiver_next :: "event_world \<Rightarrow> event_world option" where
  "receiver_next w =
     (case ew_receiver w of
        Receiving \<Rightarrow> (case ew_queue w of [] \<Rightarrow> None
          | bs # rest \<Rightarrow> Some (w\<lparr>ew_queue := rest, ew_receiver := Took bs\<rparr>))
      | Took bs \<Rightarrow>
          Some (w\<lparr>ew_counters := (ew_counters w)\<lparr>ct_dequeued := wrapping_inc (ct_dequeued (ew_counters w))\<rparr>,
                 ew_got := ew_got w @ [bs], ew_receiver := Receiving\<rparr>)
      | _ \<Rightarrow> None)"

definition receiver_close :: "event_world \<Rightarrow> event_world" where
  "receiver_close w =
     (case ew_receiver w of
        Receiving \<Rightarrow> w\<lparr>ew_counters := (ew_counters w)\<lparr>ct_receiver_closed := True\<rparr>, ew_receiver := Closing\<rparr>
      | Closing \<Rightarrow> w\<lparr>ew_receiver := Dropped, ew_discarded := ew_queue w, ew_queue := []\<rparr>
      | _ \<Rightarrow> w)"

inductive event_step :: "(event \<Rightarrow> bytes list) \<Rightarrow> emitter \<Rightarrow> event_world \<Rightarrow> event_world \<Rightarrow> bool"
  for pieces E where
  step_enter: "event_step pieces E w (emit_enter j w)"
| step_next: "i < length (ew_phases w) \<Longrightarrow> emit_next pieces E w (ew_phases w ! i) = (v, p)
    \<Longrightarrow> event_step pieces E w (v\<lparr>ew_phases := (ew_phases w)[i := p]\<rparr>)"
| step_leave: "i < length (ew_phases w) \<Longrightarrow> ew_phases w ! i = Leaving r
    \<Longrightarrow> event_step pieces E w (emit_leave i w)"
| step_receive: "receiver_next w = Some v \<Longrightarrow> event_step pieces E w v"
| step_close: "event_step pieces E w (receiver_close w)"
| step_identity: "identity_next sha256 E w = (x, v) \<Longrightarrow> event_step pieces E w v"

section \<open>What every interleaving keeps\<close>

fun pending_number :: "phase \<Rightarrow> nat list" where
  "pending_number (Numbered _ n) = [n]"
| "pending_number (Open _ n) = [n]"
| "pending_number (Encoded_as n _) = [n]"
| "pending_number _ = []"

fun uncounted :: "phase \<Rightarrow> bool" where
  "uncounted (Sent_as _) = True"
| "uncounted _ = False"

fun taken :: "receiver_phase \<Rightarrow> bytes list" where
  "taken (Took bs) = [bs]"
| "taken _ = []"

definition pending_numbers :: "phase list \<Rightarrow> nat list" where
  "pending_numbers ps = concat (map pending_number ps)"

lemma pending_numbers_simps [simp]:
  "pending_numbers [] = []"
  "pending_numbers (p # ps) = pending_number p @ pending_numbers ps"
  "pending_numbers (ps @ qs) = pending_numbers ps @ pending_numbers qs"
  by (simp_all add: pending_numbers_def)

text \<open>Everything that was ever queued, in order.\<close>

definition stream :: "event_world \<Rightarrow> bytes list" where
  "stream w = ew_got w @ taken (ew_receiver w) @ ew_queue w @ ew_discarded w"

definition whole_event :: "(event \<Rightarrow> bytes list) \<Rightarrow> emitter \<Rightarrow> nat \<Rightarrow> bytes \<Rightarrow> bool" where
  "whole_event pieces E n bs \<longleftrightarrow>
     (\<exists>c f. bs = concat (pieces (event_of E n c f))) \<and> length bs \<le> MAX_EVENT_BYTES"

definition counts_kept :: "event_world \<Rightarrow> bool" where
  "counts_kept w \<longleftrightarrow>
     ct_active (ew_counters w) = length (ew_phases w)
     \<and> ct_enqueued (ew_counters w) + length (filter uncounted (ew_phases w)) = length (ew_numbered w)
     \<and> ct_dequeued (ew_counters w) = length (ew_got w)
     \<and> ew_sequence w \<le> U64_MAX
     \<and> 1 + ct_full (ew_counters w) + ct_closed (ew_counters w) + ct_encoding (ew_counters w)
         + length (ew_numbered w) + length (pending_numbers (ew_phases w)) = ew_sequence w"

definition numbers_kept :: "event_world \<Rightarrow> bool" where
  "numbers_kept w \<longleftrightarrow>
     distinct (ew_numbered w @ pending_numbers (ew_phases w))
     \<and> set (ew_numbered w @ pending_numbers (ew_phases w)) \<subseteq> {1..<ew_sequence w}"

definition stream_kept :: "(event \<Rightarrow> bytes list) \<Rightarrow> emitter \<Rightarrow> event_world \<Rightarrow> bool" where
  "stream_kept pieces E w \<longleftrightarrow>
     list_all2 (whole_event pieces E) (ew_numbered w) (stream w)
     \<and> (\<forall>n bs. Encoded_as n bs \<in> set (ew_phases w) \<longrightarrow> whole_event pieces E n bs)"

definition receiver_kept :: "event_world \<Rightarrow> bool" where
  "receiver_kept w \<longleftrightarrow>
     (ct_receiver_closed (ew_counters w) \<longleftrightarrow> ew_receiver w = Closing \<or> ew_receiver w = Dropped)
     \<and> (ew_receiver w = Dropped \<longrightarrow> ew_queue w = [])
     \<and> (ew_receiver w \<noteq> Dropped \<longrightarrow> ew_discarded w = [])
     \<and> length (ew_queue w) \<le> QUEUED_EVENTS"

definition event_inv :: "(event \<Rightarrow> bytes list) \<Rightarrow> emitter \<Rightarrow> event_world \<Rightarrow> bool" where
  "event_inv pieces E w \<longleftrightarrow> counts_kept w \<and> numbers_kept w \<and> stream_kept pieces E w \<and> receiver_kept w"

lemmas event_inv_defs = counts_kept_def numbers_kept_def stream_kept_def receiver_kept_def

lemmas count_defs = count_full_def count_closed_def count_encoding_def count_exhausted_def

lemma event_inv_start: "event_inv pieces E event_world_start"
  by (simp add: event_inv_def event_inv_defs event_world_start_def Counters_default_def stream_def U64_MAX_def)

lemma stream_length: "stream_kept pieces E w \<Longrightarrow> length (stream w) = length (ew_numbered w)"
  by (auto simp: stream_kept_def dest: list_all2_lengthD)

lemma saturating_inc_room: "n < U64_MAX \<Longrightarrow> saturating_inc n = n + 1"
  by (simp add: saturating_inc_def)

lemma wrapping_inc_room: "n < U64_MAX \<Longrightarrow> wrapping_inc n = n + 1"
  by (simp add: wrapping_inc_def U64_MAX_def)

lemma event_inv_exhausted: "event_inv pieces E w \<Longrightarrow> event_inv pieces E (count_exhausted w)"
  by (simp add: event_inv_def event_inv_defs count_exhausted_def stream_def)

lemma event_inv_enter: "event_inv pieces E w \<Longrightarrow> event_inv pieces E (emit_enter j w)"
  by (auto simp: emit_enter_def checked_inc_def event_inv_exhausted split: if_splits)
    (auto simp: event_inv_def event_inv_defs stream_def)

lemma event_inv_identity: "event_inv pieces E w \<Longrightarrow> identity_next sha256 E w = (x, v) \<Longrightarrow> event_inv pieces E v"
  by (auto simp: identity_next_def event_inv_exhausted split: option.splits)
    (auto simp: event_inv_def event_inv_defs stream_def)

lemma event_inv_leave:
  assumes "event_inv pieces E w" "ew_phases w = xs @ Leaving r # ys"
  shows "event_inv pieces E (emit_leave (length xs) w)"
  using assms
  by (auto simp: event_inv_def event_inv_defs stream_def emit_leave_def wrapping_dec_def)

lemma event_inv_receive:
  assumes "event_inv pieces E w" "receiver_next w = Some v"
  shows "event_inv pieces E v"
proof -
  have "length (ew_got w) < U64_MAX" if "ew_receiver w = Took bs" for bs
    using assms(1) that stream_length [of pieces E w] by (auto simp: event_inv_def counts_kept_def stream_def)
  with assms show ?thesis
    by (auto simp: event_inv_def event_inv_defs stream_def receiver_next_def
        wrapping_inc_room split: receiver_phase.splits list.splits)
qed

lemma event_inv_close: "event_inv pieces E w \<Longrightarrow> event_inv pieces E (receiver_close w)"
  by (auto simp: event_inv_def event_inv_defs stream_def receiver_close_def
      split: receiver_phase.splits)

lemma encoded_whole: "encoded_all [] (pieces (event_of E n c f)) = Inr bs \<Longrightarrow> whole_event pieces E n bs"
  by (auto simp: encoded_all_iff whole_event_def)

lemma stream_snoc:
  assumes "list_all2 P ns (as @ bs @ cs @ ds)" "P n x" "ds = []"
  shows "list_all2 P (ns @ [n]) (as @ bs @ cs @ x # ds)"
  using list_all2_appendI [of P ns "as @ bs @ cs" "[n]" "[x]"] assms by simp

lemma event_inv_next:
  assumes inv: "event_inv pieces E w" and phases: "ew_phases w = xs @ q # ys"
    and nxt: "emit_next pieces E w q = (v, p)"
  shows "event_inv pieces E (v\<lparr>ew_phases := xs @ p # ys\<rparr>)"
proof -
  let ?v = "v\<lparr>ew_phases := xs @ p # ys\<rparr>"
  have room: "ct_full (ew_counters w) < U64_MAX" "ct_closed (ew_counters w) < U64_MAX"
    "ct_encoding (ew_counters w) < U64_MAX"
    using inv by (auto simp: event_inv_def counts_kept_def)
  have enq: "ct_enqueued (ew_counters w) < U64_MAX"
    using inv by (auto simp: event_inv_def counts_kept_def)
  note simps = stream_def count_defs saturating_inc_room wrapping_inc_room
  have "counts_kept ?v"
    using inv nxt room enq phases
    by (cases "(pieces, E, w, q)" rule: emit_next.cases)
      (auto simp: event_inv_def counts_kept_def simps checked_inc_def split: if_splits option.splits sum.splits prod.splits)
  moreover have "numbers_kept ?v"
    using inv nxt phases
    by (cases "(pieces, E, w, q)" rule: emit_next.cases)
      (auto simp: event_inv_def numbers_kept_def simps checked_inc_def split: if_splits option.splits sum.splits prod.splits)
  moreover have "stream_kept pieces E ?v"
  proof -
    have "ew_receiver w \<noteq> Dropped \<Longrightarrow> ew_discarded w = []"
      using inv by (simp add: event_inv_def receiver_kept_def)
    with inv nxt phases show ?thesis
      by (cases "(pieces, E, w, q)" rule: emit_next.cases)
        (auto simp: event_inv_def stream_kept_def simps checked_inc_def encoded_whole
          intro!: stream_snoc split: if_splits option.splits sum.splits prod.splits)
  qed
  moreover have "receiver_kept ?v"
    using inv nxt phases
    by (cases "(pieces, E, w, q)" rule: emit_next.cases)
      (auto simp: event_inv_def receiver_kept_def simps checked_inc_def split: if_splits option.splits sum.splits prod.splits)
  ultimately show ?thesis
    by (simp add: event_inv_def)
qed

interpretation event_queue: inductive_invariant "\<lambda>w. w = event_world_start" "event_step pieces E" "event_inv pieces E"
  for pieces E
proof unfold_locales
  show "event_inv pieces E w" if "w = event_world_start" for w
    using that event_inv_start by simp
next
  fix w v
  assume inv: "event_inv pieces E w" and "event_step pieces E w v"
  from this(2) show "event_inv pieces E v"
  proof cases
    case (step_next i u p)
    then have "ew_phases w = take i (ew_phases w) @ ew_phases w ! i # drop (Suc i) (ew_phases w)"
      by (simp add: id_take_nth_drop)
    with event_inv_next [OF inv _ step_next(3)] step_next show ?thesis
      by (simp add: upd_conv_take_nth_drop)
  next
    case (step_leave i r)
    then have "ew_phases w = take i (ew_phases w) @ Leaving r # drop (Suc i) (ew_phases w)"
      by (metis id_take_nth_drop)
    from event_inv_leave [OF inv this] step_leave show ?thesis
      by (simp add: min_def)
  qed (use inv in \<open>auto intro: event_inv_enter event_inv_receive event_inv_close event_inv_identity\<close>)
qed

lemma whole_events:
  "list_all2 (whole_event pieces E) ns xs \<Longrightarrow>
     \<exists>es. xs = map (concat \<circ> pieces) es \<and> map ev_sequence es = ns
        \<and> list_all (\<lambda>e. ev_producer e = em_producer E \<and> lineage_accepts (em_lineage E) (ev_correlation e)
             \<and> length (concat (pieces e)) \<le> MAX_EVENT_BYTES) es"
proof (induction ns xs rule: list_all2_induct)
  case (Cons n ns x xs)
  then obtain c f es where "x = concat (pieces (event_of E n c f))" "length x \<le> MAX_EVENT_BYTES"
      "xs = map (concat \<circ> pieces) es" "map ev_sequence es = ns"
      "list_all (\<lambda>e. ev_producer e = em_producer E \<and> lineage_accepts (em_lineage E) (ev_correlation e)
             \<and> length (concat (pieces e)) \<le> MAX_EVENT_BYTES) es"
    unfolding whole_event_def by blast
  then show ?case
    by (intro exI [of _ "event_of E n c f # es"]) (simp add: event_of_def lineage_accepts_apply)
qed auto

text \<open>
  C35: however emissions, the receiver and its end interleave, once the receiver is gone and no emission
  is in progress every number that was given out is accounted for: it was received, or it is counted in
  exactly one of the losses (abandoned, full, closed, encoding).
\<close>

theorem event_losses_exact:
  assumes "reachable (\<lambda>w. w = event_world_start) (event_step pieces E) w"
    and "ew_receiver w = Dropped" "ct_active (ew_counters w) = 0"
  shows "let L = counters_snapshot (ew_counters w) in
     ew_sequence w - 1 = length (ew_got w) + loss_abandoned L + loss_full L + loss_closed L + loss_encoding L"
proof -
  have inv: "event_inv pieces E w"
    using assms(1) by (rule event_queue.always)
  then have "ew_phases w = []" "ct_receiver_closed (ew_counters w)" "ct_enqueued (ew_counters w) = length (ew_numbered w)"
      "length (ew_got w) \<le> length (ew_numbered w)"
    using assms(2,3) stream_length [of pieces E w]
    by (auto simp: event_inv_def event_inv_defs stream_def)
  with inv show ?thesis
    by (auto simp: event_inv_def counts_kept_def counters_snapshot_def Let_def)
qed

text \<open>
  C36: what the receiver gets is a sequence of whole events of this process, each within 4096 bytes,
  each bound to the process's lineage, no two with the same number, and every number one that was
  given out; the queue never holds more than 256.
\<close>

theorem event_deliveries_numbered:
  assumes "reachable (\<lambda>w. w = event_world_start) (event_step pieces E) w"
  shows "length (ew_queue w) \<le> 256 \<and>
     (\<exists>es. ew_got w = map (concat \<circ> pieces) es \<and> distinct (map ev_sequence es)
        \<and> set (map ev_sequence es) \<subseteq> {1..<ew_sequence w}
        \<and> list_all (\<lambda>e. ev_producer e = em_producer E \<and> lineage_accepts (em_lineage E) (ev_correlation e)
             \<and> length (concat (pieces e)) \<le> 4096) es)"
proof -
  have inv: "event_inv pieces E w"
    using assms by (rule event_queue.always)
  then have "list_all2 (whole_event pieces E) (ew_numbered w) (ew_got w @ taken (ew_receiver w) @ ew_queue w @ ew_discarded w)"
    by (simp add: event_inv_def stream_kept_def stream_def)
  then obtain ns ms where ns: "ew_numbered w = ns @ ms" "list_all2 (whole_event pieces E) ns (ew_got w)"
    by (auto simp: list_all2_append2)
  from whole_events [OF ns(2)] obtain es where es: "ew_got w = map (concat \<circ> pieces) es" "map ev_sequence es = ns"
      "list_all (\<lambda>e. ev_producer e = em_producer E \<and> lineage_accepts (em_lineage E) (ev_correlation e)
             \<and> length (concat (pieces e)) \<le> MAX_EVENT_BYTES) es"
    by blast
  moreover have "distinct ns" "set ns \<subseteq> {1..<ew_sequence w}" "length (ew_queue w) \<le> 256"
    using inv ns(1) by (auto simp: event_inv_def event_inv_defs QUEUED_EVENTS_def)
  ultimately show ?thesis
    unfolding MAX_EVENT_BYTES_def by (intro conjI exI [of _ es]) simp_all
qed

section \<open>A run\<close>

datatype event_op = Op_enter event_job | Op_next nat | Op_leave nat | Op_receive | Op_close

fun event_exec :: "(event \<Rightarrow> bytes list) \<Rightarrow> emitter \<Rightarrow> event_op \<Rightarrow> event_world \<Rightarrow> event_world" where
  "event_exec pieces E (Op_enter j) w = emit_enter j w"
| "event_exec pieces E (Op_next i) w =
     (if i < length (ew_phases w)
      then let (v, p) = emit_next pieces E w (ew_phases w ! i) in v\<lparr>ew_phases := (ew_phases w)[i := p]\<rparr>
      else w)"
| "event_exec pieces E (Op_leave i) w =
     (if i < length (ew_phases w)
      then (case ew_phases w ! i of Leaving r \<Rightarrow> emit_leave i w | _ \<Rightarrow> w)
      else w)"
| "event_exec pieces E Op_receive w = (case receiver_next w of None \<Rightarrow> w | Some v \<Rightarrow> v)"
| "event_exec pieces E Op_close w = receiver_close w"

lemma event_exec_reachable:
  "reachable S (event_step pieces E) w \<Longrightarrow> reachable S (event_step pieces E) (event_exec pieces E op w)"
  by (cases op) (auto intro: reach_step event_step.intros split: option.splits prod.splits phase.splits)

lemma event_run_reachable:
  "reachable S (event_step pieces E) w \<Longrightarrow> reachable S (event_step pieces E) (fold (event_exec pieces E) ops w)"
  by (induction ops arbitrary: w) (auto intro: event_exec_reachable)

definition demo_emitter :: emitter where
  "demo_emitter = \<lparr>em_producer = ''P'', em_lineage = Lineage_default, em_version = [0, 1, 0]\<rparr>"

definition demo_pieces :: "event \<Rightarrow> bytes list" where
  "demo_pieces e = [''{'', ''}'']"

text \<open>Two events are queued, one is received, and the receiver goes.\<close>

definition demo_ops :: "event_op list" where
  "demo_ops =
     (let j = Some (Correlation_default, Fact_Mutation State_Refused);
          emission = [Op_enter j, Op_next 0, Op_next 0, Op_next 0, Op_next 0, Op_next 0, Op_leave 0]
      in emission @ [Op_receive, Op_receive] @ emission @ [Op_close, Op_close])"

definition demo_world :: event_world where
  "demo_world = fold (event_exec demo_pieces demo_emitter) demo_ops event_world_start"

lemma demo_world_eq:
  "demo_world =
     \<lparr>ew_sequence = 3, ew_identities = 1,
      ew_counters = \<lparr>ct_active = 0, ct_enqueued = 2, ct_dequeued = 1, ct_receiver_closed = True,
        ct_full = 0, ct_closed = 0, ct_encoding = 0, ct_exhausted = 0\<rparr>,
      ew_queue = [], ew_receiver = Dropped, ew_phases = [], ew_got = [''{}''], ew_discarded = [''{}''],
      ew_numbered = [1, 2]\<rparr>"
  by (simp add: demo_world_def demo_ops_def event_world_start_def emit_enter_def checked_inc_def Counters_default_def
      U64_MAX_def encoded_write_def demo_pieces_def MAX_EVENT_BYTES_def QUEUED_EVENTS_def wrapping_inc_def
      wrapping_dec_def emit_leave_def receiver_next_def receiver_close_def Let_def)

lemma demo_world_reachable: "reachable (\<lambda>w. w = event_world_start) (event_step demo_pieces demo_emitter) demo_world"
  unfolding demo_world_def by (rule event_run_reachable) (simp add: reach_start)

theorem event_losses_exact_witness:
  "ew_receiver demo_world = Dropped \<and> ct_active (ew_counters demo_world) = 0
   \<and> (let L = counters_snapshot (ew_counters demo_world) in
        ew_sequence demo_world - 1
          = length (ew_got demo_world) + loss_abandoned L + loss_full L + loss_closed L + loss_encoding L)"
proof -
  have "ew_receiver demo_world = Dropped" "ct_active (ew_counters demo_world) = 0"
    by (simp_all add: demo_world_eq)
  with event_losses_exact [OF demo_world_reachable] show ?thesis
    by simp
qed

theorem event_deliveries_numbered_witness:
  "ew_got demo_world = [''{}'']
   \<and> (\<exists>es. ew_got demo_world = map (concat \<circ> demo_pieces) es \<and> distinct (map ev_sequence es))"
  proof
  show "ew_got demo_world = [''{}'']"
    by (simp add: demo_world_eq)
next
  show "\<exists>es. ew_got demo_world = map (concat \<circ> demo_pieces) es \<and> distinct (map ev_sequence es)"
    using event_deliveries_numbered [OF demo_world_reachable] by blast
qed

end
