(* ===== verification/Event_Forwarding.thy ===== *)
theory Event_Forwarding
  imports Event_Queue
begin

text \<open>
  Forwarding events to the parent process (\<open>events/forwarding.rs\<close> and below it): the packet socket with
  its loss counters, the sender that numbers status reports, the descriptors a process is given at its
  start, the forwarding loop and the shutdown that says whether anything was lost.
\<close>

section \<open>The transport\<close>

definition MAX_BUFFER :: nat where "MAX_BUFFER = 64 * 1024"

record transport_loss =
  tl_full :: nat
  tl_unavailable :: nat
  tl_invalid :: nat

definition TransportLoss_default :: transport_loss where
  "TransportLoss_default = \<lparr>tl_full = 0, tl_unavailable = 0, tl_invalid = 0\<rparr>"

datatype sent_result = Sent_Queued | Sent_Full | Sent_Unavailable | Sent_Invalid

text \<open>What \<open>send\<close> on the socket answers.\<close>

datatype send_answer = Sent_bytes nat | Send_again | Send_failed

record transport =
  tr_loss :: transport_loss
  tr_packets :: "bytes list"

definition transport_adopt :: "bool \<Rightarrow> bool \<Rightarrow> nat \<Rightarrow> nat \<Rightarrow> io_kind + transport" where
  "transport_adopt cloexec_set nonblock recv_buffer send_buffer =
     (if \<not> cloexec_set \<or> \<not> nonblock \<or> recv_buffer > MAX_BUFFER \<or> send_buffer > MAX_BUFFER
      then Inl InvalidInput
      else Inr \<lparr>tr_loss = TransportLoss_default, tr_packets = []\<rparr>)"

definition transport_send :: "send_answer \<Rightarrow> bytes \<Rightarrow> transport \<Rightarrow> sent_result \<times> transport" where
  "transport_send a bs t =
     (let L = tr_loss t in
      if bs = [] \<or> length bs > MAX_EVENT_BYTES
      then (Sent_Invalid, t\<lparr>tr_loss := L\<lparr>tl_invalid := saturating_inc (tl_invalid L)\<rparr>\<rparr>)
      else case a of
        Sent_bytes n \<Rightarrow>
          if n = length bs then (Sent_Queued, t\<lparr>tr_packets := tr_packets t @ [bs]\<rparr>)
          else (Sent_Unavailable,
                t\<lparr>tr_loss := L\<lparr>tl_unavailable := saturating_inc (tl_unavailable L)\<rparr>,
                  tr_packets := tr_packets t @ [take n bs]\<rparr>)
      | Send_again \<Rightarrow> (Sent_Full, t\<lparr>tr_loss := L\<lparr>tl_full := saturating_inc (tl_full L)\<rparr>\<rparr>)
      | Send_failed \<Rightarrow> (Sent_Unavailable, t\<lparr>tr_loss := L\<lparr>tl_unavailable := saturating_inc (tl_unavailable L)\<rparr>\<rparr>))"

lemma transport_send_queued:
  "transport_send a bs t = (Sent_Queued, u) \<Longrightarrow>
     u = t\<lparr>tr_packets := tr_packets t @ [bs]\<rparr> \<and> bs \<noteq> [] \<and> length bs \<le> MAX_EVENT_BYTES"
  by (auto simp: transport_send_def Let_def split: if_splits send_answer.splits)

lemma saturating_inc_ge [simp]: "n \<le> U64_MAX \<Longrightarrow> n \<le> saturating_inc n" "saturating_inc n \<noteq> 0" "saturating_inc n \<le> U64_MAX"
  by (auto simp: saturating_inc_def U64_MAX_def)

lemma transport_send_lossless:
  "transport_send a bs t = (r, u) \<Longrightarrow> tr_loss u = TransportLoss_default \<Longrightarrow> r = Sent_Queued \<and> tr_loss t = TransportLoss_default"
  by (cases "tr_loss t")
    (auto simp: transport_send_def Let_def TransportLoss_default_def split: if_splits send_answer.splits)

section \<open>The sender\<close>

definition REPORT_INTERVAL :: duration where "REPORT_INTERVAL = 1000000000"

record producer_status =
  ps_revision :: nat
  ps_events_sent :: nat
  ps_queue_loss :: event_loss
  ps_transport_loss :: transport_loss
  ps_finished :: bool

text \<open>A status frame; its schema and program are constant.\<close>

record status_frame =
  sf_producer :: event_id
  sf_status :: producer_status

datatype report_result = Report_Sent sent_result | Report_RateLimited | Report_Exhausted | Report_Closed | Report_Encoding

text \<open>What the socket accepted, as the sender meant it.\<close>

datatype packet = Event_packet bytes | Status_packet status_frame

record event_sender =
  es_inner :: transport
  es_lineage :: lineage
  es_parent :: "nat option"
  es_producer :: event_id
  es_events_sent :: nat
  es_next_revision :: nat
  es_last_report :: "instant option"
  es_finished :: bool
  es_log :: "packet list"

definition sender_new :: "transport \<Rightarrow> event_id \<Rightarrow> event_sender" where
  "sender_new inner producer =
     \<lparr>es_inner = inner, es_lineage = Lineage_default, es_parent = None, es_producer = producer,
      es_events_sent = 0, es_next_revision = 1, es_last_report = None, es_finished = False, es_log = []\<rparr>"

definition sender_into_fresh :: "event_sender \<Rightarrow> (transport \<times> event_id) option" where
  "sender_into_fresh s =
     (if es_events_sent s = 0 \<and> es_next_revision s = 1 \<and> es_last_report s = None \<and> \<not> es_finished s
         \<and> tr_loss (es_inner s) = TransportLoss_default
      then Some (es_inner s, es_producer s) else None)"

definition sender_send :: "send_answer \<Rightarrow> bytes \<Rightarrow> event_sender \<Rightarrow> sent_result \<times> event_sender" where
  "sender_send a bs s =
     (if es_finished s \<or> es_events_sent s = U64_MAX
      then let (r, t) = transport_send a [] (es_inner s) in (r, s\<lparr>es_inner := t\<rparr>)
      else let (r, t) = transport_send a bs (es_inner s) in
        if r = Sent_Queued
        then (r, s\<lparr>es_inner := t, es_events_sent := es_events_sent s + 1, es_log := es_log s @ [Event_packet bs]\<rparr>)
        else (r, s\<lparr>es_inner := t\<rparr>))"

definition sender_report_at ::
  "(status_frame \<Rightarrow> bytes list) \<Rightarrow> send_answer \<Rightarrow> event_loss \<Rightarrow> bool \<Rightarrow> instant \<Rightarrow> event_sender \<Rightarrow> report_result \<times> event_sender" where
  "sender_report_at pieces a queue_loss finished at s =
     (if es_finished s then (Report_Closed, s)
      else if (case es_last_report s of None \<Rightarrow> False | Some last_at \<Rightarrow> at - last_at < REPORT_INTERVAL)
      then (Report_RateLimited, s)
      else case checked_inc (es_next_revision s) of
        None \<Rightarrow> (Report_Exhausted, s)
      | Some n \<Rightarrow>
          if es_next_revision s = 0 then (Report_Exhausted, s)
          else
            let frame = \<lparr>sf_producer = es_producer s,
                  sf_status = \<lparr>ps_revision = es_next_revision s, ps_events_sent = es_events_sent s,
                    ps_queue_loss = queue_loss, ps_transport_loss = tr_loss (es_inner s), ps_finished = finished\<rparr>\<rparr>;
                s1 = s\<lparr>es_last_report := Some at, es_next_revision := n\<rparr>
            in case encoded_all [] (pieces frame) of
              Inl _ \<Rightarrow> (Report_Encoding, s1)
            | Inr bs \<Rightarrow>
                let (r, t) = transport_send a bs (es_inner s) in
                if r = Sent_Queued
                then (Report_Sent r, s1\<lparr>es_inner := t, es_finished := (es_finished s \<or> finished), es_log := es_log s @ [Status_packet frame]\<rparr>)
                else (Report_Sent r, s1\<lparr>es_inner := t\<rparr>))"

datatype sender_op = Do_send send_answer bytes | Do_report send_answer event_loss bool instant

fun sender_do :: "(status_frame \<Rightarrow> bytes list) \<Rightarrow> sender_op \<Rightarrow> event_sender \<Rightarrow> event_sender" where
  "sender_do pieces (Do_send a bs) s = snd (sender_send a bs s)"
| "sender_do pieces (Do_report a L fin at) s = snd (sender_report_at pieces a L fin at s)"

fun is_event :: "packet \<Rightarrow> bool" where
  "is_event (Event_packet _) = True"
| "is_event (Status_packet _) = False"

fun packet_bytes :: "(status_frame \<Rightarrow> bytes list) \<Rightarrow> packet \<Rightarrow> bytes" where
  "packet_bytes pieces (Event_packet bs) = bs"
| "packet_bytes pieces (Status_packet f) = concat (pieces f)"

text \<open>A log in which every status says what came before it.\<close>

definition status_exact :: "nat \<Rightarrow> bool \<Rightarrow> packet list \<Rightarrow> status_frame \<Rightarrow> packet list \<Rightarrow> bool" where
  "status_exact next_revision over pre f post \<longleftrightarrow>
     ps_events_sent (sf_status f) = length (filter is_event pre)
     \<and> 0 < ps_revision (sf_status f) \<and> ps_revision (sf_status f) < next_revision
     \<and> (ps_finished (sf_status f) \<longrightarrow> post = [] \<and> over)
     \<and> (\<forall>g. Status_packet g \<in> set post \<longrightarrow> ps_revision (sf_status f) < ps_revision (sf_status g))"

definition log_exact :: "nat \<Rightarrow> bool \<Rightarrow> packet list \<Rightarrow> bool" where
  "log_exact next_revision over log \<longleftrightarrow>
     (\<forall>pre f post. log = pre @ Status_packet f # post \<longrightarrow> status_exact next_revision over pre f post)"

definition sender_inv :: "(status_frame \<Rightarrow> bytes list) \<Rightarrow> event_sender \<Rightarrow> bool" where
  "sender_inv pieces s \<longleftrightarrow>
     0 < es_next_revision s
     \<and> es_events_sent s = length (filter is_event (es_log s))
     \<and> log_exact (es_next_revision s) (es_finished s) (es_log s)
     \<and> (es_finished s \<longrightarrow> (\<exists>pre f. es_log s = pre @ [Status_packet f] \<and> ps_finished (sf_status f)))
     \<and> (tr_loss (es_inner s) = TransportLoss_default \<longrightarrow> tr_packets (es_inner s) = map (packet_bytes pieces) (es_log s))"

lemma snoc_split:
  "log @ [x] = pre @ y # post \<longleftrightarrow> (post = [] \<and> x = y \<and> pre = log) \<or> (\<exists>p. post = p @ [x] \<and> log = pre @ y # p)"
  by (cases post rule: rev_cases) auto

lemma status_exact_event: "status_exact n False pre f post \<Longrightarrow> status_exact n False pre f (post @ [Event_packet bs])"
  by (auto simp: status_exact_def)

lemma status_exact_status:
  "status_exact n False pre f post \<Longrightarrow> ps_revision (sf_status g) = n \<Longrightarrow>
     status_exact (Suc n) over pre f (post @ [Status_packet g])"
  by (auto simp: status_exact_def)

lemma status_exact_later: "status_exact n over pre f post \<Longrightarrow> n \<le> m \<Longrightarrow> status_exact m over pre f post"
  by (auto simp: status_exact_def)

lemma log_exactD: "log_exact n over (pre @ Status_packet f # post) \<Longrightarrow> status_exact n over pre f post"
  by (simp add: log_exact_def)

lemma log_exact_event: "log_exact n False log \<Longrightarrow> log_exact n False (log @ [Event_packet bs])"
  unfolding log_exact_def snoc_split by (auto intro: status_exact_event)

lemma log_exact_later: "log_exact n over log \<Longrightarrow> n \<le> m \<Longrightarrow> log_exact m over log"
  unfolding log_exact_def by (blast intro: status_exact_later)

lemma log_exact_status:
  assumes "log_exact n False log" "0 < n"
    and "ps_revision (sf_status f) = n" "ps_events_sent (sf_status f) = length (filter is_event log)"
  shows "log_exact (Suc n) (ps_finished (sf_status f)) (log @ [Status_packet f])"
  using assms unfolding log_exact_def snoc_split
  by (auto simp: status_exact_def [of _ _ log f "[]"] intro: status_exact_status)

lemma sender_inv_new: "tr_packets inner = [] \<Longrightarrow> sender_inv pieces (sender_new inner producer)"
  by (simp add: sender_inv_def sender_new_def log_exact_def)

lemma transport_send_empty: "transport_send a [] t = (r, u) \<Longrightarrow> tr_loss u \<noteq> TransportLoss_default"
  by (cases "tr_loss t") (auto simp: transport_send_def Let_def TransportLoss_default_def)

lemma sender_inv_send:
  assumes "sender_inv pieces s" "sender_send a bs s = (r, t)"
  shows "sender_inv pieces t"
proof (cases "es_finished s \<or> es_events_sent s = U64_MAX")
  case True
  with assms show ?thesis
    by (auto simp: sender_send_def sender_inv_def dest: transport_send_empty split: prod.splits)
next
  case False
  obtain q u where sent: "transport_send a bs (es_inner s) = (q, u)"
    by fastforce
  show ?thesis
  proof (cases "q = Sent_Queued")
    case True
    with sent have "u = (es_inner s)\<lparr>tr_packets := tr_packets (es_inner s) @ [bs]\<rparr>"
      by (simp add: transport_send_queued)
    with assms False sent True show ?thesis
      by (auto simp: sender_send_def sender_inv_def log_exact_event)
  next
    case not: False
    then have "tr_loss u \<noteq> TransportLoss_default"
      using transport_send_lossless [OF sent] by auto
    with assms False sent not show ?thesis
      by (auto simp: sender_send_def sender_inv_def)
  qed
qed

lemma sender_inv_report:
  assumes "sender_inv pieces s" "sender_report_at pieces a L fin at s = (r, t)"
  shows "sender_inv pieces t"
proof (cases "t = s")
  case True
  with assms(1) show ?thesis by simp
next
  case False
  let ?f = "\<lparr>sf_producer = es_producer s, sf_status = \<lparr>ps_revision = es_next_revision s,
    ps_events_sent = es_events_sent s, ps_queue_loss = L, ps_transport_loss = tr_loss (es_inner s), ps_finished = fin\<rparr>\<rparr>"
  let ?s = "s\<lparr>es_last_report := Some at, es_next_revision := Suc (es_next_revision s)\<rparr>"
  have open_one: "\<not> es_finished s"
    using assms(2) False by (auto simp: sender_report_at_def)
  have later: "sender_inv pieces ?s"
    using assms(1) by (auto simp: sender_inv_def intro: log_exact_later)
  consider "t = ?s"
    | bs q u where "encoded_all [] (pieces ?f) = Inr bs" "transport_send a bs (es_inner s) = (q, u)"
        "t = (if q = Sent_Queued then ?s\<lparr>es_inner := u, es_finished := fin, es_log := es_log s @ [Status_packet ?f]\<rparr>
              else ?s\<lparr>es_inner := u\<rparr>)"
    using assms(2) False open_one
    by (auto simp: sender_report_at_def checked_inc_def Let_def split: if_splits option.splits sum.splits prod.splits)
  then show ?thesis
  proof cases
    case 1
    with later show ?thesis by simp
  next
    case 2
    show ?thesis
    proof (cases "q = Sent_Queued")
      case True
      with 2 have "u = (es_inner s)\<lparr>tr_packets := tr_packets (es_inner s) @ [concat (pieces ?f)]\<rparr>"
        by (simp add: transport_send_queued encoded_all_iff)
      moreover have "log_exact (Suc (es_next_revision s)) fin (es_log s @ [Status_packet ?f])"
        using assms(1) open_one log_exact_status [of "es_next_revision s" "es_log s" ?f] by (simp add: sender_inv_def)
      ultimately show ?thesis
        using assms(1) 2 True by (simp add: sender_inv_def)
    next
      case not: False
      then have "tr_loss u \<noteq> TransportLoss_default"
        using transport_send_lossless [OF 2(2)] by auto
      with later 2(3) not show ?thesis
        by (simp add: sender_inv_def)
    qed
  qed
qed

interpretation status_sender:
  inductive_invariant "\<lambda>s. \<exists>inner producer. s = sender_new inner producer \<and> tr_packets inner = []"
    "\<lambda>s t. \<exists>op. t = sender_do pieces op s" "sender_inv pieces" for pieces
proof unfold_locales
  fix s t
  assume "sender_inv pieces s" "\<exists>op. t = sender_do pieces op s"
  then obtain op where "t = sender_do pieces op s" by blast
  with \<open>sender_inv pieces s\<close> show "sender_inv pieces t"
    by (cases op) (metis sender_do.simps prod.collapse sender_inv_send sender_inv_report)+
qed (auto simp: sender_inv_new)

lemma sender_fold_inv: "sender_inv pieces s \<Longrightarrow> sender_inv pieces (fold (sender_do pieces) ops s)"
proof (induction ops arbitrary: s)
  case (Cons op ops)
  then have "sender_inv pieces (sender_do pieces op s)"
    by (blast intro: status_sender.kept)
  with Cons.IH show ?case
    by simp
qed simp

lemma finished_silent:
  "es_finished s \<Longrightarrow> es_log (fold (sender_do pieces) ops s) = es_log s"
proof (induction ops arbitrary: s)
  case (Cons op ops)
  then have "es_finished (sender_do pieces op s) \<and> es_log (sender_do pieces op s) = es_log s"
    by (cases op) (auto simp: sender_send_def sender_report_at_def split: prod.splits)
  with Cons.IH [of "sender_do pieces op s"] show ?case
    by simp
qed simp

abbreviation fresh_transport :: transport where
  "fresh_transport \<equiv> \<lparr>tr_loss = TransportLoss_default, tr_packets = []\<rparr>"

text \<open>
  C37: whatever is sent and reported and whatever the socket answers, every status report that reached
  the socket states exactly how many events reached it before, the reports carry strictly increasing
  revisions, and after the report that says finished nothing reaches the socket any more.
\<close>

theorem status_reports_exact:
  assumes "s = fold (sender_do pieces) ops (sender_new fresh_transport producer)"
    and "es_log s = pre @ Status_packet f # post"
  shows "ps_events_sent (sf_status f) = length (filter is_event pre)
    \<and> (\<forall>g. Status_packet g \<in> set post \<longrightarrow> ps_revision (sf_status f) < ps_revision (sf_status g))
    \<and> (ps_finished (sf_status f) \<longrightarrow> post = [] \<and> es_log (fold (sender_do pieces) more_ops s) = es_log s)"
proof -
  have "sender_inv pieces s"
    unfolding assms(1) by (intro sender_fold_inv sender_inv_new) simp
  then have "status_exact (es_next_revision s) (es_finished s) pre f post"
    using assms(2) by (auto simp: sender_inv_def log_exact_def)
  then show ?thesis
    by (auto simp: status_exact_def finished_silent)
qed

section \<open>The descriptors a process is given\<close>

definition MAX_BOOTSTRAP_BYTES :: nat where "MAX_BOOTSTRAP_BYTES = 512"

datatype bootstrap_error = Bad_Descriptor | Bad_Peer | Bad_Frame | Bad_Ancillary | No_Transport

datatype socket_kind = Seqpacket | Dgram | Stream | Other_kind

text \<open>What the kernel answers about a descriptor; \<open>None\<close> where the call fails.\<close>

record socket_view =
  sv_kind :: "socket_kind option"
  sv_unix :: "bool option"
  sv_cloned :: "unit option"
  sv_local_unnamed :: "bool option"
  sv_peer_unnamed :: "bool option"
  sv_peer :: "(nat \<times> nat) option"

definition private_socket :: "socket_view \<Rightarrow> socket_kind \<Rightarrow> bootstrap_error + unit" where
  "private_socket v kind =
     rbind (ok_or (sv_kind v) Bad_Descriptor) (\<lambda>k.
     rbind (ensure (k = kind) Bad_Descriptor) (\<lambda>_.
     rbind (ok_or (sv_unix v) Bad_Descriptor) (\<lambda>u.
     rbind (ensure u Bad_Descriptor) (\<lambda>_.
     rbind (ok_or (sv_cloned v) Bad_Descriptor) (\<lambda>_.
     rbind (ok_or (sv_local_unnamed v) Bad_Descriptor) (\<lambda>l.
     rbind (ensure l Bad_Descriptor) (\<lambda>_.
     rbind (ok_or (sv_peer_unnamed v) Bad_Descriptor) (\<lambda>p.
     ensure p Bad_Descriptor))))))))"

datatype ancillary = Scm_rights "nat list" | Other_ancillary

text \<open>\<open>descriptors\<close>: two slots filled in order; a third descriptor or another message is refused.\<close>

fun fill_slots :: "nat list \<Rightarrow> nat list \<Rightarrow> bootstrap_error + nat list" where
  "fill_slots found [] = Inr found"
| "fill_slots found (d # ds) = (if length found < 2 then fill_slots (found @ [d]) ds else Inl Bad_Ancillary)"

fun drain_slots :: "nat list \<Rightarrow> ancillary list \<Rightarrow> bootstrap_error + nat list" where
  "drain_slots found [] = Inr found"
| "drain_slots found (Scm_rights ds # ms) = rbind (fill_slots found ds) (\<lambda>f. drain_slots f ms)"
| "drain_slots found (Other_ancillary # ms) = Inl Bad_Ancillary"

definition descriptors :: "ancillary list \<Rightarrow> bootstrap_error + nat \<times> nat" where
  "descriptors ms =
     rbind (drain_slots [] ms) (\<lambda>found.
       case found of [event_fd, input_fd] \<Rightarrow> Inr (event_fd, input_fd) | _ \<Rightarrow> Inl Bad_Ancillary)"

record input_view =
  iv_write_only :: "bool option"
  iv_kind :: "socket_kind option"
  iv_not_socket :: bool

definition check_input :: "input_view \<Rightarrow> bootstrap_error + unit" where
  "check_input v =
     rbind (ok_or (iv_write_only v) Bad_Descriptor) (\<lambda>w.
     rbind (ensure (\<not> w) Bad_Descriptor) (\<lambda>_.
     ensure (iv_kind v = Some Stream \<or> iv_kind v = None \<and> iv_not_socket v) Bad_Descriptor))"

record bootstrap_frame =
  bf_schema :: nat
  bf_producer :: event_id
  bf_lineage :: lineage

text \<open>
  What the process finds on its standard input: the socket and its peer, the packet with its flags,
  and, by descriptor, what the kernel says of the two it carries.
\<close>

record bootstrap_env =
  be_euid :: nat
  be_socket :: socket_view
  be_packet :: "(bytes \<times> bool) option"
  be_ancillary :: "ancillary list"
  be_frame :: "bytes \<Rightarrow> bootstrap_frame option"
  be_view :: "nat \<Rightarrow> socket_view"
  be_input :: "nat \<Rightarrow> input_view"
  be_cloexec :: "nat \<Rightarrow> bool"
  be_nonblock :: "nat \<Rightarrow> bool"
  be_buffers :: "nat \<Rightarrow> nat \<times> nat"

definition receive_from :: "bootstrap_env \<Rightarrow> nat \<Rightarrow> bootstrap_error + event_sender \<times> nat" where
  "receive_from B parent =
     rbind (private_socket (be_socket B) Seqpacket) (\<lambda>_.
     rbind (ok_or (sv_peer (be_socket B)) Bad_Peer) (\<lambda>(pid, uid).
     rbind (ensure (pid = parent \<and> uid = be_euid B) Bad_Peer) (\<lambda>_.
     rbind (ok_or (be_packet B) No_Transport) (\<lambda>(whole, odd_flags).
     let bs = take MAX_BOOTSTRAP_BYTES whole in
     rbind (ensure (\<not> odd_flags \<and> bs \<noteq> []) Bad_Frame) (\<lambda>_.
     rbind (ok_or (be_frame B bs) Bad_Frame) (\<lambda>f.
     rbind (ensure (bf_schema f = 2 \<and> lineage_valid (bf_lineage f)) Bad_Frame) (\<lambda>_.
     rbind (descriptors (be_ancillary B)) (\<lambda>(event_fd, input_fd).
     rbind (private_socket (be_view B event_fd) Dgram) (\<lambda>_.
     rbind (ok_or (sv_peer (be_view B event_fd)) Bad_Peer) (\<lambda>(event_pid, event_uid).
     rbind (ensure (event_uid = be_euid B) Bad_Peer) (\<lambda>_.
     rbind (check_input (be_input B input_fd)) (\<lambda>_.
     rbind (map_err (\<lambda>_. Bad_Descriptor)
              (transport_adopt (be_cloexec B event_fd) (be_nonblock B event_fd)
                 (fst (be_buffers B event_fd)) (snd (be_buffers B event_fd)))) (\<lambda>t.
     Inr ((sender_new t (bf_producer f))\<lparr>es_lineage := bf_lineage f, es_parent := Some parent\<rparr>, input_fd))))))))))))))"

definition receive_stdin :: "bootstrap_env \<Rightarrow> nat option \<Rightarrow> (nat \<Rightarrow> bool) \<Rightarrow> bootstrap_error + event_sender" where
  "receive_stdin B ppid dup2_stdin =
     rbind (ok_or ppid Bad_Peer) (\<lambda>parent.
     rbind (receive_from B parent) (\<lambda>(s, input_fd).
     rbind (ensure (dup2_stdin input_fd) Bad_Descriptor) (\<lambda>_. Inr s)))"

lemma fill_slots_iff: "length found \<le> 2 \<Longrightarrow> fill_slots found ds = Inr all \<longleftrightarrow> all = found @ ds \<and> length all \<le> 2"
  by (induction ds arbitrary: found) auto

lemma drain_slots_iff:
  "length found \<le> 2 \<Longrightarrow> drain_slots found ms = Inr all \<longleftrightarrow>
     (\<exists>dss. ms = map Scm_rights dss \<and> all = found @ concat dss) \<and> length all \<le> 2"
proof (induction ms arbitrary: found)
  case (Cons m ms)
  show ?case
  proof (cases m)
    case (Scm_rights ds)
    show ?thesis
    proof (cases "length (found @ ds) \<le> 2")
      case True
      then have "fill_slots found ds = Inr (found @ ds)"
        using Cons.prems by (simp add: fill_slots_iff)
      with True Scm_rights Cons.IH [of "found @ ds"] show ?thesis
        by (auto simp: Cons_eq_map_conv)
    next
      case False
      then obtain e where "fill_slots found ds = Inl e"
        using Cons.prems by (metis fill_slots_iff sumE)
      with False Scm_rights show ?thesis
        by (auto simp: Cons_eq_map_conv)
    qed
  qed (auto simp: Cons_eq_map_conv)
qed auto

lemma descriptors_iff:
  "descriptors ms = Inr (e, i) \<longleftrightarrow> (\<exists>dss. ms = map Scm_rights dss \<and> concat dss = [e, i])"
proof -
  have "descriptors ms = Inr (e, i) \<longleftrightarrow> drain_slots [] ms = Inr [e, i]"
    by (cases "drain_slots [] ms") (auto simp: descriptors_def split: list.splits)
  then show ?thesis
    by (auto simp: drain_slots_iff)
qed

lemma private_socket_ok:
  "private_socket v kind = Inr u \<Longrightarrow> sv_kind v = Some kind \<and> sv_unix v = Some True
     \<and> sv_local_unnamed v = Some True \<and> sv_peer_unnamed v = Some True"
  by (auto simp: private_socket_def result_simps split: if_splits)

lemma transport_adopt_ok: "transport_adopt a b c d = Inr t \<Longrightarrow> t = fresh_transport"
  by (auto simp: transport_adopt_def split: if_splits)

lemma receive_from_ok:
  assumes "receive_from B parent = Inr (s, input_fd)"
  shows "\<exists>event_fd (f :: bootstrap_frame) t event_pid. private_socket (be_socket B) Seqpacket = Inr ()
      \<and> sv_peer (be_socket B) = Some (parent, be_euid B) \<and> descriptors (be_ancillary B) = Inr (event_fd, input_fd)
      \<and> private_socket (be_view B event_fd) Dgram = Inr () \<and> sv_peer (be_view B event_fd) = Some (event_pid, be_euid B)
      \<and> t = fresh_transport \<and> lineage_valid (bf_lineage f)
      \<and> s = (sender_new t (bf_producer f))\<lparr>es_lineage := bf_lineage f, es_parent := Some parent\<rparr>"
  using assms
  by (auto simp: receive_from_def result_simps Let_def dest!: transport_adopt_ok split: if_splits prod.splits)

text \<open>
  a process takes its event socket and its input only from the process that started it: an
  accepted bootstrap came over an unnamed packet socket whose peer is that parent under the same user,
  carried exactly two descriptors, the first an unnamed datagram socket of this user, and names a
  well-formed lineage; the sender it gives is unused, so it can be activated.
\<close>

theorem bootstrap_from_parent:
  assumes "receive_stdin B ppid dup2_stdin = Inr s"
  shows "\<exists>parent event_fd input_fd dss.
      ppid = Some parent \<and> sv_kind (be_socket B) = Some Seqpacket \<and> sv_peer (be_socket B) = Some (parent, be_euid B)
      \<and> be_ancillary B = map Scm_rights dss \<and> concat dss = [event_fd, input_fd]
      \<and> sv_kind (be_view B event_fd) = Some Dgram \<and> sv_peer_unnamed (be_view B event_fd) = Some True
      \<and> map_option snd (sv_peer (be_view B event_fd)) = Some (be_euid B)
      \<and> lineage_valid (es_lineage s) \<and> es_parent s = Some parent
      \<and> sender_into_fresh s = Some (fresh_transport, es_producer s)"
proof -
  obtain parent input_fd where from_parent: "ppid = Some parent" "receive_from B parent = Inr (s, input_fd)"
    using assms by (auto simp: receive_stdin_def result_simps split: if_splits)
  from receive_from_ok [OF this(2)] obtain event_fd t event_pid and f :: bootstrap_frame where
      "private_socket (be_socket B) Seqpacket = Inr ()" "sv_peer (be_socket B) = Some (parent, be_euid B)"
      and ds: "descriptors (be_ancillary B) = Inr (event_fd, input_fd)"
      and event: "private_socket (be_view B event_fd) Dgram = Inr ()" "sv_peer (be_view B event_fd) = Some (event_pid, be_euid B)"
      and adopted: "t = fresh_transport"
      and frame: "lineage_valid (bf_lineage f)"
        "s = (sender_new t (bf_producer f))\<lparr>es_lineage := bf_lineage f, es_parent := Some parent\<rparr>"
    by blast
  moreover have "sender_into_fresh s = Some (fresh_transport, es_producer s)"
    using frame(2) adopted by (simp add: sender_into_fresh_def sender_new_def)
  ultimately show ?thesis
    using from_parent(1) ds [unfolded descriptors_iff]
    by (auto dest!: private_socket_ok simp: sender_new_def)
qed

section \<open>Activation\<close>

datatype enable_error = AlreadyEnabled | Entropy | Version
datatype forward_error = UsedSender | Enable_failed enable_error | Thread_failed error

text \<open>\<open>PROCESS\<close> is set once; \<open>version\<close> is the crate's version as far as it parses.\<close>

definition enable_bound ::
  "nat list option \<Rightarrow> event_id \<Rightarrow> lineage \<Rightarrow> emitter option \<Rightarrow> enable_error + emitter" where
  "enable_bound version producer lin process =
     (if process \<noteq> None then Inl AlreadyEnabled
      else case version of None \<Rightarrow> Inl Version
        | Some v \<Rightarrow> Inr \<lparr>em_producer = producer, em_lineage = lin, em_version = v\<rparr>)"

definition enable_local ::
  "nat list option \<Rightarrow> event_id option \<Rightarrow> emitter option \<Rightarrow> enable_error + emitter" where
  "enable_local version generated process =
     (if process \<noteq> None then Inl AlreadyEnabled
      else case generated of None \<Rightarrow> Inl Entropy
        | Some i \<Rightarrow> enable_bound version i Lineage_default process)"

record event_process =
  ep_emitter :: "emitter option"
  ep_requests :: request_state

definition forwarder_activate ::
  "nat list option \<Rightarrow> error + unit \<Rightarrow> nat \<Rightarrow> event_sender \<Rightarrow> event_process
     \<Rightarrow> (forward_error + event_sender) \<times> event_process" where
  "forwarder_activate version spawned euid s P =
     (case sender_into_fresh s of
        None \<Rightarrow> (Inl UsedSender, P)
      | Some (inner, producer) \<Rightarrow>
          (case enable_bound version producer (es_lineage s) (ep_emitter P) of
             Inl e \<Rightarrow> (Inl (Enable_failed e), P)
           | Inr em \<Rightarrow>
               let P1 = P\<lparr>ep_emitter := Some em\<rparr> in
               (case spawned of
                  Inl e \<Rightarrow> (Inl (Thread_failed e), P1)
                | Inr _ \<Rightarrow>
                    (Inr ((sender_new inner producer)\<lparr>es_lineage := es_lineage s\<rparr>),
                     (case es_parent s of
                        None \<Rightarrow> P1
                      | Some parent \<Rightarrow> P1\<lparr>ep_requests := source_install parent euid (es_lineage s) (ep_requests P1)\<rparr>)))))"

definition event_bootstrap_flag :: string where "event_bootstrap_flag = ''--event-bootstrap''"

definition bootstrap_requested :: "string list \<Rightarrow> string + bool \<times> string list" where
  "bootstrap_requested args =
     (let count = length (filter (\<lambda>a. a = event_bootstrap_flag) args) in
      if count = 0 then Inr (False, args)
      else if count \<noteq> 1 \<or> (case args of [] \<Rightarrow> True | a # _ \<Rightarrow> a \<notin> {''run'', ''serve''})
      then Inl ''native event bootstrap requires one flag on run or serve''
      else Inr (True, filter (\<lambda>a. a \<noteq> event_bootstrap_flag) args))"

section \<open>The forwarding loop and the shutdown\<close>

text \<open>One pass of \<open>run\<close>: what \<open>try_recv\<close> gave, when the report is considered, and the socket's answers.\<close>

record forward_round =
  fr_received :: "bytes option"
  fr_answer :: send_answer
  fr_now :: instant
  fr_loss :: event_loss
  fr_report_answer :: send_answer
  fr_report_at :: instant
  fr_reported :: instant

fun forward_run :: "(status_frame \<Rightarrow> bytes list) \<Rightarrow> forward_round list \<Rightarrow> instant \<Rightarrow> event_sender \<Rightarrow> event_sender" where
  "forward_run pieces [] reported s = s"
| "forward_run pieces (r # rs) reported s =
     (let s1 = (case fr_received r of None \<Rightarrow> s | Some bs \<Rightarrow> snd (sender_send (fr_answer r) bs s)) in
      if fr_now r - reported \<ge> REPORT_INTERVAL
      then forward_run pieces rs (fr_reported r)
             (snd (sender_report_at pieces (fr_report_answer r) (fr_loss r) False (fr_report_at r) s1))
      else forward_run pieces rs reported s1)"

definition SHUTDOWN_BUDGET :: duration where "SHUTDOWN_BUDGET = 1000000000"

datatype shutdown_error = Panicked | BudgetExceeded

record forwarded =
  fw_queue_loss :: event_loss
  fw_transport_loss :: transport_loss
  fw_final_report :: report_result
  fw_local_unconfirmed :: bool

definition forwarded_incomplete :: "forwarded \<Rightarrow> bool" where
  "forwarded_incomplete f \<longleftrightarrow>
     fw_local_unconfirmed f \<or> fw_queue_loss f \<noteq> Loss_default \<or> fw_transport_loss f \<noteq> TransportLoss_default
     \<or> fw_final_report f \<noteq> Report_Sent Sent_Queued"

text \<open>
  \<open>finish\<close> after the worker has been joined and the receiver dropped: the counters as the number of
  active emissions is read and, after that, as the losses are read; two readings of the time spent.
\<close>

record finish_env =
  fe_joined :: bool
  fe_active :: counters
  fe_counters :: counters
  fe_elapsed :: duration
  fe_answer :: send_answer
  fe_at :: instant
  fe_elapsed_last :: duration

definition forward_finish ::
  "(status_frame \<Rightarrow> bytes list) \<Rightarrow> finish_env \<Rightarrow> event_sender \<Rightarrow> (shutdown_error + forwarded) \<times> event_sender" where
  "forward_finish pieces F s =
     (if \<not> fe_joined F then (Inl Panicked, s)
      else
        let local_unconfirmed = (ct_active (fe_active F) \<noteq> 0);
            queue_loss = counters_snapshot (fe_counters F);
            finished = (\<not> local_unconfirmed \<and> fe_elapsed F \<le> SHUTDOWN_BUDGET);
            (final_report, t) = sender_report_at pieces (fe_answer F) queue_loss finished (fe_at F) s
        in if fe_elapsed_last F > SHUTDOWN_BUDGET then (Inl BudgetExceeded, t)
           else (Inr \<lparr>fw_queue_loss = queue_loss, fw_transport_loss = tr_loss (es_inner t),
                      fw_final_report = final_report, fw_local_unconfirmed = local_unconfirmed\<rparr>, t))"

fun log_events :: "packet list \<Rightarrow> bytes list" where
  "log_events [] = []"
| "log_events (Event_packet bs # ps) = bs # log_events ps"
| "log_events (Status_packet f # ps) = log_events ps"

lemma log_events_append [simp]: "log_events (ps @ qs) = log_events ps @ log_events qs"
  by (induction ps rule: log_events.induct) auto

lemma sender_send_lossless:
  assumes "sender_send a bs s = (r, t)" "tr_loss (es_inner t) = TransportLoss_default"
  shows "tr_loss (es_inner s) = TransportLoss_default \<and> log_events (es_log t) = log_events (es_log s) @ [bs]"
proof (cases "es_finished s \<or> es_events_sent s = U64_MAX")
  case True
  with assms show ?thesis
    by (auto simp: sender_send_def dest: transport_send_empty split: prod.splits)
next
  case False
  with assms show ?thesis
    by (auto simp: sender_send_def dest: transport_send_lossless split: prod.splits if_splits)
qed

lemma sender_report_lossless:
  assumes "sender_report_at pieces a L fin at s = (r, t)" "tr_loss (es_inner t) = TransportLoss_default"
  shows "tr_loss (es_inner s) = TransportLoss_default \<and> log_events (es_log t) = log_events (es_log s)"
  using assms
  by (auto simp: sender_report_at_def Let_def dest: transport_send_lossless
      split: if_splits option.splits sum.splits prod.splits)

lemma forward_run_inv: "sender_inv pieces s \<Longrightarrow> sender_inv pieces (forward_run pieces rs reported s)"
proof (induction rs arbitrary: reported s)
  case (Cons r rs)
  let ?s = "case fr_received r of None \<Rightarrow> s | Some bs \<Rightarrow> snd (sender_send (fr_answer r) bs s)"
  have one: "sender_inv pieces ?s"
    using Cons.prems by (auto split: option.splits) (metis prod.collapse sender_inv_send)
  have "sender_inv pieces (snd (sender_report_at pieces a L False at ?s))" for a L at
    using one by (metis prod.collapse sender_inv_report)
  with one show ?case
    by (simp add: Let_def Cons.IH)
qed simp

lemma forward_run_lossless:
  assumes "tr_loss (es_inner (forward_run pieces rs reported s)) = TransportLoss_default"
  shows "tr_loss (es_inner s) = TransportLoss_default
    \<and> log_events (es_log (forward_run pieces rs reported s)) = log_events (es_log s) @ List.map_filter fr_received rs"
  using assms
proof (induction rs arbitrary: reported s)
  case (Cons r rs)
  define s1 where "s1 = (case fr_received r of None \<Rightarrow> s | Some bs \<Rightarrow> snd (sender_send (fr_answer r) bs s))"
  define s2 where "s2 = (if fr_now r - reported \<ge> REPORT_INTERVAL
    then snd (sender_report_at pieces (fr_report_answer r) (fr_loss r) False (fr_report_at r) s1) else s1)"
  define at where "at = (if fr_now r - reported \<ge> REPORT_INTERVAL then fr_reported r else reported)"
  have run: "forward_run pieces (r # rs) reported s = forward_run pieces rs at s2"
    by (simp add: s1_def s2_def at_def Let_def)
  have rest: "tr_loss (es_inner s2) = TransportLoss_default"
      "log_events (es_log (forward_run pieces rs at s2)) = log_events (es_log s2) @ List.map_filter fr_received rs"
    using Cons.IH [of at s2] Cons.prems run by auto
  have reported: "tr_loss (es_inner s1) = TransportLoss_default \<and> log_events (es_log s2) = log_events (es_log s1)"
    using rest(1) unfolding s2_def
    by (auto split: if_splits) (metis prod.collapse sender_report_lossless)+
  then have "tr_loss (es_inner s) = TransportLoss_default
      \<and> log_events (es_log s1) = log_events (es_log s) @ (case fr_received r of None \<Rightarrow> [] | Some bs \<Rightarrow> [bs])"
    unfolding s1_def by (auto split: option.splits) (metis prod.collapse sender_send_lossless)+
  with run rest reported show ?case
    by (simp add: List.map_filter_simps split: option.splits)
qed (simp add: List.map_filter_simps)

definition losses_grow :: "event_world \<Rightarrow> event_world \<Rightarrow> bool" where
  "losses_grow w v \<longleftrightarrow>
     ct_full (ew_counters w) \<le> ct_full (ew_counters v) \<and> ct_closed (ew_counters w) \<le> ct_closed (ew_counters v)
     \<and> ct_encoding (ew_counters w) \<le> ct_encoding (ew_counters v)
     \<and> ct_enqueued (ew_counters w) \<le> ct_enqueued (ew_counters v)
     \<and> (ew_receiver w = Dropped \<longrightarrow>
          ew_receiver v = Dropped \<and> ct_dequeued (ew_counters v) = ct_dequeued (ew_counters w)
          \<and> ct_receiver_closed (ew_counters v) = ct_receiver_closed (ew_counters w))"

lemma losses_grow_trans: "losses_grow u v \<Longrightarrow> losses_grow v w \<Longrightarrow> losses_grow u w"
  by (auto simp: losses_grow_def)

lemma emit_next_grows:
  assumes "event_inv ep E w" "emit_next ep E w q = (v, p)"
  shows "losses_grow w (v\<lparr>ew_phases := ps\<rparr>)"
proof -
  have "ct_full (ew_counters w) < U64_MAX" "ct_closed (ew_counters w) < U64_MAX"
    "ct_encoding (ew_counters w) < U64_MAX" "ct_enqueued (ew_counters w) < U64_MAX"
    using assms(1) by (auto simp: event_inv_def counts_kept_def)
  with assms(2) show ?thesis
    by (cases "(ep, E, w, q)" rule: emit_next.cases)
      (auto simp: losses_grow_def count_defs saturating_inc_room wrapping_inc_room split: if_splits option.splits sum.splits)
qed

lemma event_step_grows:
  assumes "event_inv ep E w" "event_step ep E w v"
  shows "losses_grow w v"
  using assms(2)
proof cases
  case (step_next i u p)
  then show ?thesis
    using emit_next_grows [OF assms(1)] by blast
next
  case step_receive
  then show ?thesis
    by (auto simp: losses_grow_def receiver_next_def split: receiver_phase.splits list.splits)
next
  case step_close
  then show ?thesis
    by (auto simp: losses_grow_def receiver_close_def split: receiver_phase.splits)
qed (auto simp: losses_grow_def emit_enter_def emit_leave_def identity_next_def count_defs split: option.splits)

lemma event_steps_grow: "(event_step ep E)\<^sup>*\<^sup>* w v \<Longrightarrow> event_inv ep E w \<Longrightarrow> event_inv ep E v \<and> losses_grow w v"
proof (induction rule: rtranclp_induct)
  case base
  then show ?case by (simp add: losses_grow_def)
next
  case (step u v)
  then show ?case
    by (meson event_queue.kept event_step_grows losses_grow_trans)
qed

lemma report_logged:
  "sender_report_at pieces a L fin at s = (Report_Sent Sent_Queued, t) \<Longrightarrow>
     \<exists>f. es_log t = es_log s @ [Status_packet f] \<and> (ps_finished (sf_status f) \<longleftrightarrow> fin)"
  by (auto simp: sender_report_at_def Let_def split: if_splits option.splits sum.splits prod.splits)

lemma nothing_lost:
  assumes "event_inv ep E w" "ew_receiver w = Dropped" "(event_step ep E)\<^sup>*\<^sup>* w v"
    and "ct_active (ew_counters w) = 0" "counters_snapshot (ew_counters v) = Loss_default"
  shows "length (ew_got w) = ew_sequence w - 1"
proof -
  have grow: "losses_grow w v"
    using event_steps_grow [OF assms(3,1)] by blast
  have inv: "ew_phases w = []" "ct_enqueued (ew_counters w) = length (ew_numbered w)"
      "ct_dequeued (ew_counters w) = length (ew_got w)" "length (ew_got w) \<le> length (ew_numbered w)"
      "ct_receiver_closed (ew_counters w)"
    using assms(1,2,4) stream_length [of ep E w] by (auto simp: event_inv_def event_inv_defs stream_def)
  have zero: "ct_full (ew_counters w) = 0" "ct_closed (ew_counters w) = 0" "ct_encoding (ew_counters w) = 0"
      "ct_enqueued (ew_counters w) \<le> ct_dequeued (ew_counters w)"
    using assms(2,5) grow inv(5) by (auto simp: losses_grow_def counters_snapshot_def Loss_default_def)
  show ?thesis
    using assms(1) inv zero by (auto simp: event_inv_def counts_kept_def)
qed

text \<open>
  C34: a shutdown that reports itself complete lost nothing: every event number given out before the
  last emission ended was received from the queue, every received event was put on the socket, in the
  order of the queue and once, and the last packet is the report that says finished with the number of
  events sent.
\<close>

theorem complete_shutdown_lost_nothing:
  assumes "reachable (\<lambda>w. w = event_world_start) (event_step ep E) w" "ew_receiver w = Dropped"
    and "(event_step ep E)\<^sup>*\<^sup>* w v" "fe_active F = ew_counters w" "fe_counters F = ew_counters v"
    and "fe_elapsed F \<le> fe_elapsed_last F" "List.map_filter fr_received rounds = ew_got w"
    and "forward_finish pieces F (forward_run pieces rounds began (sender_new fresh_transport producer)) = (Inr out, s)"
    and "\<not> forwarded_incomplete out"
  shows "\<exists>pre f. es_log s = pre @ [Status_packet f] \<and> log_events pre = ew_got w
     \<and> ps_finished (sf_status f) \<and> ps_events_sent (sf_status f) = ew_sequence w - 1
     \<and> length (ew_got w) = ew_sequence w - 1
     \<and> tr_packets (es_inner s) = map (packet_bytes pieces) pre @ [concat (pieces f)]"
proof -
  let ?m = "forward_run pieces rounds began (sender_new fresh_transport producer)"
  define fin where "fin = (ct_active (fe_active F) = 0 \<and> fe_elapsed F \<le> SHUTDOWN_BUDGET)"
  have told: "sender_report_at pieces (fe_answer F) (counters_snapshot (ew_counters v)) fin (fe_at F) ?m
      = (Report_Sent Sent_Queued, s)" "fe_elapsed_last F \<le> SHUTDOWN_BUDGET" "ct_active (ew_counters w) = 0"
    and lossless: "counters_snapshot (ew_counters v) = Loss_default" "tr_loss (es_inner s) = TransportLoss_default"
    using assms(4,5,8,9)
    by (auto simp: forward_finish_def forwarded_incomplete_def fin_def Let_def split: if_splits prod.splits)
  have fin: fin
    using told(2,3) assms(4,6) by (simp add: fin_def)
  have run: "sender_inv pieces ?m"
    by (intro forward_run_inv sender_inv_new) simp
  then have inv: "sender_inv pieces s"
    using told(1) by (rule sender_inv_report)
  have events: "log_events (es_log s) = ew_got w"
    using sender_report_lossless [OF told(1) lossless(2)]
      forward_run_lossless [of pieces rounds began "sender_new fresh_transport producer"] assms(7)
    by (simp add: sender_new_def)
  obtain f where f: "es_log s = es_log ?m @ [Status_packet f]" "ps_finished (sf_status f)"
    using report_logged [OF told(1)] fin by blast
  have "event_inv ep E w"
    using assms(1) by (rule event_queue.always)
  then have all: "length (ew_got w) = ew_sequence w - 1"
    using nothing_lost [OF _ assms(2,3) told(3) lossless(1)] by blast
  have "length (filter is_event ps) = length (log_events ps)" for ps
    by (induction ps rule: log_events.induct) auto
  then have "ps_events_sent (sf_status f) = length (ew_got w)"
    using log_exactD [of "es_next_revision s" "es_finished s" "es_log ?m" f "[]"] inv f(1) events
    by (simp add: sender_inv_def status_exact_def)
  with f events all inv lossless(2) show ?thesis
    by (intro exI [of _ "es_log ?m"] exI [of _ f]) (simp add: sender_inv_def)
qed

section \<open>Runs\<close>

definition demo_status_pieces :: "status_frame \<Rightarrow> bytes list" where
  "demo_status_pieces f = [''s'']"

definition demo_sends :: "sender_op list" where
  "demo_sends =
     [Do_send (Sent_bytes 2) ''e1'', Do_send Send_again ''e2'', Do_report (Sent_bytes 1) Loss_default True 5,
      Do_send (Sent_bytes 2) ''e3'']"

theorem status_reports_exact_witness:
  "\<exists>f. es_log (fold (sender_do demo_status_pieces) demo_sends (sender_new fresh_transport ''P''))
        = [Event_packet ''e1'', Status_packet f]
     \<and> ps_events_sent (sf_status f) = 1 \<and> ps_finished (sf_status f)"
proof -
  define s where "s = fold (sender_do demo_status_pieces) demo_sends (sender_new fresh_transport ''P'')"
  obtain f where f: "es_log s = [Event_packet ''e1''] @ Status_packet f # []" "ps_finished (sf_status f)"
    by (simp add: s_def demo_sends_def sender_send_def sender_report_at_def sender_new_def transport_send_def Let_def
        TransportLoss_default_def MAX_EVENT_BYTES_def U64_MAX_def checked_inc_def demo_status_pieces_def
        encoded_write_def saturating_inc_def)
  from status_reports_exact [OF s_def this(1), of "[]"] f show ?thesis
    by (simp add: s_def)
qed

definition demo_socket :: "socket_kind \<Rightarrow> socket_view" where
  "demo_socket k =
     \<lparr>sv_kind = Some k, sv_unix = Some True, sv_cloned = Some (), sv_local_unnamed = Some True,
      sv_peer_unnamed = Some True, sv_peer = Some (7, 1000)\<rparr>"

definition demo_bootstrap :: bootstrap_env where
  "demo_bootstrap =
     \<lparr>be_euid = 1000, be_socket = demo_socket Seqpacket, be_packet = Some (''frame'', False),
      be_ancillary = [Scm_rights [3, 4]],
      be_frame = (\<lambda>_. Some \<lparr>bf_schema = 2, bf_producer = ''P'', bf_lineage = Lineage_default\<rparr>),
      be_view = (\<lambda>_. demo_socket Dgram),
      be_input = (\<lambda>_. \<lparr>iv_write_only = Some False, iv_kind = Some Stream, iv_not_socket = False\<rparr>),
      be_cloexec = (\<lambda>_. True), be_nonblock = (\<lambda>_. True), be_buffers = (\<lambda>_. (4096, 4096))\<rparr>"

theorem bootstrap_from_parent_witness:
  "\<exists>s. receive_stdin demo_bootstrap (Some 7) (\<lambda>_. True) = Inr s
     \<and> sender_into_fresh s = Some (fresh_transport, es_producer s)"
proof -
  obtain s where "receive_stdin demo_bootstrap (Some 7) (\<lambda>_. True) = Inr s"
    by (simp add: receive_stdin_def receive_from_def demo_bootstrap_def demo_socket_def private_socket_def Let_def
        MAX_BOOTSTRAP_BYTES_def descriptors_def check_input_def transport_adopt_def MAX_BUFFER_def
        lineage_valid_def Lineage_default_def)
  with bootstrap_from_parent [OF this] show ?thesis
    by blast
qed

definition demo_all_ops :: "event_op list" where
  "demo_all_ops =
     [Op_enter (Some (Correlation_default, Fact_Mutation State_Refused)), Op_next 0, Op_next 0, Op_next 0, Op_next 0,
      Op_next 0, Op_leave 0, Op_receive, Op_receive, Op_close, Op_close]"

definition demo_all :: event_world where
  "demo_all = fold (event_exec demo_pieces demo_emitter) demo_all_ops event_world_start"

lemma demo_all_eq:
  "demo_all =
     \<lparr>ew_sequence = 2, ew_identities = 1,
      ew_counters = \<lparr>ct_active = 0, ct_enqueued = 1, ct_dequeued = 1, ct_receiver_closed = True,
        ct_full = 0, ct_closed = 0, ct_encoding = 0, ct_exhausted = 0\<rparr>,
      ew_queue = [], ew_receiver = Dropped, ew_phases = [], ew_got = [''{}''], ew_discarded = [],
      ew_numbered = [1]\<rparr>"
  by (simp add: demo_all_def demo_all_ops_def event_world_start_def emit_enter_def checked_inc_def Counters_default_def
      U64_MAX_def encoded_write_def demo_pieces_def MAX_EVENT_BYTES_def QUEUED_EVENTS_def wrapping_inc_def
      wrapping_dec_def emit_leave_def receiver_next_def receiver_close_def Let_def)

definition demo_round :: forward_round where
  "demo_round =
     \<lparr>fr_received = Some ''{}'', fr_answer = Sent_bytes 2, fr_now = 0, fr_loss = Loss_default,
      fr_report_answer = Send_failed, fr_report_at = 0, fr_reported = 0\<rparr>"

definition demo_finish :: finish_env where
  "demo_finish =
     \<lparr>fe_joined = True, fe_active = ew_counters demo_all, fe_counters = ew_counters demo_all, fe_elapsed = 1,
      fe_answer = Sent_bytes 1, fe_at = 9, fe_elapsed_last = 2\<rparr>"

theorem complete_shutdown_lost_nothing_witness:
  "\<exists>out s. forward_finish demo_status_pieces demo_finish
        (forward_run demo_status_pieces [demo_round] 0 (sender_new fresh_transport ''P'')) = (Inr out, s)
     \<and> \<not> forwarded_incomplete out \<and> tr_packets (es_inner s) = [''{}'', ''s'']
     \<and> length (ew_got demo_all) = ew_sequence demo_all - 1"
proof -
  let ?ran = "forward_finish demo_status_pieces demo_finish
        (forward_run demo_status_pieces [demo_round] 0 (sender_new fresh_transport ''P''))"
  let ?out = "\<lparr>fw_queue_loss = Loss_default, fw_transport_loss = TransportLoss_default,
    fw_final_report = Report_Sent Sent_Queued, fw_local_unconfirmed = False\<rparr>"
  note eval = forward_finish_def demo_finish_def demo_round_def sender_send_def sender_report_at_def sender_new_def
    transport_send_def Let_def TransportLoss_default_def MAX_EVENT_BYTES_def U64_MAX_def checked_inc_def
    demo_status_pieces_def encoded_write_def demo_all_eq counters_snapshot_def Loss_default_def SHUTDOWN_BUDGET_def
    REPORT_INTERVAL_def
  have "fst ?ran = Inr ?out" and packets: "tr_packets (es_inner (snd ?ran)) = [''{}'', ''s'']"
    by (simp_all add: eval)
  then have ran: "?ran = (Inr ?out, snd ?ran)"
    by (metis prod.collapse)
  have whole: "\<not> forwarded_incomplete ?out"
    by (simp add: forwarded_incomplete_def)
  have reached: "reachable (\<lambda>w. w = event_world_start) (event_step demo_pieces demo_emitter) demo_all"
    unfolding demo_all_def by (rule event_run_reachable) (simp add: reach_start)
  have "length (ew_got demo_all) = ew_sequence demo_all - 1"
    using complete_shutdown_lost_nothing [OF reached _ _ _ _ _ _ ran whole, of demo_all]
    by (auto simp: demo_all_eq demo_finish_def demo_round_def List.map_filter_simps)
  with ran whole packets show ?thesis
    by blast
qed

end
